(* ===== verification/Elfperf_Prelude.thy ===== *)
theory Elfperf_Prelude
  imports Main "HOL-Library.Word" "HOL-Library.Sublist"
begin

text \<open>
  Shared vocabulary of the development: the machine integer types, byte-addressed memory with
  its read-over-write laws, the little-endian encoding the redirectors are written with, the
  part of \<^verbatim>\<open>string.h\<close> that the sources call, and the ways in which a C function can fail to
  return.
\<close>

unbundle bit_operations_syntax

named_theorems mem_simps \<open>read-over-write laws of memories\<close>
named_theorems cstr_simps \<open>laws of the string functions of the C library\<close>

type_synonym byte = "8 word"
type_synonym u32 = "32 word"
type_synonym u64 = "64 word"
type_synonym memory = "u64 \<Rightarrow> byte"

text \<open>What happens instead of a normal return: an access through a null or unmapped pointer, a
  write outside an array, a call of \<^verbatim>\<open>exit\<close>, a failed \<^verbatim>\<open>assert\<close>, a loop that does not end.\<close>

datatype fault = SegFault | OutOfBounds | Exit int | AssertFailed | Diverges

type_synonym 'a result = "fault + 'a"

fun bind_result :: "'a result \<Rightarrow> ('a \<Rightarrow> 'b result) \<Rightarrow> 'b result" where
  "bind_result (Inl e) f = Inl e"
| "bind_result (Inr x) f = f x"

text \<open>Reading an array.\<close>

definition get :: "'a list \<Rightarrow> nat \<Rightarrow> 'a result" where
  "get xs i = (if i < length xs then Inr (xs ! i) else Inl OutOfBounds)"

lemma bind_result_Inr_iff:
  "bind_result r f = Inr y \<longleftrightarrow> (\<exists>x. r = Inr x \<and> f x = Inr y)"
  by (cases r) auto

subsection \<open>Byte memory\<close>

definition store :: "memory \<Rightarrow> u64 \<Rightarrow> byte list \<Rightarrow> memory" where
  "store m a bs = (\<lambda>x. if unat (x - a) < length bs then bs ! unat (x - a) else m x)"

definition load :: "memory \<Rightarrow> u64 \<Rightarrow> nat \<Rightarrow> byte list" where
  "load m a n = map (\<lambda>i. m (a + of_nat i)) [0..<n]"

text \<open>Two ranges are disjoint when no byte of the one is a byte of the other.\<close>

definition disjoint_ranges :: "u64 \<Rightarrow> nat \<Rightarrow> u64 \<Rightarrow> nat \<Rightarrow> bool" where
  "disjoint_ranges a n b k \<longleftrightarrow> n \<le> unat (b - a) \<and> k \<le> unat (a - b)"

lemma length_load [simp]: "length (load m a n) = n"
  by (simp add: load_def)

lemma unat_bound:
  "unat (w :: u64) < 18446744073709551616" "unat (v :: u32) < 4294967296" "unat (b :: byte) < 256"
  using unsigned_less [of w, where 'a = nat] unsigned_less [of v, where 'a = nat]
    unsigned_less [of b, where 'a = nat] by simp_all

lemma unat_of_nat_u64: "n < 2 ^ 64 \<Longrightarrow> unat (of_nat n :: u64) = n"
  by (simp add: unat_of_nat)

lemma load_store_same [mem_simps]:
  assumes "length bs \<le> 2 ^ 64"
  shows "load (store m a bs) a (length bs) = bs"
proof (rule nth_equalityI)
  show "length (load (store m a bs) a (length bs)) = length bs" by simp
next
  fix i assume "i < length (load (store m a bs) a (length bs))"
  then have i: "i < length bs" by simp
  with assms have "unat (of_nat i :: u64) = i" by (intro unat_of_nat_u64) simp
  with i show "load (store m a bs) a (length bs) ! i = bs ! i"
    by (simp add: load_def store_def)
qed

lemma disjoint_ranges_sym: "disjoint_ranges a n b k \<Longrightarrow> disjoint_ranges b k a n"
  by (simp add: disjoint_ranges_def)

lemma disjoint_byte:
  assumes "disjoint_ranges a n b k" "j < k" "k < 2 ^ 64"
  shows "n \<le> unat (b + of_nat j - a)"
proof -
  have j: "unat (of_nat j :: u64) = j" using assms by (intro unat_of_nat_u64) simp
  have "unat (b + of_nat j) = (if unat b + j < 2 ^ 64 then unat b + j else unat b + j - 2 ^ 64)"
    using j by (simp add: unat_plus_if')
  moreover have "unat a < 2 ^ 64" "unat b < 2 ^ 64"
    using unsigned_less [of a] unsigned_less [of b] by simp_all
  ultimately show ?thesis using assms
    by (auto simp: disjoint_ranges_def unat_sub_if_size word_size split: if_splits)
qed

lemma load_store_disjoint [mem_simps]:
  assumes "disjoint_ranges a (length bs) b k" "k < 2 ^ 64"
  shows "load (store m a bs) b k = load m b k"
  using disjoint_byte [OF assms(1) _ assms(2)]
  by (auto simp: load_def store_def not_less [symmetric])

text \<open>Consecutive slots of \<open>r\<close> bytes after a base address do not overlap.\<close>

lemma offset_disjoint:
  assumes "p + r \<le> q \<or> q + r \<le> p" "p + r \<le> 2 ^ 63" "q + r \<le> 2 ^ 63"
  shows "disjoint_ranges (b + of_nat p) r (b + of_nat q) r"
proof -
  have "unat (of_nat p :: u64) = p" "unat (of_nat q :: u64) = q"
    using assms by (auto intro!: unat_of_nat_u64)
  then show ?thesis
    using assms by (auto simp: disjoint_ranges_def unat_sub_if_size word_size)
qed

lemma slot_disjoint:
  assumes "i \<noteq> j" "r * i + r \<le> 2 ^ 63" "r * j + r \<le> 2 ^ 63"
  shows "disjoint_ranges (b + of_nat (r * i)) r (b + of_nat (r * j)) r"
proof (rule offset_disjoint)
  show "r * i + r \<le> r * j \<or> r * j + r \<le> r * i"
    using assms(1) by (metis Suc_leI linorder_neqE_nat mult_Suc_right mult_le_mono2 add.commute)
qed (use assms in simp_all)

subsection \<open>Little-endian integers\<close>

fun le_bytes :: "nat \<Rightarrow> 'a::len word \<Rightarrow> byte list" where
  "le_bytes 0 w = []"
| "le_bytes (Suc n) w = ucast w # le_bytes n (drop_bit 8 w)"

fun of_le :: "byte list \<Rightarrow> nat" where
  "of_le [] = 0"
| "of_le (b # bs) = unat b + 256 * of_le bs"

lemma length_le_bytes [simp]: "length (le_bytes n w) = n"
  by (induction n arbitrary: w) auto

lemma of_le_le_bytes: "of_le (le_bytes n w) = unat w mod 256 ^ n"
proof (induction n arbitrary: w)
  case (Suc n)
  have "unat (ucast w :: byte) = unat w mod 256"
    by (simp add: unsigned_ucast_eq take_bit_eq_mod)
  moreover have "unat (drop_bit 8 w) = unat w div 256"
    by (subst unat_drop_bit_eq) (simp add: drop_bit_eq_div)
  ultimately show ?case using Suc by (simp add: mod_mult2_eq)
qed simp

lemma of_le_less: "of_le bs < 256 ^ length bs"
proof (induction bs)
  case (Cons b bs)
  have "unat b < 256" using unsigned_less [of b, where ?'a = nat] by simp
  then show ?case using Cons by simp
qed simp

lemma of_le_zeros: "of_le (replicate n 0) = 0"
  by (induction n) auto

lemma le_bytes_u64: "word_of_nat (of_le (le_bytes 8 w)) = (w :: u64)"
  by (simp add: of_le_le_bytes unat_bound)

lemma le_bytes_u32: "word_of_nat (of_le (le_bytes 4 w)) = (w :: u32)"
  by (simp add: of_le_le_bytes unat_bound)

subsection \<open>Strings of the C library\<close>

text \<open>
  A C string is the \<open>string\<close> of its bytes before the terminating zero byte; a pointer into it is
  an offset, \<open>None\<close> for \<^verbatim>\<open>NULL\<close>.
\<close>

fun strstr :: "string \<Rightarrow> string \<Rightarrow> nat option" where
  "strstr [] nd = (if nd = [] then Some 0 else None)"
| "strstr (c # cs) nd = (if prefix nd (c # cs) then Some 0 else map_option Suc (strstr cs nd))"

fun strchr :: "string \<Rightarrow> char \<Rightarrow> nat option" where
  "strchr [] c = None"
| "strchr (x # xs) c = (if x = c then Some 0 else map_option Suc (strchr xs c))"

definition strndup :: "string \<Rightarrow> nat \<Rightarrow> string" where
  "strndup s n = take n s"

text \<open>The byte at an offset up to and including the terminator.\<close>

definition cstr_at :: "string \<Rightarrow> nat \<Rightarrow> char" where
  "cstr_at s i = (if i < length s then s ! i else CHR 0x00)"

lemma strstr_zero_iff [cstr_simps]: "strstr s nd = Some 0 \<longleftrightarrow> prefix nd s"
  by (cases s) (auto simp: prefix_def)

lemma strstr_SomeD: "strstr s nd = Some i \<Longrightarrow> i \<le> length s \<and> prefix nd (drop i s)"
  by (induction s arbitrary: i) (auto split: if_splits)

lemma strstr_None_iff [cstr_simps]: "strstr s nd = None \<longleftrightarrow> \<not> sublist nd s"
proof (induction s)
  case (Cons c cs)
  then show ?case by (auto simp: sublist_Cons_right)
qed simp

lemma strchr_SomeD:
  "strchr s c = Some i \<Longrightarrow> i < length s \<and> s ! i = c \<and> c \<notin> set (take i s)"
  by (induction s arbitrary: i) (auto split: if_splits)

lemma strchr_None_iff [cstr_simps]: "strchr s c = None \<longleftrightarrow> c \<notin> set s"
  by (induction s) auto

lemma strchr_append [cstr_simps]:
  "c \<notin> set xs \<Longrightarrow> strchr (xs @ c # ys) c = Some (length xs)"
  by (induction xs) auto

subsection \<open>First match in a list\<close>

fun first_index :: "('a \<Rightarrow> bool) \<Rightarrow> 'a list \<Rightarrow> nat option" where
  "first_index P [] = None"
| "first_index P (x # xs) = (if P x then Some 0 else map_option Suc (first_index P xs))"

lemma first_index_None_iff: "first_index P xs = None \<longleftrightarrow> (\<forall>x\<in>set xs. \<not> P x)"
  by (induction xs) auto

lemma first_index_Some_iff:
  "first_index P xs = Some i \<longleftrightarrow> i < length xs \<and> P (xs ! i) \<and> (\<forall>j<i. \<not> P (xs ! j))"
proof (induction xs arbitrary: i)
  case (Cons x xs)
  show ?case
  proof (cases i)
    case (Suc k)
    then show ?thesis using Cons [of k] by (auto simp: less_Suc_eq_0_disj)
  qed (auto split: if_splits)
qed simp

lemma first_index_cong_map: "first_index P (map f xs) = first_index (P \<circ> f) xs"
  by (induction xs) auto

end
