(* ===== verification/Fn_List.thy ===== *)
theory Fn_List
  imports Elfperf_Prelude
begin

text \<open>
  The configuration of the profiler: the environment variables it reads and the list of function
  names it parses out of them (\<^verbatim>\<open>src/libelfperf/ld-routines.h\<close>, and the stand-alone copy of the
  parser in \<^verbatim>\<open>src/fn_getters/fngetter.c\<close>). The environment is the list of its entries.
\<close>

section \<open>Architecture and environment\<close>

text \<open>The build defines one of \<^verbatim>\<open>ELFPERF_ARCH_32\<close> and \<^verbatim>\<open>ELFPERF_ARCH_64\<close>.\<close>

datatype arch = ARCH_32 | ARCH_64

type_synonym environ = "string list"

definition ELFPERF_PROFILE_FUNCTION_ENV_VARIABLE :: string where
  "ELFPERF_PROFILE_FUNCTION_ENV_VARIABLE = ''ELFPERF_PROFILE_FUNCTION''"

definition ELFPERF_ENABLE_VARIABLE :: string where
  "ELFPERF_ENABLE_VARIABLE = ''ELFPERF_ENABLE''"

text \<open>The C library's \<^verbatim>\<open>getenv\<close>: the value of the first entry \<open>name=value\<close>.\<close>

fun libc_getenv :: "environ \<Rightarrow> string \<Rightarrow> string option" where
  "libc_getenv [] name = None"
| "libc_getenv (e # es) name =
     (if prefix (name @ ''='') e then Some (drop (length name + 1) e) else libc_getenv es name)"

text \<open>
  \<^verbatim>\<open>our_getenv_\<close> replaces it on 64-bit builds. It takes the first entry that starts with the
  name, and the text after the first equals sign of that entry.
\<close>

fun our_getenv :: "environ \<Rightarrow> string \<Rightarrow> string option" where
  "our_getenv [] name = None"
| "our_getenv (env # envs) name =
     (if strstr env name = Some 0
      then (case strchr env (CHR ''='') of
              Some dataPosition \<Rightarrow> Some (drop (dataPosition + 1) env)
            | None \<Rightarrow> None)
      else our_getenv envs name)"

definition getenv :: "arch \<Rightarrow> environ \<Rightarrow> string \<Rightarrow> string option" where
  "getenv A env name = (case A of ARCH_32 \<Rightarrow> libc_getenv env name | ARCH_64 \<Rightarrow> our_getenv env name)"

definition isElfPerfEnabled :: "arch \<Rightarrow> environ \<Rightarrow> bool" where
  "isElfPerfEnabled A env \<longleftrightarrow>
     getenv A env ELFPERF_ENABLE_VARIABLE \<noteq> None
     \<and> getenv A env ELFPERF_PROFILE_FUNCTION_ENV_VARIABLE \<noteq> None"

section \<open>The list of profiled functions\<close>

text \<open>
  The loop of \<^verbatim>\<open>get_fn_list\<close>: \<open>i\<close> scans, \<open>k\<close> is the start of the current word, and the word ends
  when the \<^emph>\<open>next\<close> byte is a colon or the terminator. \<open>i - k + 1\<close> is computed in unsigned 32-bit
  arithmetic. \<open>result\<close> is the array of words, \<^verbatim>\<open>NULL\<close> for the empty list.
\<close>

function get_fn_list_loop :: "string \<Rightarrow> nat \<Rightarrow> nat \<Rightarrow> string list \<Rightarrow> string list" where
  "get_fn_list_loop env_value i k result =
     (if i < length env_value
      then (let c = cstr_at env_value (i + 1)
            in if c = CHR '':'' \<or> c = CHR 0x00
               then get_fn_list_loop env_value (i + 1) (i + 2)
                      (result @ [strndup (drop k env_value)
                                   (unat (word_of_nat i - word_of_nat k + 1 :: u32))])
               else get_fn_list_loop env_value (i + 1) k result)
      else result)"
  by pat_completeness auto
termination
  by (relation "measure (\<lambda>(v, i, k, r). length v - i)") auto

declare get_fn_list_loop.simps [simp del]

definition get_fn_list :: "arch \<Rightarrow> environ \<Rightarrow> string \<Rightarrow> string list \<times> u32" where
  "get_fn_list A env env_name =
     (case getenv A env env_name of
        None \<Rightarrow> ([], 0)
      | Some env_value \<Rightarrow>
          (let result = get_fn_list_loop env_value 0 0 []
           in (result, word_of_nat (length result))))"

text \<open>The stand-alone parser keeps its counters in signed \<^verbatim>\<open>int\<close>s.\<close>

function fngetter_loop :: "string \<Rightarrow> int \<Rightarrow> int \<Rightarrow> string list \<Rightarrow> string list" where
  "fngetter_loop env_value i k result =
     (if 0 \<le> i \<and> i < int (length env_value)
      then (let c = cstr_at env_value (nat (i + 1))
            in if c = CHR '':'' \<or> c = CHR 0x00
               then fngetter_loop env_value (i + 1) (i + 2)
                      (result @ [strndup (drop (nat k) env_value) (nat (i - k + 1))])
               else fngetter_loop env_value (i + 1) k result)
      else result)"
  by pat_completeness auto
termination
  by (relation "measure (\<lambda>(v, i, k, r). nat (int (length v) - i))") auto

declare fngetter_loop.simps [simp del]

definition fngetter_get_fn_list :: "environ \<Rightarrow> string \<Rightarrow> string list \<times> int" where
  "fngetter_get_fn_list env env_name =
     (case libc_getenv env env_name of
        None \<Rightarrow> ([], 0)
      | Some env_value \<Rightarrow>
          (let result = fngetter_loop env_value 0 0 [] in (result, int (length result))))"

text \<open>\<^verbatim>\<open>isFunctionProfiled\<close> keeps the parsed list in static variables, fetched while it is
  \<^verbatim>\<open>NULL\<close>.\<close>

record profiled_cache =
  pc_count :: u32
  pc_functions :: "string list"

definition empty_profiled_cache :: profiled_cache where
  "empty_profiled_cache = \<lparr>pc_count = 0, pc_functions = []\<rparr>"

definition fetch_profiled :: "arch \<Rightarrow> environ \<Rightarrow> profiled_cache \<Rightarrow> profiled_cache" where
  "fetch_profiled A env st =
     (if pc_functions st = []
      then (let (fs, n) = get_fn_list A env ELFPERF_PROFILE_FUNCTION_ENV_VARIABLE
            in \<lparr>pc_count = n, pc_functions = fs\<rparr>)
      else st)"

definition isFunctionProfiled ::
  "arch \<Rightarrow> environ \<Rightarrow> string \<Rightarrow> profiled_cache \<Rightarrow> bool \<times> profiled_cache" where
  "isFunctionProfiled A env name st =
     (let st' = fetch_profiled A env st
      in (list_ex (\<lambda>f. f = name) (take (unat (pc_count st')) (pc_functions st')), st'))"

section \<open>The reference splitter\<close>

fun split_on :: "char \<Rightarrow> string \<Rightarrow> string list" where
  "split_on c [] = [[]]"
| "split_on c (x # xs) =
     (if x = c then [] # split_on c xs
      else (case split_on c xs of w # ws \<Rightarrow> (x # w) # ws | [] \<Rightarrow> [[x]]))"

fun join_with :: "char \<Rightarrow> string list \<Rightarrow> string" where
  "join_with c [] = []"
| "join_with c [w] = w"
| "join_with c (w # ws) = w @ c # join_with c ws"

text \<open>What the parser computes: the first byte always belongs to the first word, and the rest is
  split at the colons.\<close>

fun fn_words :: "string \<Rightarrow> string list" where
  "fn_words [] = []"
| "fn_words (c # cs) = (c # hd (split_on (CHR '':'') cs)) # tl (split_on (CHR '':'') cs)"

text \<open>A C string the 32-bit counters can index.\<close>

definition c_string :: "string \<Rightarrow> bool" where
  "c_string s \<longleftrightarrow> CHR 0x00 \<notin> set s \<and> length s < 2 ^ 31"

section \<open>Lemmas\<close>

lemma split_on_not_Nil [simp]: "split_on c s \<noteq> []"
  by (induction s) (auto split: list.splits)

lemma split_on_Cons_other:
  "x \<noteq> c \<Longrightarrow> split_on c (x # xs) = (x # hd (split_on c xs)) # tl (split_on c xs)"
  by (cases "split_on c xs") auto

lemma hd_split_on [simp]: "x \<noteq> c \<Longrightarrow> hd (split_on c (x # xs)) = x # hd (split_on c xs)"
  and tl_split_on [simp]: "x \<noteq> c \<Longrightarrow> tl (split_on c (x # xs)) = tl (split_on c xs)"
  by (simp_all add: split_on_Cons_other del: split_on.simps)

lemma split_on_no_sep: "c \<notin> set w \<Longrightarrow> split_on c w = [w]"
  by (induction w) auto

lemma split_on_append_sep: "c \<notin> set w \<Longrightarrow> split_on c (w @ c # s) = w # split_on c s"
  by (induction w) (auto simp: split_on_Cons_other simp del: split_on.simps(2), simp)

lemma split_on_join_with:
  "ws \<noteq> [] \<Longrightarrow> \<forall>w\<in>set ws. c \<notin> set w \<Longrightarrow> split_on c (join_with c ws) = ws"
  by (induction c ws rule: join_with.induct) (auto simp: split_on_no_sep split_on_append_sep)

lemma word_len_u32:
  assumes "k \<le> i + 1" "i < 2 ^ 31"
  shows "unat (word_of_nat i - word_of_nat k + 1 :: u32) = i + 1 - k"
proof -
  have "(word_of_nat i - word_of_nat k + 1 :: u32) = word_of_nat (i + 1 - k)"
    using assms(1) by (simp add: of_nat_diff)
  then show ?thesis using assms by (simp only: unat_of_nat) simp
qed

lemma strndup_word:
  "k \<le> i + 1 \<Longrightarrow> strndup (drop k v) (i + 1 - k) = drop k (take (i + 1) v)"
  by (simp add: strndup_def drop_take)

lemma get_fn_list_loop_spec:
  assumes "c_string v" "i < length v" "k \<le> i + 1"
  shows "get_fn_list_loop v i k acc =
    acc @ (drop k (take (i + 1) v) @ hd (split_on (CHR '':'') (drop (i + 1) v)))
        # tl (split_on (CHR '':'') (drop (i + 1) v))"
  using assms
proof (induction "length v - i" arbitrary: i k acc)
  case (Suc n)
  have len: "unat (word_of_nat i - word_of_nat k + 1 :: u32) = i + 1 - k"
    using Suc.prems by (intro word_len_u32) (auto simp: c_string_def)
  note unfold = get_fn_list_loop.simps [of v i k acc]
  show ?case
  proof (cases "drop (i + 1) v")
    case Nil
    then have "i + 1 = length v" using Suc.prems by simp
    then show ?thesis using len Suc.prems(2,3) strndup_word [of k i v] unfold
      by (simp add: cstr_at_def get_fn_list_loop.simps [of v "length v"])
  next
    case (Cons x xs)
    then have i1: "i + 1 < length v" and x: "x = v ! (i + 1)" and xs: "xs = drop (i + 2) v"
      by (metis drop_eq_Nil linorder_not_le list.distinct(1))
        (metis Cons nth_via_drop, metis Cons add_2_eq_Suc' drop_Suc list.sel(3) Suc_eq_plus1 tl_drop)
    have "x \<in> set v" using i1 x by simp
    then have "x \<noteq> CHR 0x00" using Suc.prems(1) unfolding c_string_def by metis
    moreover have "cstr_at v (i + 1) = x" using i1 x by (simp add: cstr_at_def)
    ultimately have c: "cstr_at v (i + 1) = x" "x \<noteq> CHR 0x00" by blast+
    have n: "n = length v - (i + 1)" using Suc.hyps by simp
    show ?thesis
    proof (cases "x = CHR '':''")
      case True
      then show ?thesis
        using unfold c len strndup_word [of k i v] Suc.prems(2,3) Cons xs
          Suc.hyps(1) [OF n Suc.prems(1) i1, of "i + 2"] by simp
    next
      case False
      have "take (i + 2) v = take (i + 1) v @ [x]"
        using take_Suc_conv_app_nth [OF i1] x by simp
      then have "drop k (take (i + 2) v) = drop k (take (i + 1) v) @ [x]"
        using i1 Suc.prems(3) by simp
      then show ?thesis
        using unfold c False Suc.prems(2,3) Cons xs
          Suc.hyps(1) [OF n Suc.prems(1) i1, of k] by (simp del: split_on.simps)
    qed
  qed
qed simp

lemma get_fn_list_loop_words: "c_string v \<Longrightarrow> get_fn_list_loop v 0 0 [] = fn_words v"
  using get_fn_list_loop_spec [of v 0 0 "[]"]
  by (cases v) (simp_all add: get_fn_list_loop.simps)

lemma get_fn_list_words:
  "getenv A env n = Some v \<Longrightarrow> c_string v \<Longrightarrow>
   get_fn_list A env n = (fn_words v, word_of_nat (length (fn_words v)))"
  by (simp add: get_fn_list_def get_fn_list_loop_words Let_def)

lemma length_split_on: "length (split_on c s) \<le> Suc (length s)"
  by (induction s) (auto split: list.splits)

lemma length_fn_words: "length (fn_words v) \<le> length v"
proof (cases v)
  case (Cons c cs)
  then show ?thesis using length_split_on [of "CHR '':''" cs] by (simp add: le_diff_conv)
qed simp

lemma c_string_count:
  "c_string v \<Longrightarrow> unat (word_of_nat (length (fn_words v)) :: u32) = length (fn_words v)"
  using length_fn_words [of v] by (simp add: c_string_def unat_of_nat)

lemma fn_words_join:
  assumes "ws \<noteq> []" "hd ws \<noteq> []" "\<forall>w\<in>set ws. CHR '':'' \<notin> set w"
  shows "fn_words (join_with (CHR '':'') ws) = ws"
proof -
  obtain c cs ws' where ws: "ws = (c # cs) # ws'"
    using assms(1,2) by (metis list.exhaust_sel)
  have split: "split_on (CHR '':'') (join_with (CHR '':'') (cs # ws')) = cs # ws'"
    using assms(3) ws by (intro split_on_join_with) auto
  have "join_with (CHR '':'') ws = c # join_with (CHR '':'') (cs # ws')"
    by (cases ws') (simp_all add: ws)
  then show ?thesis using split ws by simp
qed

lemma fngetter_loop_eq:
  "c_string v \<Longrightarrow> k \<le> i + 1 \<Longrightarrow>
   fngetter_loop v (int i) (int k) acc = get_fn_list_loop v i k acc"
proof (induction "length v - i" arbitrary: i k acc)
  case 0
  then show ?case by (simp add: get_fn_list_loop.simps [of v i] fngetter_loop.simps [of v "int i"])
next
  case (Suc n)
  have n: "n = length v - Suc i" and i: "i < length v" using Suc.hyps(2) by simp_all
  have len: "unat (word_of_nat i - word_of_nat k + 1 :: u32) = i + 1 - k"
    using Suc.prems i by (intro word_len_u32) (auto simp: c_string_def)
  have "nat (int i - int k + 1) = i + 1 - k" "nat (int i + 1) = i + 1" using Suc.prems by auto
  then show ?case
    using Suc.hyps(1) [OF n Suc.prems(1), of k] Suc.hyps(1) [OF n Suc.prems(1), of "Suc (Suc i)"]
      Suc.prems(2) i len
    by (simp add: get_fn_list_loop.simps [of v i] fngetter_loop.simps [of v "int i"] Let_def
        add.commute)
qed

section \<open>Reading the environment\<close>

text \<open>
  What the profiler relies on: a variable that is set is found, provided no earlier entry starts
  with its name, and a variable whose name starts no entry is not found.
\<close>

locale environment_reader =
  fixes ge :: "environ \<Rightarrow> string \<Rightarrow> string option"
  assumes hit: "\<forall>e\<in>set es. \<not> prefix name e \<Longrightarrow> CHR ''='' \<notin> set name \<Longrightarrow>
      ge (es @ (name @ ''='' @ v) # es') name = Some v"
    and miss: "\<forall>e\<in>set es. \<not> prefix name e \<Longrightarrow> ge es name = None"
begin

lemma reads_both:
  assumes "\<forall>e\<in>set es. \<not> prefix n1 e" "\<forall>e\<in>set es. \<not> prefix n2 e"
    and "CHR ''='' \<notin> set n1" "CHR ''='' \<notin> set n2" "\<not> prefix n2 (n1 @ ''='' @ v1)"
  shows "ge (es @ (n1 @ ''='' @ v1) # (n2 @ ''='' @ v2) # es') n1 = Some v1"
    and "ge (es @ (n1 @ ''='' @ v1) # (n2 @ ''='' @ v2) # es') n2 = Some v2"
  using hit [of es n1 v1] hit [of "es @ [n1 @ ''='' @ v1]" n2 v2 es'] assms by auto

end

lemma libc_getenv_hit:
  "\<forall>e\<in>set es. \<not> prefix name e \<Longrightarrow> libc_getenv (es @ (name @ ''='' @ v) # es') name = Some v"
proof (induction es)
  case (Cons e es)
  then have "\<not> prefix (name @ ''='') e" by (auto dest: append_prefixD)
  with Cons show ?case by simp
qed simp

lemma libc_getenv_miss: "\<forall>e\<in>set es. \<not> prefix name e \<Longrightarrow> libc_getenv es name = None"
  by (induction es) (auto dest: append_prefixD)

lemma our_getenv_hit:
  "\<forall>e\<in>set es. \<not> prefix name e \<Longrightarrow> CHR ''='' \<notin> set name \<Longrightarrow>
   our_getenv (es @ (name @ ''='' @ v) # es') name = Some v"
  by (induction es) (auto simp: cstr_simps)

lemma our_getenv_miss: "\<forall>e\<in>set es. \<not> prefix name e \<Longrightarrow> our_getenv es name = None"
  by (induction es) (auto simp: cstr_simps)

interpretation getenv_arch: environment_reader "getenv A" for A
proof (unfold_locales, goal_cases)
  case (1 es name v es')
  show ?case using libc_getenv_hit [OF 1(1), of v es'] our_getenv_hit [OF 1, of v es']
    unfolding getenv_def by (cases A) (simp_all only: arch.case)
next
  case (2 es name)
  then show ?case
    by (cases A) (simp_all only: getenv_def arch.case libc_getenv_miss our_getenv_miss)
qed

section \<open>Properties\<close>

text \<open>C14. The parser of the function list computes exactly the reference split: the first byte
  of the value always belongs to the first word, every later colon separates two words (empty
  words included), and the reported count is the number of words.\<close>

theorem get_fn_list_exact:
  assumes "getenv A env n = Some v" "c_string v"
  shows "get_fn_list A env n = (fn_words v, word_of_nat (length (fn_words v)))
    \<and> unat (snd (get_fn_list A env n)) = length (fst (get_fn_list A env n))"
  using get_fn_list_words [OF assms] c_string_count [OF assms(2)] by simp

theorem get_fn_list_exact_witness:
  "get_fn_list ARCH_64 [''L=a::b:''] ''L'' = ([''a'', [], ''b'', []], 4)"
  using get_fn_list_exact [of ARCH_64 "[''L=a::b:'']" "''L''" "''a::b:''"]
  by (simp add: getenv_def c_string_def)

text \<open>C19. Round trip: a non-empty list of names without colons, the first one not empty, joined
  with colons and put into the environment, is read back unchanged, with its length as the count.\<close>

theorem get_fn_list_roundtrip:
  assumes "ws \<noteq> []" "hd ws \<noteq> []" "\<forall>w\<in>set ws. CHR '':'' \<notin> set w"
    and "c_string (join_with (CHR '':'') ws)" "\<forall>e\<in>set es. \<not> prefix n e" "CHR ''='' \<notin> set n"
  shows "fst (get_fn_list A (es @ (n @ ''='' @ join_with (CHR '':'') ws) # es') n) = ws
    \<and> unat (snd (get_fn_list A (es @ (n @ ''='' @ join_with (CHR '':'') ws) # es') n)) = length ws"
  using get_fn_list_words [OF getenv_arch.hit [OF assms(5,6)] assms(4)] fn_words_join [OF assms(1-3)] c_string_count [OF assms(4)]
  by simp

theorem get_fn_list_roundtrip_witness:
  "fst (get_fn_list ARCH_32 ([''HOME=/''] @ (''FN'' @ ''='' @ join_with (CHR '':'') [''malloc'', ''free'']) # []) ''FN'')
     = [''malloc'', ''free'']
   \<and> unat (snd (get_fn_list ARCH_32 ([''HOME=/''] @ (''FN'' @ ''='' @ join_with (CHR '':'') [''malloc'', ''free'']) # []) ''FN''))
     = length [''malloc'', ''free'']"
  by (rule get_fn_list_roundtrip) (simp_all add: c_string_def)

text \<open>The answers to a sequence of questions, each with the list that the one before has left.\<close>

fun profiled_answers :: "arch \<Rightarrow> environ \<Rightarrow> string list \<Rightarrow> profiled_cache \<Rightarrow> bool list" where
  "profiled_answers A env [] st = []"
| "profiled_answers A env (name # ns) st =
     (let (r, st') = isFunctionProfiled A env name st in r # profiled_answers A env ns st')"

text \<open>The cached list is empty or the configured one, and stays the configured one.\<close>

definition profiled_ok :: "string \<Rightarrow> profiled_cache \<Rightarrow> bool" where
  "profiled_ok v c \<longleftrightarrow> c = empty_profiled_cache \<or>
     c = \<lparr>pc_count = of_nat (length (fn_words v)), pc_functions = fn_words v\<rparr>"

lemma isFunctionProfiled_cached:
  assumes "getenv A env ELFPERF_PROFILE_FUNCTION_ENV_VARIABLE = Some v" "c_string v" "profiled_ok v c"
  shows "isFunctionProfiled A env name c =
    (name \<in> set (fn_words v), \<lparr>pc_count = of_nat (length (fn_words v)), pc_functions = fn_words v\<rparr>)"
  using get_fn_list_words [OF assms(1,2)] c_string_count [OF assms(2)] assms(3)
  by (auto simp: isFunctionProfiled_def fetch_profiled_def empty_profiled_cache_def profiled_ok_def
      list_ex_iff Let_def)

lemma profiled_answers_words:
  assumes "getenv A env ELFPERF_PROFILE_FUNCTION_ENV_VARIABLE = Some v" "c_string v"
  shows "profiled_ok v c \<Longrightarrow> profiled_answers A env ns c = map (\<lambda>n. n \<in> set (fn_words v)) ns"
  by (induction ns arbitrary: c) (simp_all add: isFunctionProfiled_cached [OF assms] profiled_ok_def)

text \<open>C16. A function is profiled if and only if its name is one of the words of the variable: the answers to
  any sequence of questions, the first of which fetches the list and the others of which use what is cached, are right.\<close>

theorem isFunctionProfiled_correct:
  assumes "getenv A env ELFPERF_PROFILE_FUNCTION_ENV_VARIABLE = Some v" "c_string v"
  shows "profiled_answers A env ns empty_profiled_cache = map (\<lambda>n. n \<in> set (fn_words v)) ns"
  using profiled_answers_words [OF assms] by (simp add: profiled_ok_def)

theorem isFunctionProfiled_correct_witness:
  "profiled_answers ARCH_64 [''ELFPERF_PROFILE_FUNCTION=f:g''] [''g'', ''h'', ''f''] empty_profiled_cache = [True, False, True]"
proof -
  have "getenv ARCH_64 [''ELFPERF_PROFILE_FUNCTION=f:g''] ELFPERF_PROFILE_FUNCTION_ENV_VARIABLE
      = Some ''f:g''" "c_string ''f:g''"
    by (simp_all add: getenv_def c_string_def ELFPERF_PROFILE_FUNCTION_ENV_VARIABLE_def)
  from isFunctionProfiled_correct [OF this, of "[''g'', ''h'', ''f'']"] show ?thesis by simp
qed

text \<open>The stand-alone parser with signed counters returns the same words and the same count
  as the parser of the loader.\<close>

lemma fngetter_equiv:
  assumes "libc_getenv env n = Some v" "c_string v"
  shows "fst (fngetter_get_fn_list env n) = fst (get_fn_list ARCH_32 env n)
    \<and> snd (fngetter_get_fn_list env n) = uint (snd (get_fn_list ARCH_32 env n))"
proof -
  have "getenv ARCH_32 env n = Some v" using assms(1) by (simp add: getenv_def)
  from get_fn_list_words [OF this assms(2)] c_string_count [OF assms(2)]
  show ?thesis using assms fngetter_loop_eq [of v 0 0] get_fn_list_loop_words [of v]
    by (simp add: fngetter_get_fn_list_def Let_def) (metis uint_nat unat_eq_nat_uint)
qed

text \<open>When both variables are set and no earlier entry starts with either name, profiling is
  enabled on both architectures; when one of the names starts no entry, it is disabled.\<close>

lemma isElfPerfEnabled_iff_set:
  assumes "\<forall>e\<in>set es. \<not> prefix ELFPERF_ENABLE_VARIABLE e"
    and "\<forall>e\<in>set es. \<not> prefix ELFPERF_PROFILE_FUNCTION_ENV_VARIABLE e"
  shows "isElfPerfEnabled A (es @ (ELFPERF_ENABLE_VARIABLE @ ''='' @ v1)
           # (ELFPERF_PROFILE_FUNCTION_ENV_VARIABLE @ ''='' @ v2) # es')
    \<and> \<not> isElfPerfEnabled A es"
proof
  have "\<not> prefix ELFPERF_PROFILE_FUNCTION_ENV_VARIABLE (ELFPERF_ENABLE_VARIABLE @ ''='' @ v1)"
    "CHR ''='' \<notin> set ELFPERF_ENABLE_VARIABLE" "CHR ''='' \<notin> set ELFPERF_PROFILE_FUNCTION_ENV_VARIABLE"
    by (simp_all add: ELFPERF_PROFILE_FUNCTION_ENV_VARIABLE_def ELFPERF_ENABLE_VARIABLE_def)
  then show "isElfPerfEnabled A (es @ (ELFPERF_ENABLE_VARIABLE @ ''='' @ v1)
           # (ELFPERF_PROFILE_FUNCTION_ENV_VARIABLE @ ''='' @ v2) # es')"
    using getenv_arch.reads_both [OF assms, of v1 A v2 es'] by (simp add: isElfPerfEnabled_def)
  show "\<not> isElfPerfEnabled A es"
    using getenv_arch.miss [OF assms(1)] by (simp add: isElfPerfEnabled_def)
qed

text \<open>The replacement of \<^verbatim>\<open>getenv\<close> on 64-bit builds reads a longer variable whose name only
  starts with the one asked for, where the C library finds nothing.\<close>

lemma our_getenv_prefix_match:
  assumes "CHR ''='' \<notin> set name" "CHR ''='' \<notin> set sfx" "sfx \<noteq> []"
  shows "our_getenv ((name @ sfx @ ''='' @ v) # es) name = Some v
    \<and> libc_getenv [name @ sfx @ ''='' @ v] name = None"
proof -
  have "strchr (name @ sfx @ ''='' @ v) (CHR ''='') = Some (length (name @ sfx))"
    using strchr_append [of "CHR ''=''" "name @ sfx" v] assms by simp
  moreover have "\<not> prefix ''='' (sfx @ ''='' @ v)" using assms(2,3) by (cases sfx) auto
  ultimately show ?thesis by (simp add: cstr_simps)
qed

end
