(* ===== verification/Shared_Storage.thy ===== *)
theory Shared_Storage
  imports Fn_List
begin

text \<open>
  The data that the loader, \<^verbatim>\<open>libdl.so\<close> and \<^verbatim>\<open>libelfperf.so\<close> share through System V shared
  memory, and the routines of \<^verbatim>\<open>src/libelfperf/ld-routines.h\<close> that create, publish and search
  it: the table of function names and addresses, the pointer to the statistics, and the context
  of the redirectors.
\<close>

section \<open>Data\<close>

record FunctionStatistic =
  totalDiffTime :: u64
  totalCallsNumber :: u64
  realFuncAddr :: u64

record FunctionInfo =
  fi_name :: string
  fi_addr :: u64

record RedirectorContext =
  names :: "string list"
  count :: u32
  redirectors :: u64

text \<open>Addresses of the routines of \<^verbatim>\<open>libelfperf.so\<close>, zero for \<^verbatim>\<open>NULL\<close>.\<close>

record ElfperfFunctions =
  f_wrapper :: u64
  f_initWrapperRedirectors :: u64
  f_addNewFunction :: u64
  f_isFunctionRedirectorRegistered :: u64
  f_isFunctionInFunctionList :: u64
  f_getRedirectorAddressForName :: u64

record ElfperfContext =
  addresses :: ElfperfFunctions
  rcontext :: RedirectorContext
  infos :: u64

text \<open>
  The contents of the three segments and the arrays of \<^verbatim>\<open>struct FunctionInfo\<close> that live in
  memory obtained from \<^verbatim>\<open>mmap\<close>, by their address. \<open>seg_stat\<close> holds the pointer to the array of
  statistics, \<open>seg_info\<close> the pointer to the table of names.
\<close>

record shared_state =
  seg_stat :: u64
  seg_info :: u64
  seg_context :: "ElfperfContext option"
  info_heap :: "u64 \<Rightarrow> FunctionInfo list option"

definition ELFPERF_SHARED_MEMORY_ID_STAT :: nat where
  "ELFPERF_SHARED_MEMORY_ID_STAT = 2190"

definition ELFPERF_SHARED_MEMORY_ID_INFO :: nat where
  "ELFPERF_SHARED_MEMORY_ID_INFO = 2811"

definition ELFPERF_SHARED_MEMORY_ID_REDIRECTOR_CONTEXT :: nat where
  "ELFPERF_SHARED_MEMORY_ID_REDIRECTOR_CONTEXT = 3000"

text \<open>
  The kernel is a parameter: \<open>ipc key create\<close> is the pair of what \<^verbatim>\<open>shmget\<close> returns for the key
  (with or without \<^verbatim>\<open>IPC_CREAT\<close>) and what \<^verbatim>\<open>shmat\<close> returns for that identifier, where -1 is
  the failure of either. Every routine makes the two calls and the two tests in this order.
\<close>

type_synonym ipc = "nat \<Rightarrow> bool \<Rightarrow> int \<times> u64"

definition attach :: "ipc \<Rightarrow> nat \<Rightarrow> bool \<Rightarrow> u64 option" where
  "attach ipc key create =
     (let (shmid, shm) = ipc key create
      in if shmid < 0 then None else if shm = - 1 then None else Some shm)"

section \<open>The table of function names\<close>

text \<open>
  \<^verbatim>\<open>initFunctionInfoStorage\<close>; \<open>mm\<close> is the address that \<^verbatim>\<open>mmap\<close> returns. The result of \<^verbatim>\<open>mmap\<close> is
  not tested, so a failure is an access through \<^verbatim>\<open>MAP_FAILED\<close> as soon as there is a name. Fresh
  pages are zero, so every address field starts as \<^verbatim>\<open>NULL\<close>.
\<close>

definition initFunctionInfoStorage ::
  "arch \<Rightarrow> environ \<Rightarrow> ipc \<Rightarrow> u64 \<Rightarrow> shared_state \<Rightarrow> (u64 \<times> shared_state) result" where
  "initFunctionInfoStorage A env ipc mm st =
     (let (names, count) = get_fn_list A env ELFPERF_PROFILE_FUNCTION_ENV_VARIABLE
      in case attach ipc ELFPERF_SHARED_MEMORY_ID_INFO True of
           None \<Rightarrow> Inr (0, st)
         | Some shm \<Rightarrow>
             if mm = - 1 \<and> count \<noteq> 0 then Inl SegFault
             else Inr (mm, st\<lparr>info_heap := (info_heap st)
                            (mm := Some (map (\<lambda>n. \<lparr>fi_name = n, fi_addr = 0\<rparr>)
                                             (take (unat count) names))),
                          seg_info := mm\<rparr>))"

definition getFunctionInfoStorage :: "ipc \<Rightarrow> shared_state \<Rightarrow> u64" where
  "getFunctionInfoStorage ipc st =
     (case attach ipc ELFPERF_SHARED_MEMORY_ID_INFO True of
        None \<Rightarrow> 0
      | Some shm \<Rightarrow> seg_info st)"

text \<open>
  The two searches return the index of the entry, \<open>None\<close> for \<^verbatim>\<open>NULL\<close>. A null table is tested;
  reading past the end of the table, or through a pointer to no table, is a fault.
\<close>

fun info_loop :: "(FunctionInfo \<Rightarrow> bool) \<Rightarrow> FunctionInfo list \<Rightarrow> nat \<Rightarrow> nat \<Rightarrow> (nat option) result" where
  "info_loop P xs i 0 = Inr None"
| "info_loop P [] i (Suc n) = Inl OutOfBounds"
| "info_loop P (x # xs) i (Suc n) = (if P x then Inr (Some i) else info_loop P xs (Suc i) n)"

definition getInfoByName ::
  "string \<Rightarrow> u64 \<Rightarrow> u32 \<Rightarrow> shared_state \<Rightarrow> (nat option) result" where
  "getInfoByName name storage cnt st =
     (if storage = 0 then Inr None
      else case info_heap st storage of
             None \<Rightarrow> if cnt = 0 then Inr None else Inl SegFault
           | Some tab \<Rightarrow> info_loop (\<lambda>x. fi_name x = name) tab 0 (nat (sint cnt)))"

text \<open>\<^verbatim>\<open>getInfoByAddr\<close> takes the length from the environment: its static flag is never set, so
  the list is parsed on every call.\<close>

definition getInfoByAddr ::
  "arch \<Rightarrow> environ \<Rightarrow> u64 \<Rightarrow> u64 \<Rightarrow> shared_state \<Rightarrow> (nat option) result" where
  "getInfoByAddr A env addr storage st =
     (if storage = 0 then Inr None
      else let (ns, cnt) = get_fn_list A env ELFPERF_PROFILE_FUNCTION_ENV_VARIABLE
           in case info_heap st storage of
                None \<Rightarrow> if cnt = 0 then Inr None else Inl SegFault
              | Some tab \<Rightarrow> info_loop (\<lambda>x. fi_addr x = addr) tab 0 (unat cnt))"

text \<open>The assignment \<^verbatim>\<open>tmp->addr = value\<close> that the callers make on the entry found by name.\<close>

definition setInfoAddr :: "u64 \<Rightarrow> nat \<Rightarrow> u64 \<Rightarrow> shared_state \<Rightarrow> shared_state" where
  "setInfoAddr storage i value st =
     (case info_heap st storage of
        None \<Rightarrow> st
      | Some tab \<Rightarrow> st\<lparr>info_heap := (info_heap st)(storage := Some (tab[i := (tab ! i)\<lparr>fi_addr := value\<rparr>]))\<rparr>)"

section \<open>The statistics pointer and the redirector context\<close>

text \<open>The two routines return the address of the attached segment, \<open>None\<close> for \<^verbatim>\<open>NULL\<close>.\<close>

definition initFunctionStatisticsStorage :: "ipc \<Rightarrow> shared_state \<Rightarrow> u64 option \<times> shared_state" where
  "initFunctionStatisticsStorage ipc st =
     (case attach ipc ELFPERF_SHARED_MEMORY_ID_STAT True of
        None \<Rightarrow> (None, st)
      | Some shm \<Rightarrow> (Some shm, st\<lparr>seg_stat := 0\<rparr>))"

definition getFunctionStatisticsStorage :: "ipc \<Rightarrow> u64 option" where
  "getFunctionStatisticsStorage ipc = attach ipc ELFPERF_SHARED_MEMORY_ID_STAT False"

definition initElfperfContextStorage ::
  "ipc \<Rightarrow> ElfperfContext \<Rightarrow> shared_state \<Rightarrow> bool \<times> shared_state" where
  "initElfperfContextStorage ipc context st =
     (case attach ipc ELFPERF_SHARED_MEMORY_ID_REDIRECTOR_CONTEXT True of
        None \<Rightarrow> (False, st)
      | Some shm \<Rightarrow> (True, st\<lparr>seg_context := Some context\<rparr>))"

definition getElfperfContextStorage :: "ipc \<Rightarrow> shared_state \<Rightarrow> ElfperfContext option" where
  "getElfperfContextStorage ipc st =
     (case attach ipc ELFPERF_SHARED_MEMORY_ID_REDIRECTOR_CONTEXT False of
        None \<Rightarrow> None
      | Some shm \<Rightarrow> seg_context st)"

section \<open>The table as an interface\<close>

text \<open>
  What the loader, \<^verbatim>\<open>libdl.so\<close> and the report rely on: a name is found at its first entry, an
  address likewise, and setting the address of one entry changes that entry only.
\<close>

locale function_table =
  fixes tab :: "'s \<Rightarrow> FunctionInfo list"
    and by_name :: "string \<Rightarrow> 's \<Rightarrow> (nat option) result"
    and by_addr :: "u64 \<Rightarrow> 's \<Rightarrow> (nat option) result"
    and set_addr :: "nat \<Rightarrow> u64 \<Rightarrow> 's \<Rightarrow> 's"
    and ok :: "'s \<Rightarrow> bool"
  assumes by_name_first: "ok s \<Longrightarrow> by_name n s = Inr (first_index (\<lambda>x. fi_name x = n) (tab s))"
    and by_addr_first: "ok s \<Longrightarrow> by_addr a s = Inr (first_index (\<lambda>x. fi_addr x = a) (tab s))"
    and tab_set: "ok s \<Longrightarrow> i < length (tab s) \<Longrightarrow>
      tab (set_addr i v s) = (tab s)[i := (tab s ! i)\<lparr>fi_addr := v\<rparr>]"
    and ok_set: "ok s \<Longrightarrow> i < length (tab s) \<Longrightarrow> ok (set_addr i v s)"
begin

lemma by_name_SomeD:
  assumes "ok s" "by_name n s = Inr (Some i)"
  shows "i < length (tab s)" "fi_name (tab s ! i) = n"
  using assms by (auto simp: by_name_first first_index_Some_iff)

lemma by_name_finds: "ok s \<Longrightarrow> n \<in> fi_name ` set (tab s) \<Longrightarrow> \<exists>i. by_name n s = Inr (Some i)"
  using first_index_None_iff [of "\<lambda>x. fi_name x = n" "tab s"] by (auto simp: by_name_first)

text \<open>Registering a fresh address for a name makes that address lead back to the name.\<close>

lemma registered_addr_finds_name:
  assumes "ok s" "by_name n s = Inr (Some i)" "\<forall>x\<in>set (tab s). fi_addr x \<noteq> v"
  shows "by_addr v (set_addr i v s) = Inr (Some i)"
    and "fi_name (tab (set_addr i v s) ! i) = n"
proof -
  note i = by_name_SomeD [OF assms(1,2)]
  note t = tab_set [OF assms(1) i(1), of v]
  have "first_index (\<lambda>x. fi_addr x = v) (tab (set_addr i v s)) = Some i"
    unfolding first_index_Some_iff t using i(1) assms(3) by (auto simp: nth_list_update)
  then show "by_addr v (set_addr i v s) = Inr (Some i)"
    by (simp add: by_addr_first ok_set [OF assms(1) i(1)])
  show "fi_name (tab (set_addr i v s) ! i) = n" using t i by simp
qed

text \<open>Setting one entry keeps every name where it was.\<close>

lemma by_name_set: "ok s \<Longrightarrow> i < length (tab s) \<Longrightarrow> by_name n (set_addr i v s) = by_name n s"
proof -
  assume a: "ok s" "i < length (tab s)"
  have "map fi_name (tab (set_addr i v s)) = map fi_name (tab s)"
    unfolding tab_set [OF a] using a(2) by (auto simp: map_update intro!: list_update_same_conv [THEN iffD2])
  moreover have "first_index (\<lambda>x. fi_name x = n) xs = first_index (\<lambda>x. x = n) (map fi_name xs)" for xs
    by (simp add: first_index_cong_map comp_def)
  ultimately show ?thesis using a by (metis by_name_first ok_set)
qed

end

lemma info_loop_first:
  "n \<le> length xs \<Longrightarrow> info_loop P xs i n = Inr (map_option ((+) i) (first_index P (take n xs)))"
proof (induction P xs i n rule: info_loop.induct)
  case (3 P x xs i n)
  then show ?case by (simp add: option.map_comp comp_def)
qed simp_all

lemma info_loop_zero:
  "n \<le> length xs \<Longrightarrow> info_loop P xs 0 n = Inr (first_index P (take n xs))"
  by (cases "first_index P (take n xs)") (simp_all add: info_loop_first)

text \<open>A published table: the pointer is not null and the table has the length that the
  environment announces, which a signed counter can hold.\<close>

definition table_ok :: "arch \<Rightarrow> environ \<Rightarrow> u64 \<Rightarrow> u32 \<Rightarrow> shared_state \<Rightarrow> bool" where
  "table_ok A env mm cnt st \<longleftrightarrow>
     mm \<noteq> 0 \<and> snd (get_fn_list A env ELFPERF_PROFILE_FUNCTION_ENV_VARIABLE) = cnt
     \<and> unat cnt < 2 ^ 31 \<and> (\<exists>t. info_heap st mm = Some t \<and> length t = unat cnt)"

lemma sint_small: "unat (c :: u32) < 2 ^ 31 \<Longrightarrow> nat (sint c) = unat c"
proof -
  assume "unat c < 2 ^ 31"
  then have b: "uint c < 2 ^ 31" by (simp only: uint_nat of_nat_less_numeral_power_cancel_iff)
  have "signed_take_bit 31 (uint c) = uint c"
    by (rule signed_take_bit_int_eq_self) (use b uint_nonnegative [of c] in linarith, rule b)
  then have "sint c = uint c" unfolding sint_uint by simp
  then show ?thesis by (simp only: uint_nat nat_int)
qed

interpretation shm_table: function_table
  "\<lambda>s. the (info_heap s mm)" "\<lambda>n s. getInfoByName n mm cnt s" "\<lambda>a s. getInfoByAddr A env a mm s"
  "setInfoAddr mm" "table_ok A env mm cnt" for A env mm cnt
proof (unfold_locales, goal_cases)
  case (1 s n)
  then show ?case by (auto simp: table_ok_def getInfoByName_def info_loop_zero sint_small)
next
  case (2 s a)
  then show ?case
    by (auto simp: table_ok_def getInfoByAddr_def info_loop_zero split: prod.splits)
qed (auto simp: table_ok_def setInfoAddr_def)

section \<open>Properties\<close>

lemma initFunctionInfoStorage_ok:
  assumes "getenv A env ELFPERF_PROFILE_FUNCTION_ENV_VARIABLE = Some v" "c_string v"
    and "attach ipc ELFPERF_SHARED_MEMORY_ID_INFO True = Some shm" "mm \<noteq> - 1"
  shows "initFunctionInfoStorage A env ipc mm st =
    Inr (mm, st\<lparr>info_heap := (info_heap st)(mm := Some (map (\<lambda>n. \<lparr>fi_name = n, fi_addr = 0\<rparr>) (fn_words v))),
                 seg_info := mm\<rparr>)"
  using assms(3,4) get_fn_list_words [OF assms(1,2)] c_string_count [OF assms(2)]
  by (simp add: initFunctionInfoStorage_def)

lemma table_ok_init:
  assumes "getenv A env ELFPERF_PROFILE_FUNCTION_ENV_VARIABLE = Some v" "c_string v" "mm \<noteq> 0"
    and "info_heap st mm = Some t" "length t = length (fn_words v)"
  shows "table_ok A env mm (word_of_nat (length (fn_words v))) st"
proof -
  have "length (fn_words v) < 2 ^ 31"
    using length_fn_words [of v] assms(2) by (simp add: c_string_def)
  then show ?thesis using get_fn_list_words [OF assms(1,2)] c_string_count [OF assms(2)] assms(3-5)
    by (simp add: table_ok_def)
qed

text \<open>C17. The table of names: once the storage is created, the published pointer is the one the
  loader reads back, every configured name is found in it, and after the loader has recorded the
  address of that function the report finds the name again from the address.\<close>

theorem info_table_registration:
  assumes "getenv A env ELFPERF_PROFILE_FUNCTION_ENV_VARIABLE = Some v" "c_string v"
    and "attach ipc ELFPERF_SHARED_MEMORY_ID_INFO True = Some shm" "mm \<noteq> - 1" "mm \<noteq> 0"
    and "name \<in> set (fn_words v)" "fa \<noteq> 0"
  shows "\<exists>st' i. initFunctionInfoStorage A env ipc mm st = Inr (mm, st')
    \<and> getFunctionInfoStorage ipc st' = mm
    \<and> getInfoByName name mm (word_of_nat (length (fn_words v))) st' = Inr (Some i)
    \<and> getInfoByAddr A env fa mm (setInfoAddr mm i fa st') = Inr (Some i)
    \<and> fi_name (the (info_heap (setInfoAddr mm i fa st') mm) ! i) = name"
proof -
  define t where "t = map (\<lambda>n. \<lparr>fi_name = n, fi_addr = 0 :: u64\<rparr>) (fn_words v)"
  define st' where "st' = st\<lparr>info_heap := (info_heap st)(mm := Some t), seg_info := mm\<rparr>"
  let ?cnt = "word_of_nat (length (fn_words v)) :: u32"
  have heap: "info_heap st' mm = Some t" and init: "initFunctionInfoStorage A env ipc mm st = Inr (mm, st')"
    using initFunctionInfoStorage_ok [OF assms(1-4)] by (simp_all add: st'_def t_def)
  have ok: "table_ok A env mm ?cnt st'"
    using table_ok_init [OF assms(1,2,5) heap] by (simp add: t_def)
  have "name \<in> fi_name ` set t" using assms(6) by (auto simp: t_def image_image)
  then obtain i where i: "getInfoByName name mm ?cnt st' = Inr (Some i)"
    using shm_table.by_name_finds [OF ok] heap by auto
  have "\<forall>x\<in>set t. fi_addr x \<noteq> fa" using assms(7) by (auto simp: t_def)
  with shm_table.registered_addr_finds_name [OF ok i] heap init i assms(3) show ?thesis
    by (intro exI [of _ st'] exI [of _ i]) (simp add: getFunctionInfoStorage_def st'_def)
qed

theorem info_table_registration_witness:
  "\<exists>st' i. initFunctionInfoStorage ARCH_64 [''ELFPERF_PROFILE_FUNCTION=f:g''] (\<lambda>k c. (1, 4096)) 8192
       \<lparr>seg_stat = 0, seg_info = 0, seg_context = None, info_heap = (\<lambda>_. None)\<rparr> = Inr (8192, st')
    \<and> getInfoByAddr ARCH_64 [''ELFPERF_PROFILE_FUNCTION=f:g''] 99 8192 (setInfoAddr 8192 i 99 st') = Inr (Some i)
    \<and> fi_name (the (info_heap (setInfoAddr 8192 i 99 st') 8192) ! i) = ''g''"
proof -
  have "getenv ARCH_64 [''ELFPERF_PROFILE_FUNCTION=f:g''] ELFPERF_PROFILE_FUNCTION_ENV_VARIABLE
      = Some ''f:g''" "c_string ''f:g''"
    "attach (\<lambda>k c. (1, 4096)) ELFPERF_SHARED_MEMORY_ID_INFO True = Some 4096"
    "(8192 :: u64) \<noteq> - 1" "(8192 :: u64) \<noteq> 0" "''g'' \<in> set (fn_words ''f:g'')" "(99 :: u64) \<noteq> 0"
    by (simp_all add: getenv_def c_string_def ELFPERF_PROFILE_FUNCTION_ENV_VARIABLE_def attach_def)
  from info_table_registration [OF this] show ?thesis by blast
qed

text \<open>Failures while the table is created: when the segment cannot be created or attached the
  routine returns \<^verbatim>\<open>NULL\<close> and nothing is published; when \<^verbatim>\<open>mmap\<close> fails the untested result is
  written through as soon as one name is configured.\<close>

lemma initFunctionInfoStorage_errors:
  assumes "getenv A env ELFPERF_PROFILE_FUNCTION_ENV_VARIABLE = Some v" "c_string v" "v \<noteq> []"
  shows "initFunctionInfoStorage A env ipc (- 1) st =
    (case attach ipc ELFPERF_SHARED_MEMORY_ID_INFO True of None \<Rightarrow> Inr (0, st) | Some shm \<Rightarrow> Inl SegFault)"
proof -
  have "(word_of_nat (length (fn_words v)) :: u32) \<noteq> 0"
    using c_string_count [OF assms(2)] assms(3) by (cases v) (auto simp flip: unat_eq_zero)
  then show ?thesis using get_fn_list_words [OF assms(1,2)]
    by (simp add: initFunctionInfoStorage_def split: option.splits)
qed

text \<open>The context of the redirectors that the loader publishes is the one \<^verbatim>\<open>libdl.so\<close> reads,
  and when the segment is not available the routine reports failure and publishes nothing.\<close>

lemma elfperf_context:
  "(case attach ipc ELFPERF_SHARED_MEMORY_ID_REDIRECTOR_CONTEXT True of
      None \<Rightarrow> initElfperfContextStorage ipc c st = (False, st)
    | Some shm \<Rightarrow> fst (initElfperfContextStorage ipc c st)
        \<and> getElfperfContextStorage ipc (snd (initElfperfContextStorage ipc c st)) =
           (if attach ipc ELFPERF_SHARED_MEMORY_ID_REDIRECTOR_CONTEXT False = None then None else Some c))"
  by (auto simp: initElfperfContextStorage_def getElfperfContextStorage_def split: option.splits)

end
