(* ===== verification/Redirector.thy ===== *)
theory Redirector
  imports Shared_Storage
begin

text \<open>
  The table of redirectors (\<^verbatim>\<open>src/libelfperf/libelfperf.c\<close>): one slot of executable bytes per
  profiled function. A slot pushes the address of the function and jumps to the wrapper; its first
  four bytes are zero until it is written. Memory is byte-addressed; both architectures are
  modelled, a 32-bit pointer being the low half of a 64-bit word.
\<close>

section \<open>Slots and addresses\<close>

fun REDIRECTOR_SIZE :: "arch \<Rightarrow> u32" where
  "REDIRECTOR_SIZE ARCH_32 = 16"
| "REDIRECTOR_SIZE ARCH_64 = 24"

text \<open>The value of a pointer computed in 64-bit arithmetic and cast back to \<^verbatim>\<open>void *\<close>.\<close>

fun to_ptr :: "arch \<Rightarrow> u64 \<Rightarrow> u64" where
  "to_ptr ARCH_32 a = ucast (ucast a :: u32)"
| "to_ptr ARCH_64 a = a"

text \<open>\<^verbatim>\<open>getFunctionIndex\<close>: the first equal name among the \<open>count\<close> names, else \<open>count + 1\<close>.\<close>

fun index_loop :: "string \<Rightarrow> string list \<Rightarrow> u32 \<Rightarrow> u32 option" where
  "index_loop name [] i = None"
| "index_loop name (n # ns) i = (if name = n then Some i else index_loop name ns (i + 1))"

definition getFunctionIndex :: "string \<Rightarrow> RedirectorContext \<Rightarrow> u32" where
  "getFunctionIndex name context =
     (case index_loop name (take (unat (count context)) (names context)) 0 of
        Some i \<Rightarrow> i
      | None \<Rightarrow> count context + 1)"

definition isFunctionInFunctionList :: "string \<Rightarrow> RedirectorContext \<Rightarrow> bool" where
  "isFunctionInFunctionList name context \<longleftrightarrow> getFunctionIndex name context \<noteq> count context + 1"

text \<open>The product of the slot size and the index is a 32-bit one.\<close>

definition getRedirectorAddressForName :: "arch \<Rightarrow> string \<Rightarrow> RedirectorContext \<Rightarrow> u64" where
  "getRedirectorAddressForName A name context =
     to_ptr A (redirectors context + ucast (REDIRECTOR_SIZE A * getFunctionIndex name context))"

definition isFunctionRedirectorRegistered ::
  "arch \<Rightarrow> memory \<Rightarrow> string \<Rightarrow> RedirectorContext \<Rightarrow> bool" where
  "isFunctionRedirectorRegistered A m name context \<longleftrightarrow>
     of_le (load m (getRedirectorAddressForName A name context) 4) \<noteq> 0"

section \<open>Writing a redirector\<close>

text \<open>The assignments of the two \<^verbatim>\<open>writeRedirectionCode\<close>, in their order; \<open>wrapper\<close> is the address
  of the wrapper.\<close>

definition writeRedirectionCode32 :: "u64 \<Rightarrow> memory \<Rightarrow> u64 \<Rightarrow> u64 \<Rightarrow> memory" where
  "writeRedirectionCode32 wrapper m redirector fcnPtr =
     (let m = store m redirector [0x68];
          m = store m (redirector + 1) (le_bytes 4 (ucast fcnPtr :: u32));
          m = store m (redirector + 5) [0xe9]
      in store m (redirector + 6)
           (le_bytes 4 ((ucast wrapper :: u32) - ucast (redirector + 10))))"

definition writeRedirectionCode64 :: "u64 \<Rightarrow> memory \<Rightarrow> u64 \<Rightarrow> u64 \<Rightarrow> memory" where
  "writeRedirectionCode64 wrapper m redirector fcnPtr =
     (let m = store m redirector [0x50];
          m = store m (redirector + 1) [0x48];
          m = store m (redirector + 2) [0xb8];
          m = store m (redirector + 3) (le_bytes 8 fcnPtr);
          m = store m (redirector + 11) [0x50];
          m = store m (redirector + 12) [0x48];
          m = store m (redirector + 13) [0xb8];
          m = store m (redirector + 14) (le_bytes 8 wrapper);
          m = store m (redirector + 22) [0xff]
      in store m (redirector + 23) [0xe0])"

definition writeRedirectionCode :: "arch \<Rightarrow> u64 \<Rightarrow> memory \<Rightarrow> u64 \<Rightarrow> u64 \<Rightarrow> memory" where
  "writeRedirectionCode A wrapper m redirector fcnPtr =
     (case A of ARCH_32 \<Rightarrow> writeRedirectionCode32 wrapper m redirector fcnPtr
              | ARCH_64 \<Rightarrow> writeRedirectionCode64 wrapper m redirector fcnPtr)"

definition addNewFunction ::
  "arch \<Rightarrow> u64 \<Rightarrow> memory \<Rightarrow> string \<Rightarrow> u64 \<Rightarrow> RedirectorContext \<Rightarrow> memory" where
  "addNewFunction A wrapper m name functionAddr context =
     writeRedirectionCode A wrapper m (getRedirectorAddressForName A name context) functionAddr"

section \<open>Initialisation\<close>

text \<open>
  The kernel's answers are parameters: \<open>ps\<close> is \<^verbatim>\<open>getpagesize()\<close>, \<open>area\<close> the address \<^verbatim>\<open>mmap\<close>
  returns for the slots, \<open>mprotect\<close> the return code for a page. The pages for which it succeeds
  are recorded in \<open>rwx\<close>.
\<close>

record vm =
  vm_mem :: memory
  rwx :: "u64 list"

fun mprotect_loop :: "(u64 \<Rightarrow> int) \<Rightarrow> u64 list \<Rightarrow> vm \<Rightarrow> bool \<times> vm" where
  "mprotect_loop mprotect [] v = (True, v)"
| "mprotect_loop mprotect (p # ps) v =
     (if mprotect p \<noteq> 0 then (False, v)
      else mprotect_loop mprotect ps (v\<lparr>rwx := rwx v @ [p]\<rparr>))"

function zero_loop :: "arch \<Rightarrow> u64 \<Rightarrow> nat \<Rightarrow> nat \<Rightarrow> memory \<Rightarrow> memory" where
  "zero_loop A base i limit m =
     (if i < limit
      then zero_loop A base (i + unat (REDIRECTOR_SIZE A)) limit
             (store m (to_ptr A (base + word_of_nat i)) (replicate 4 0))
      else m)"
  by pat_completeness auto
termination
proof (relation "measure (\<lambda>(A, base, i, limit, m). limit - i)", goal_cases)
  case (2 A base i limit m)
  then show ?case by (cases A) auto
qed simp

declare zero_loop.simps [simp del]

definition alloc_size :: "arch \<Rightarrow> u32 \<Rightarrow> u32 \<Rightarrow> u64" where
  "alloc_size A ps cnt = ucast (REDIRECTOR_SIZE A * cnt + ps - 1)"

definition align_up :: "arch \<Rightarrow> u32 \<Rightarrow> u64 \<Rightarrow> u64" where
  "align_up A ps a = to_ptr A ((a + scast ps - 1) AND scast (NOT (ps - 1)))"

definition initWrapperRedirectors ::
  "arch \<Rightarrow> environ \<Rightarrow> ipc \<Rightarrow> u64 \<Rightarrow> u32 \<Rightarrow> u64 \<Rightarrow> (u64 \<Rightarrow> int) \<Rightarrow>
   RedirectorContext \<Rightarrow> shared_state \<Rightarrow> vm \<Rightarrow> (RedirectorContext \<times> shared_state \<times> vm) result" where
  "initWrapperRedirectors A env ipc info_area ps area mprotect context st v =
     bind_result (initFunctionInfoStorage A env ipc info_area st) (\<lambda>(r, st).
       let allocSize = alloc_size A ps (count context);
           context = context\<lparr>redirectors := align_up A ps area\<rparr>;
           pagesNum = unat (allocSize div ucast ps);
           pages = map (\<lambda>i. to_ptr A (redirectors context + ucast ps * word_of_nat i)) [0..<pagesNum]
       in case mprotect_loop mprotect pages v of
            (False, v) \<Rightarrow> Inr (context, st, v)
          | (True, v) \<Rightarrow>
              Inr (context, st,
                   v\<lparr>vm_mem := zero_loop A (redirectors context) 0
                                 (unat (REDIRECTOR_SIZE A * count context)) (vm_mem v)\<rparr>))"

section \<open>What a redirector does when it is executed\<close>

text \<open>
  The instructions a redirector consists of, decoded from the bytes in memory: on x86
  \<open>68 imm32\<close> pushes, \<open>e9 rel32\<close> jumps relative to the next instruction; on x86-64 \<open>50\<close> pushes
  \<^verbatim>\<open>%rax\<close>, \<open>48 b8 imm64\<close> loads it, \<open>ff e0\<close> jumps to it. Anything else is not decoded.
\<close>

record rcpu =
  ip :: u64
  ax :: u64
  stk :: "u64 list"

definition rstep32 :: "memory \<Rightarrow> rcpu \<Rightarrow> rcpu option" where
  "rstep32 m c =
     (let op = m (ip c); imm = word_of_nat (of_le (load m (ip c + 1) 4)) :: u32
      in if op = 0x68 then Some (c\<lparr>ip := to_ptr ARCH_32 (ip c + 5), stk := ucast imm # stk c\<rparr>)
         else if op = 0xe9 then Some (c\<lparr>ip := ucast ((ucast (ip c) :: u32) + 5 + imm)\<rparr>)
         else None)"

definition rstep64 :: "memory \<Rightarrow> rcpu \<Rightarrow> rcpu option" where
  "rstep64 m c =
     (let op = m (ip c); op2 = m (ip c + 1); imm = word_of_nat (of_le (load m (ip c + 2) 8)) :: u64
      in if op = 0x50 then Some (c\<lparr>ip := ip c + 1, stk := ax c # stk c\<rparr>)
         else if op = 0x48 \<and> op2 = 0xb8 then Some (c\<lparr>ip := ip c + 10, ax := imm\<rparr>)
         else if op = 0xff \<and> op2 = 0xe0 then Some (c\<lparr>ip := ax c\<rparr>)
         else None)"

fun rrun :: "arch \<Rightarrow> memory \<Rightarrow> nat \<Rightarrow> rcpu \<Rightarrow> rcpu option" where
  "rrun A m 0 c = Some c"
| "rrun A m (Suc n) c =
     (case (case A of ARCH_32 \<Rightarrow> rstep32 m c | ARCH_64 \<Rightarrow> rstep64 m c) of
        None \<Rightarrow> None
      | Some c' \<Rightarrow> rrun A m n c')"

section \<open>Lemmas\<close>

lemma store_seq:
  assumes "b = a + of_nat (length xs)" "length xs + length ys \<le> 2 ^ 64"
  shows "store (store m a xs) b ys = store m a (xs @ ys)"
proof
  fix x
  define d where "d = x - a"
  have n: "unat (of_nat (length xs) :: u64) = length xs \<or> length ys = 0"
    using assms(2) by (cases "length ys") (auto intro!: unat_of_nat_u64)
  have e: "x - a = d" "x - b = d - of_nat (length xs)" using assms(1) by (simp_all add: d_def)
  have "unat (d - of_nat (length xs)) =
      (if length xs \<le> unat d then unat d - length xs else unat d + 2 ^ 64 - length xs)"
    if "length ys \<noteq> 0"
    using n that by (simp add: unat_sub_if_size word_size)
  moreover have "unat d < 2 ^ 64" using unat_bound(1) [of d] by simp
  ultimately show "store (store m a xs) b ys x = store m a (xs @ ys) x"
    using assms(2) unfolding store_def e by (cases "ys = []") (auto simp: nth_append)
qed

definition redirector_code :: "arch \<Rightarrow> u64 \<Rightarrow> u64 \<Rightarrow> u64 \<Rightarrow> byte list" where
  "redirector_code A wrapper r f =
     (case A of
        ARCH_32 \<Rightarrow> [0x68] @ le_bytes 4 (ucast f :: u32) @ [0xe9]
                     @ le_bytes 4 ((ucast wrapper :: u32) - ucast (r + 10))
      | ARCH_64 \<Rightarrow> [0x50, 0x48, 0xb8] @ le_bytes 8 f @ [0x50, 0x48, 0xb8] @ le_bytes 8 wrapper
                     @ [0xff, 0xe0])"

lemma writeRedirectionCode_eq:
  "writeRedirectionCode A wrapper m r f = store m r (redirector_code A wrapper r f)"
  by (cases A)
    (simp_all add: writeRedirectionCode_def writeRedirectionCode32_def writeRedirectionCode64_def
      redirector_code_def Let_def store_seq)

lemma length_redirector_code:
  "length (redirector_code A wrapper r f) = (case A of ARCH_32 \<Rightarrow> 10 | ARCH_64 \<Rightarrow> 24)"
  by (simp add: redirector_code_def split: arch.split)

lemma redirector_code_le: "length (redirector_code A wrapper r f) \<le> unat (REDIRECTOR_SIZE A)"
  by (cases A) (simp_all add: length_redirector_code)

fun address_limit :: "arch \<Rightarrow> nat" where
  "address_limit ARCH_32 = 2 ^ 32"
| "address_limit ARCH_64 = 2 ^ 63"

lemma to_ptr_id: "unat a < address_limit A \<Longrightarrow> to_ptr A a = a"
proof (cases A)
  case ARCH_32
  assume "unat a < address_limit A"
  then have "unat (ucast (ucast a :: u32) :: u64) = unat a"
    using ARCH_32 by (simp add: unsigned_ucast_eq unsigned_take_bit_eq take_bit_nat_eq_self)
  then show ?thesis using ARCH_32 by (simp only: to_ptr.simps word_unat_eq_iff)
qed simp

lemma unat_offset: "unat (b :: u64) + p < 2 ^ 64 \<Longrightarrow> unat (b + of_nat p) = unat b + p"
  by (simp add: unat_plus_if' unat_of_nat_u64)

lemma to_ptr_offset: "unat b + p < address_limit A \<Longrightarrow> to_ptr A (b + of_nat p) = b + of_nat p"
  by (rule to_ptr_id) (cases A; simp add: unat_offset)

text \<open>A context as the loader builds it: as many names as counted, and an area that lies in the
  address space together with the slot after the last one.\<close>

definition ctx_ok :: "arch \<Rightarrow> RedirectorContext \<Rightarrow> bool" where
  "ctx_ok A c \<longleftrightarrow>
     length (names c) = unat (count c)
     \<and> unat (REDIRECTOR_SIZE A) * (length (names c) + 2) < 2 ^ 32
     \<and> unat (redirectors c) + unat (REDIRECTOR_SIZE A) * (length (names c) + 2) \<le> address_limit A"

lemma index_loop_first:
  "index_loop name ns i = map_option (\<lambda>j. i + of_nat j) (first_index (\<lambda>n. n = name) ns)"
  by (induction name ns i rule: index_loop.induct)
    (auto simp: option.map_comp comp_def algebra_simps)

definition slot_index :: "string \<Rightarrow> RedirectorContext \<Rightarrow> nat" where
  "slot_index name c =
     (case first_index (\<lambda>n. n = name) (names c) of Some i \<Rightarrow> i | None \<Rightarrow> length (names c) + 1)"

lemma slot_index_listed: "name \<in> set (names c) \<Longrightarrow> slot_index name c < length (names c)"
  using first_index_None_iff [of "\<lambda>n. n = name" "names c"]
  by (auto simp: slot_index_def first_index_Some_iff split: option.splits)

lemma slot_index_unlisted: "name \<notin> set (names c) \<Longrightarrow> slot_index name c = length (names c) + 1"
  using first_index_None_iff [of "\<lambda>n. n = name" "names c"]
  by (auto simp: slot_index_def split: option.splits)

lemma slot_index_bound: "slot_index name c \<le> length (names c) + 1"
  by (cases "name \<in> set (names c)") (auto simp: slot_index_unlisted dest: slot_index_listed)

lemma slot_index_inj:
  assumes "n \<in> set (names c)" "n' \<in> set (names c)" "slot_index n c = slot_index n' c"
  shows "n = n'"
  using assms first_index_None_iff [of "\<lambda>x. x = n" "names c"] first_index_None_iff [of "\<lambda>x. x = n'" "names c"]
  by (auto simp: slot_index_def first_index_Some_iff split: option.splits)

lemma getFunctionIndex_eq:
  assumes "length (names c) = unat (count c)"
  shows "getFunctionIndex name c = word_of_nat (slot_index name c)"
proof -
  have "count c + 1 = word_of_nat (length (names c) + 1)" using assms by simp
  then show ?thesis using assms
    by (auto simp: getFunctionIndex_def index_loop_first slot_index_def split: option.splits)
qed

lemma getFunctionIndex_unat: "ctx_ok A c \<Longrightarrow> unat (getFunctionIndex name c) = slot_index name c"
proof -
  assume ok: "ctx_ok A c"
  then have "slot_index name c < 2 ^ 32"
    using slot_index_bound [of name c] by (cases A) (auto simp: ctx_ok_def)
  then show ?thesis using ok by (simp add: ctx_ok_def getFunctionIndex_eq unat_of_nat)
qed

lemma isFunctionInFunctionList_listed:
  assumes "ctx_ok A c"
  shows "isFunctionInFunctionList name c \<longleftrightarrow> name \<in> set (names c)"
proof -
  have "length (names c) + 1 < 2 ^ 32" using assms by (cases A) (auto simp: ctx_ok_def)
  then have "unat (count c + 1) = length (names c) + 1"
    using assms by (simp add: ctx_ok_def unat_plus_if')
  then have "isFunctionInFunctionList name c \<longleftrightarrow> slot_index name c \<noteq> length (names c) + 1"
    using getFunctionIndex_unat [OF assms, of name]
    by (metis isFunctionInFunctionList_def word_unat_eq_iff)
  then show ?thesis using slot_index_listed [of name c] slot_index_unlisted [of name c] by fastforce
qed

lemma slot_addr:
  assumes "ctx_ok A c"
  shows "getRedirectorAddressForName A name c
    = redirectors c + of_nat (unat (REDIRECTOR_SIZE A) * slot_index name c)"
proof -
  let ?p = "unat (REDIRECTOR_SIZE A) * slot_index name c"
  have "?p \<le> unat (REDIRECTOR_SIZE A) * (length (names c) + 1)"
    using slot_index_bound by (rule mult_le_mono2)
  moreover have r: "unat (redirectors c) + unat (REDIRECTOR_SIZE A) * (length (names c) + 2) \<le> address_limit A"
    and p32: "unat (REDIRECTOR_SIZE A) * (length (names c) + 2) < 2 ^ 32"
    using assms by (auto simp: ctx_ok_def)
  ultimately have p: "?p < 2 ^ 32" and l: "unat (redirectors c) + ?p < address_limit A"
    by (cases A; simp)+
  have "unat (REDIRECTOR_SIZE A * getFunctionIndex name c) = ?p"
    using getFunctionIndex_unat [OF assms, of name] p
      unat_mult_lem [of "REDIRECTOR_SIZE A" "getFunctionIndex name c"] by simp
  then have "(ucast (REDIRECTOR_SIZE A * getFunctionIndex name c) :: u64) = of_nat ?p"
    by (metis of_nat_unat)
  moreover have "to_ptr A (redirectors c + of_nat ?p) = redirectors c + of_nat ?p"
    using to_ptr_offset [OF l] .
  ultimately show ?thesis by (simp add: getRedirectorAddressForName_def)
qed

section \<open>The table as an interface\<close>

lemma load_take: "k \<le> n \<Longrightarrow> load m a k = take k (load m a n)"
  by (simp add: load_def take_map)

text \<open>
  What a client that registers functions relies on: after a registration the slot of that name holds
  the code for that function, and the slot of every other listed name is as before.
\<close>

locale code_table =
  fixes addr :: "string \<Rightarrow> 'c \<Rightarrow> u64"
    and add :: "memory \<Rightarrow> string \<Rightarrow> u64 \<Rightarrow> 'c \<Rightarrow> memory"
    and code :: "u64 \<Rightarrow> u64 \<Rightarrow> byte list"
    and slot :: nat
    and listed :: "string \<Rightarrow> 'c \<Rightarrow> bool"
    and ok :: "'c \<Rightarrow> bool"
  assumes code_le: "length (code a f) \<le> slot"
    and code_add: "ok c \<Longrightarrow> listed n c \<Longrightarrow>
      load (add m n f c) (addr n c) (length (code (addr n c) f)) = code (addr n c) f"
    and frame_add: "ok c \<Longrightarrow> listed n c \<Longrightarrow> listed n' c \<Longrightarrow> n \<noteq> n' \<Longrightarrow>
      load (add m n f c) (addr n' c) slot = load m (addr n' c) slot"
begin

lemma fold_add_frame:
  assumes "ok c" "listed n' c" "\<forall>(n, f)\<in>set ps. listed n c \<and> n \<noteq> n'"
  shows "load (fold (\<lambda>(n, f) m. add m n f c) ps m) (addr n' c) slot = load m (addr n' c) slot"
  using assms(3) by (induction ps arbitrary: m) (auto simp: frame_add assms(1,2))

text \<open>Registering any number of different names one after the other keeps all of them.\<close>

lemma fold_add_slot:
  assumes "ok c" "\<forall>(n, f)\<in>set ps. listed n c" "distinct (map fst ps)" "(n, f) \<in> set ps"
  shows "\<exists>m'. load (fold (\<lambda>(n, f) m. add m n f c) ps m) (addr n c) slot = load (add m' n f c) (addr n c) slot"
proof -
  obtain as bs where ps: "ps = as @ (n, f) # bs" using assms(4) by (meson split_list)
  have "n \<notin> fst ` set bs" "listed n c" using assms(2,3,4) ps by auto
  moreover then have "\<forall>(n', f')\<in>set bs. listed n' c \<and> n' \<noteq> n"
    using assms(2) ps by (auto simp: image_iff)
  ultimately show ?thesis
    using fold_add_frame [OF assms(1), of n bs "add (fold (\<lambda>(n, f) m. add m n f c) as m) n f c"]
    by (auto simp: ps)
qed

lemma fold_add_code:
  assumes "ok c" "\<forall>(n, f)\<in>set ps. listed n c" "distinct (map fst ps)" "(n, f) \<in> set ps"
  shows "load (fold (\<lambda>(n, f) m. add m n f c) ps m) (addr n c) (length (code (addr n c) f)) = code (addr n c) f"
proof -
  have "listed n c" using assms(2,4) by auto
  then show ?thesis
    using fold_add_slot [OF assms, of m] code_add [OF assms(1), of n _ f]
    unfolding load_take [OF code_le [of "addr n c" f]] by auto
qed

end

text \<open>The loader and \<^verbatim>\<open>libdl.so\<close> also ask whether a function has been registered.\<close>

locale redirector_table = code_table addr add code slot listed ok
  for addr :: "string \<Rightarrow> 'c \<Rightarrow> u64" and add :: "memory \<Rightarrow> string \<Rightarrow> u64 \<Rightarrow> 'c \<Rightarrow> memory"
    and code :: "u64 \<Rightarrow> u64 \<Rightarrow> byte list" and slot :: nat and listed :: "string \<Rightarrow> 'c \<Rightarrow> bool" and ok :: "'c \<Rightarrow> bool" +
  fixes registered :: "memory \<Rightarrow> string \<Rightarrow> 'c \<Rightarrow> bool"
  assumes registered_add: "ok c \<Longrightarrow> listed n c \<Longrightarrow> registered (add m n f c) n c"
    and registered_cong: "load m (addr n c) slot = load m' (addr n c) slot \<Longrightarrow>
      registered m n c = registered m' n c"
begin

lemma registered_add_other:
  "ok c \<Longrightarrow> listed n c \<Longrightarrow> listed n' c \<Longrightarrow> n \<noteq> n' \<Longrightarrow>
   registered (add m n f c) n' c = registered m n' c"
  by (rule registered_cong) (rule frame_add)

lemma fold_add_registered:
  assumes "ok c" "\<forall>(n, f)\<in>set ps. listed n c" "distinct (map fst ps)" "(n, f) \<in> set ps"
  shows "registered (fold (\<lambda>(n, f) m. add m n f c) ps m) n c"
proof -
  have "listed n c" using assms(2,4) by auto
  then show ?thesis
    using fold_add_slot [OF assms, of m] registered_add [OF assms(1)] by (auto dest: registered_cong)
qed

lemma fold_add_registered_other:
  assumes "ok c" "\<forall>(n, f)\<in>set ps. listed n c" "listed k c" "k \<notin> fst ` set ps"
  shows "registered (fold (\<lambda>(n, f) m. add m n f c) ps m) k c = registered m k c"
  using assms by (induction ps arbitrary: m) (auto simp: registered_add_other)

end

lemma slot_room:
  assumes "ctx_ok A c" "i < length (names c)"
  shows "unat (REDIRECTOR_SIZE A) * i + unat (REDIRECTOR_SIZE A) \<le> 2 ^ 63"
proof -
  have "unat (REDIRECTOR_SIZE A) * i + unat (REDIRECTOR_SIZE A)
      \<le> unat (REDIRECTOR_SIZE A) * (length (names c) + 2)"
    using assms(2) by (cases A) auto
  also have "\<dots> < 2 ^ 32" using assms(1) unfolding ctx_ok_def by blast
  finally show ?thesis by simp
qed

lemma slots_disjoint:
  assumes "ctx_ok A c" "n \<in> set (names c)" "n' \<in> set (names c)" "n \<noteq> n'"
  shows "disjoint_ranges (getRedirectorAddressForName A n c) (unat (REDIRECTOR_SIZE A))
           (getRedirectorAddressForName A n' c) (unat (REDIRECTOR_SIZE A))"
  unfolding slot_addr [OF assms(1)]
  using assms slot_index_inj slot_index_listed
  by (intro slot_disjoint slot_room [OF assms(1)]) blast+

lemma registered_store:
  assumes "b \<noteq> 0" "4 \<le> length (b # bs)" "length (b # bs) \<le> 2 ^ 64"
  shows "of_le (load (store m a (b # bs)) a 4) \<noteq> 0"
proof -
  have "load (store m a (b # bs)) a 4 = take 4 (b # bs)"
    using load_take [OF assms(2), of "store m a (b # bs)" a] load_store_same [OF assms(3), of m a]
    by simp
  then show ?thesis using assms(1) by (simp add: unat_eq_zero)
qed

interpretation rt: redirector_table "getRedirectorAddressForName A" "addNewFunction A wr" "redirector_code A wr"
  "unat (REDIRECTOR_SIZE A)" isFunctionInFunctionList "ctx_ok A" "isFunctionRedirectorRegistered A"
  for A wr
proof (unfold_locales, goal_cases)
  case (1 a f)
  show ?case by (rule redirector_code_le)
next
  case (2 c n m f)
  show ?case unfolding addNewFunction_def writeRedirectionCode_eq
    by (rule load_store_same) (cases A; simp add: length_redirector_code)
next
  case (3 c n n' m f)
  then have "disjoint_ranges (getRedirectorAddressForName A n c) (unat (REDIRECTOR_SIZE A))
      (getRedirectorAddressForName A n' c) (unat (REDIRECTOR_SIZE A))"
    by (simp add: slots_disjoint isFunctionInFunctionList_listed)
  then show ?case unfolding addNewFunction_def writeRedirectionCode_eq
    by (intro load_store_disjoint)
      (cases A; simp add: disjoint_ranges_def length_redirector_code)+
next
  case (4 c n m f)
  show ?case unfolding addNewFunction_def writeRedirectionCode_eq isFunctionRedirectorRegistered_def
    by (cases A) (simp_all add: redirector_code_def registered_store)
next
  case (5 m n c m')
  then have "load m (getRedirectorAddressForName A n c) 4 = load m' (getRedirectorAddressForName A n c) 4"
    using load_take [of 4 "unat (REDIRECTOR_SIZE A)"] by (cases A) simp_all
  then show ?case by (simp add: isFunctionRedirectorRegistered_def)
qed

section \<open>Executing a slot\<close>

lemma take_bit_32_64_add: "take_bit 32 (take_bit 64 a + take_bit 64 b) = take_bit 32 (a + b :: int)"
  by (subst take_bit_add [symmetric]) (simp add: take_bit_take_bit take_bit_add)
lemma ucast_u32_add: "(ucast (a + b :: u64) :: u32) = ucast a + ucast b"
  by transfer (simp add: take_bit_32_64_add take_bit_take_bit)

lemma load_nth: "load m a n = bs \<Longrightarrow> i < n \<Longrightarrow> m (a + of_nat i) = bs ! i"
  by (auto simp: load_def)

lemma load_sub:
  assumes "load m a n = bs" "i + k \<le> n"
  shows "load m (a + of_nat i) k = take k (drop i bs)"
proof (rule nth_equalityI)
  fix j assume j: "j < length (load m (a + of_nat i) k)"
  then show "load m (a + of_nat i) k ! j = take k (drop i bs) ! j"
    using assms(2) load_nth [OF assms(1), of "i + j"] arg_cong [OF assms(1), of length]
    by (simp add: load_def add.assoc)
qed (use assms in \<open>auto simp: load_def\<close>)

lemma run_code32:
  assumes "load m a 10 = redirector_code ARCH_32 wr a f" "unat a + 16 \<le> 2 ^ 32"
    and "unat wr < 2 ^ 32" "unat f < 2 ^ 32"
  shows "rrun ARCH_32 m 2 \<lparr>ip = a, ax = r, stk = s\<rparr> = Some \<lparr>ip = wr, ax = r, stk = f # s\<rparr>"
proof -
  have b: "m a = 0x68" "m (a + 5) = 0xe9"
    using load_nth [OF assms(1), of 0] load_nth [OF assms(1), of 5]
    by (simp_all add: redirector_code_def nth_append)
  have i: "load m (a + 1) 4 = le_bytes 4 (ucast f :: u32)"
    "load m (a + 6) 4 = le_bytes 4 ((ucast wr :: u32) - ucast (a + 10))"
    using load_sub [OF assms(1), of 1 4] load_sub [OF assms(1), of 6 4]
    by (simp_all add: redirector_code_def)
  have p: "to_ptr ARCH_32 (a + 5) = a + 5" "(ucast (ucast wr :: u32) :: u64) = wr" "(ucast (ucast f :: u32) :: u64) = f"
    using to_ptr_offset [of a 5 ARCH_32] to_ptr_id [of wr ARCH_32] to_ptr_id [of f ARCH_32] assms(2-4)
    by simp_all
  have "(ucast (a + 10) :: u32) = ucast (a + 5) + 5"
    using ucast_u32_add [of "a + 5" 5] by (simp add: add.assoc)
  then have j: "(ucast (a + 5) + 5 + (ucast wr - ucast (a + 10)) :: u32) = ucast wr" by simp
  have n: "2 = Suc (Suc 0)" by simp
  show ?thesis unfolding n
    by (simp add: rstep32_def b i p j [unfolded add.assoc] le_bytes_u32 add.assoc del: to_ptr.simps)
qed

lemma run_code64:
  assumes "load m a 24 = redirector_code ARCH_64 wr a f"
  shows "rrun ARCH_64 m 5 \<lparr>ip = a, ax = r, stk = s\<rparr> = Some \<lparr>ip = wr, ax = wr, stk = f # r # s\<rparr>"
proof -
  have b: "m a = 0x50" "m (a + 1) = 0x48" "m (a + 2) = 0xb8" "m (a + 11) = 0x50" "m (a + 12) = 0x48"
    "m (a + 13) = 0xb8" "m (a + 22) = 0xff" "m (a + 23) = 0xe0"
    using load_nth [OF assms, of 0] load_nth [OF assms, of 1] load_nth [OF assms, of 2]
      load_nth [OF assms, of 11] load_nth [OF assms, of 12] load_nth [OF assms, of 13]
      load_nth [OF assms, of 22] load_nth [OF assms, of 23]
    by (simp_all add: redirector_code_def nth_append)
  have i: "load m (a + 3) 8 = le_bytes 8 f" "load m (a + 14) 8 = le_bytes 8 wr"
    using load_sub [OF assms, of 3 8] load_sub [OF assms, of 14 8]
    by (simp_all add: redirector_code_def)
  have n: "5 = Suc (Suc (Suc (Suc (Suc 0))))" by simp
  show ?thesis unfolding n
    by (simp add: rstep64_def b i le_bytes_u64 add.assoc)
qed

section \<open>Page arithmetic and zeroing\<close>

lemma and_not_mask12: "x AND NOT (mask 12) = push_bit 12 (drop_bit 12 (x :: u64))"
  by (rule bit_word_eqI) (auto simp: bit_simps)

lemma unat_page_floor: "unat (push_bit 12 (drop_bit 12 (x :: u64))) = unat x div 4096 * 4096"
proof -
  have "unat x div 4096 * 4096 < 18446744073709551616"
    using unat_bound(1) [of x] div_times_less_eq_dividend [of "unat x" 4096] by linarith
  moreover have "unat (drop_bit 12 x) = unat x div 4096"
    by (subst unat_drop_bit_eq) (simp add: drop_bit_eq_div)
  ultimately show ?thesis
    by (subst unsigned_push_bit_eq) (simp add: push_bit_eq_mult take_bit_nat_eq_self)
qed

lemma page_mask: "scast (NOT (4096 - 1 :: u32)) = (NOT (mask 12) :: u64)" "scast (4096 :: u32) = (4096 :: u64)"
  by (simp_all add: mask_eq_exp_minus_1)

lemma align_up_eq:
  assumes "unat a + 4095 < address_limit A"
  shows "align_up A 4096 a = word_of_nat ((unat a + 4095) div 4096 * 4096)"
    and "unat (align_up A 4096 a) = (unat a + 4095) div 4096 * 4096"
proof -
  let ?x = "a + scast (4096 :: u32) - 1"
  have x: "unat ?x = unat a + 4095"
    using unat_offset [of a 4095] assms by (cases A) (simp_all add: page_mask algebra_simps)
  have f: "(?x AND scast (NOT (4096 - 1 :: u32))) = push_bit 12 (drop_bit 12 ?x)"
    unfolding page_mask by (rule and_not_mask12)
  have u: "unat (?x AND scast (NOT (4096 - 1 :: u32))) = (unat a + 4095) div 4096 * 4096"
    unfolding f unat_page_floor x ..
  moreover have "\<dots> \<le> unat a + 4095" by (rule div_times_less_eq_dividend)
  ultimately have "to_ptr A (?x AND scast (NOT (4096 - 1 :: u32))) = ?x AND scast (NOT (4096 - 1 :: u32))"
    using assms by (intro to_ptr_id) linarith
  then have eq: "align_up A 4096 a = ?x AND scast (NOT (4096 - 1 :: u32))"
    by (simp only: align_up_def)
  show "unat (align_up A 4096 a) = (unat a + 4095) div 4096 * 4096" unfolding eq by (rule u)
  then show "align_up A 4096 a = word_of_nat ((unat a + 4095) div 4096 * 4096)"
    by (metis of_nat_unat ucast_id)
qed

lemma replicate4: "load (store m a (replicate 4 0)) a 4 = replicate 4 0"
  using load_store_same [of "replicate 4 0" m a] by simp

lemma slot_word_disjoint:
  assumes "i \<noteq> j" "r * i + r \<le> 2 ^ 63" "r * j + r \<le> 2 ^ 63" "4 \<le> r"
  shows "disjoint_ranges (b + of_nat (r * i)) 4 (b + of_nat (r * j)) 4"
  using slot_disjoint [OF assms(1-3), of b] assms(4) by (simp add: disjoint_ranges_def)

lemma size_bounds: "4 \<le> unat (REDIRECTOR_SIZE A)" "unat (REDIRECTOR_SIZE A) \<le> 24"
  by (cases A; simp)+

lemma zero_loop_step:
  assumes "i < n" "unat base + unat (REDIRECTOR_SIZE A) * n \<le> address_limit A"
  shows "zero_loop A base (unat (REDIRECTOR_SIZE A) * i) (unat (REDIRECTOR_SIZE A) * n) m =
    zero_loop A base (unat (REDIRECTOR_SIZE A) * Suc i) (unat (REDIRECTOR_SIZE A) * n)
      (store m (base + of_nat (unat (REDIRECTOR_SIZE A) * i)) (replicate 4 0))"
proof -
  let ?r = "unat (REDIRECTOR_SIZE A)"
  have lt: "?r * i < ?r * n" using assms(1) size_bounds [of A] by simp
  then have "to_ptr A (base + of_nat (?r * i)) = base + of_nat (?r * i)"
    using assms(2) by (intro to_ptr_offset) linarith
  then show ?thesis using lt zero_loop.simps [of A base "?r * i" "?r * n" m]
    by (simp add: add.commute)
qed

lemma zero_loop_load:
  assumes "unat base + unat (REDIRECTOR_SIZE A) * n \<le> address_limit A" "j < n" "i \<le> n"
  shows "load (zero_loop A base (unat (REDIRECTOR_SIZE A) * i) (unat (REDIRECTOR_SIZE A) * n) m)
           (base + of_nat (unat (REDIRECTOR_SIZE A) * j)) 4 =
         (if i \<le> j then replicate 4 0 else load m (base + of_nat (unat (REDIRECTOR_SIZE A) * j)) 4)"
  using assms(3)
proof (induction "n - i" arbitrary: i m)
  case 0
  then show ?case using assms(2) by (simp add: zero_loop.simps [of A])
next
  case (Suc k)
  let ?r = "unat (REDIRECTOR_SIZE A)"
  have i: "i < n" "k = n - Suc i" "Suc i \<le> n" using Suc.hyps(2) by simp_all
  have room: "?r * l + ?r \<le> 2 ^ 63" if "l < n" for l
  proof -
    have "?r * l + ?r \<le> ?r * n" using that by (metis Suc_leI add.commute mult_Suc_right mult_le_mono2)
    then show ?thesis using assms(1) by (cases A) auto
  qed
  show ?case unfolding zero_loop_step [OF i(1) assms(1)] Suc.hyps(1) [OF i(2,3)]
    using slot_word_disjoint [OF _ room [OF i(1)] room [OF assms(2)] size_bounds(1), of base]
      load_store_disjoint [of "base + of_nat (?r * i)" "replicate 4 0" "base + of_nat (?r * j)" 4 m]
      replicate4 [of m "base + of_nat (?r * i)"] i
    by (cases "i = j") (auto simp del: of_nat_mult)
qed

lemma mprotect_loop_ok:
  "\<forall>p\<in>set ps. mprotect p = 0 \<Longrightarrow> mprotect_loop mprotect ps v = (True, v\<lparr>rwx := rwx v @ ps\<rparr>)"
  by (induction mprotect ps v rule: mprotect_loop.induct) auto

lemma alloc_size_unat:
  assumes "unat (REDIRECTOR_SIZE A) * unat cnt + 4096 < 2 ^ 32"
  shows "unat (alloc_size A 4096 cnt) = unat (REDIRECTOR_SIZE A) * unat cnt + 4095"
proof -
  have m: "unat (REDIRECTOR_SIZE A * cnt) = unat (REDIRECTOR_SIZE A) * unat cnt"
    using assms unat_mult_lem [of "REDIRECTOR_SIZE A" cnt] by simp
  then have "unat (REDIRECTOR_SIZE A * cnt + 4096 - 1) = unat (REDIRECTOR_SIZE A) * unat cnt + 4095"
    using assms by (simp add: unat_plus_if')
  then show ?thesis unfolding alloc_size_def using assms by (simp add: unsigned_ucast_eq unsigned_take_bit_eq take_bit_nat_eq_self)
qed

lemma align_up_aligned:
  assumes "4096 dvd unat a" "unat a + 4095 < address_limit A"
  shows "align_up A 4096 a = a"
proof -
  have "(unat a + 4095) div 4096 * 4096 = unat a" using assms(1) by (auto elim!: dvdE)
  then show ?thesis using align_up_eq(2) [OF assms(2)] by (simp only: word_unat_eq_iff)
qed

text \<open>The address computations of a successful initialisation.\<close>

lemma init_geometry:
  assumes "4096 dvd unat area"
    and "unat area + unat (REDIRECTOR_SIZE A) * (n + 2) + 4096 \<le> address_limit A"
    and "unat (REDIRECTOR_SIZE A) * (n + 2) + 4096 < 2 ^ 32"
    and "unat cnt = n"
  shows "align_up A 4096 area = area"
    and "unat (alloc_size A 4096 cnt div ucast (4096 :: u32)) = (unat (REDIRECTOR_SIZE A) * n + 4095) div 4096"
    and "i < (unat (REDIRECTOR_SIZE A) * n + 4095) div 4096 \<Longrightarrow>
      to_ptr A (area + ucast (4096 :: u32) * word_of_nat i) = area + of_nat (4096 * i)
      \<and> unat (area + of_nat (4096 * i)) = unat area + 4096 * i"
    and "unat (REDIRECTOR_SIZE A * cnt) = unat (REDIRECTOR_SIZE A) * n"
proof -
  let ?r = "unat (REDIRECTOR_SIZE A)"
  have le: "?r * n \<le> ?r * (n + 2)" by simp
  show "align_up A 4096 area = area"
    using assms(1,2) by (intro align_up_aligned) auto
  show "unat (alloc_size A 4096 cnt div ucast (4096 :: u32)) = (?r * n + 4095) div 4096"
    using alloc_size_unat [of A cnt] assms(3,4) le by (simp add: unat_div)
  show "unat (REDIRECTOR_SIZE A * cnt) = ?r * n"
    using assms(3,4) le unat_mult_lem [of "REDIRECTOR_SIZE A" cnt] by simp
  assume "i < (?r * n + 4095) div 4096"
  then have "4096 * i + 1 \<le> ?r * n + 4095" by (simp add: less_eq_Suc_le)
  then have l: "unat area + 4096 * i < address_limit A" using assms(2) le by linarith
  then show "to_ptr A (area + ucast (4096 :: u32) * word_of_nat i) = area + of_nat (4096 * i)
      \<and> unat (area + of_nat (4096 * i)) = unat area + 4096 * i"
    using to_ptr_offset [OF l] unat_offset [of area "4096 * i"] by (cases A) simp_all
qed

lemma page_covers:
  assumes "b < k"
  shows "b div 4096 < (k + 4095) div (4096 :: nat)"
  using assms by (simp add: less_eq_Suc_le)

lemma initWrapperRedirectors_eq:
  assumes "getenv A env ELFPERF_PROFILE_FUNCTION_ENV_VARIABLE = Some v" "c_string v"
    and "attach ipc ELFPERF_SHARED_MEMORY_ID_INFO True = Some shm" "info_area \<noteq> - 1"
    and "names c = fn_words v" "count c = word_of_nat (length (fn_words v))"
    and "4096 dvd unat area"
    and "unat area + unat (REDIRECTOR_SIZE A) * (length (names c) + 2) + 4096 \<le> address_limit A"
    and "unat (REDIRECTOR_SIZE A) * (length (names c) + 2) + 4096 < 2 ^ 32"
    and "\<forall>p. mprotect p = 0"
  shows "initWrapperRedirectors A env ipc info_area 4096 area mprotect c st w =
    Inr (c\<lparr>redirectors := area\<rparr>,
      st\<lparr>info_heap := (info_heap st)(info_area := Some (map (\<lambda>n. \<lparr>fi_name = n, fi_addr = 0\<rparr>) (fn_words v))),
         seg_info := info_area\<rparr>,
      w\<lparr>rwx := rwx w @ map (\<lambda>i. area + of_nat (4096 * i)) [0..<(unat (REDIRECTOR_SIZE A) * length (names c) + 4095) div 4096],
         vm_mem := zero_loop A area (unat (REDIRECTOR_SIZE A) * 0) (unat (REDIRECTOR_SIZE A) * length (names c)) (vm_mem w)\<rparr>)"
proof -
  have cnt: "unat (count c) = length (names c)" using c_string_count [OF assms(2)] assms(5,6) by simp
  have u: "ucast (4096 :: u32) = (4096 :: u64)" by simp
  note geo = init_geometry [OF assms(7-9) cnt, unfolded u]
  have pages: "map (\<lambda>i. to_ptr A (area + 4096 * word_of_nat i))
       [0..<unat (alloc_size A 4096 (count c) div 4096)]
     = map (\<lambda>i. area + of_nat (4096 * i)) [0..<(unat (REDIRECTOR_SIZE A) * length (names c) + 4095) div 4096]"
    unfolding geo(2) using geo(3) by (intro map_cong) (auto simp del: of_nat_mult)
  show ?thesis
    unfolding initWrapperRedirectors_def initFunctionInfoStorage_ok [OF assms(1-4)] bind_result.simps
    using assms(10)
    by (simp add: Let_def geo(1,4) pages mprotect_loop_ok del: of_nat_mult upt_Suc)
qed

text \<open>A zeroed slot does not count as registered.\<close>

lemma zeroed_unregistered:
  assumes "ctx_ok A c" "n \<in> set (names c)"
  shows "\<not> isFunctionRedirectorRegistered A
    (zero_loop A (redirectors c) (unat (REDIRECTOR_SIZE A) * 0) (unat (REDIRECTOR_SIZE A) * length (names c)) m) n c"
proof -
  have "unat (redirectors c) + unat (REDIRECTOR_SIZE A) * (length (names c) + 2) \<le> address_limit A"
    using assms(1) unfolding ctx_ok_def by blast
  then have "unat (redirectors c) + unat (REDIRECTOR_SIZE A) * length (names c) \<le> address_limit A"
    by simp
  from zero_loop_load [OF this slot_index_listed [OF assms(2)], of 0 m] slot_addr [OF assms(1), of n]
  show ?thesis by (simp add: isFunctionRedirectorRegistered_def of_le_zeros)
qed

text \<open>A slot that holds the code for a function leads to the wrapper with that function.\<close>

lemma slot_runs:
  assumes "ctx_ok A c" "n \<in> set (names c)" "unat f < address_limit A" "unat wr < address_limit A"
    and "load m (getRedirectorAddressForName A n c)
           (length (redirector_code A wr (getRedirectorAddressForName A n c) f)) =
         redirector_code A wr (getRedirectorAddressForName A n c) f"
  shows "rrun A m (case A of ARCH_32 \<Rightarrow> 2 | ARCH_64 \<Rightarrow> 5) \<lparr>ip = getRedirectorAddressForName A n c, ax = r, stk = s\<rparr>
      = Some (case A of ARCH_32 \<Rightarrow> \<lparr>ip = wr, ax = r, stk = f # s\<rparr>
                      | ARCH_64 \<Rightarrow> \<lparr>ip = wr, ax = wr, stk = f # r # s\<rparr>)"
proof -
  let ?a = "getRedirectorAddressForName A n c"
  have "unat ?a + 16 \<le> 2 ^ 32" if "A = ARCH_32"
  proof -
    have "unat (redirectors c) + 16 * (length (names c) + 2) \<le> 2 ^ 32"
      using assms(1) that by (simp add: ctx_ok_def)
    then show ?thesis using slot_index_listed [OF assms(2)] slot_addr [OF assms(1), of n] that
        unat_offset [of "redirectors c" "16 * slot_index n c"] by simp
  qed
  then show ?thesis using assms(3-5) run_code32 [of _ ?a wr f r s] run_code64 [of _ ?a wr f r s]
    by (cases A) (simp_all add: length_redirector_code)
qed

section \<open>Properties\<close>

text \<open>C15. Initialisation: when the kernel grants the requests, the slots start at the page-aligned
  address that \<^verbatim>\<open>mmap\<close> returned, every byte of every slot lies in a page that has been made
  readable, writable and executable, and no listed function counts as registered.\<close>

theorem initWrapperRedirectors_ready:
  assumes "getenv A env ELFPERF_PROFILE_FUNCTION_ENV_VARIABLE = Some v" "c_string v"
    and "attach ipc ELFPERF_SHARED_MEMORY_ID_INFO True = Some shm" "info_area \<noteq> - 1"
    and "names c = fn_words v" "count c = word_of_nat (length (fn_words v))"
    and "4096 dvd unat area"
    and "unat area + unat (REDIRECTOR_SIZE A) * (length (names c) + 2) + 4096 \<le> address_limit A"
    and "unat (REDIRECTOR_SIZE A) * (length (names c) + 2) + 4096 < 2 ^ 32"
    and "\<forall>p. mprotect p = 0"
  shows "\<exists>st' w'. initWrapperRedirectors A env ipc info_area 4096 area mprotect c st w =
      Inr (c\<lparr>redirectors := area\<rparr>, st', w') \<and> ctx_ok A (c\<lparr>redirectors := area\<rparr>)
    \<and> (\<forall>b < unat (REDIRECTOR_SIZE A) * length (names c).
         \<exists>p\<in>set (rwx w'). unat p \<le> unat area + b \<and> unat area + b < unat p + 4096)
    \<and> (\<forall>n\<in>set (names c). \<not> isFunctionRedirectorRegistered A (vm_mem w') n (c\<lparr>redirectors := area\<rparr>))"
proof -
  let ?r = "unat (REDIRECTOR_SIZE A)" and ?n = "length (names c)" and ?c = "c\<lparr>redirectors := area\<rparr>"
  let ?N = "(?r * ?n + 4095) div 4096"
  let ?m = "zero_loop A area (?r * 0) (?r * ?n) (vm_mem w)"
  let ?w = "w\<lparr>rwx := rwx w @ map (\<lambda>i. area + of_nat (4096 * i)) [0..<?N], vm_mem := ?m\<rparr>"
  from initWrapperRedirectors_eq [OF assms, of st w] obtain st' where
    init: "initWrapperRedirectors A env ipc info_area 4096 area mprotect c st w = Inr (?c, st', ?w)" by blast
  have cnt: "unat (count c) = ?n" using c_string_count [OF assms(2)] assms(5,6) by simp
  note geo = init_geometry [OF assms(7-9) cnt]
  have ok: "ctx_ok A ?c" using assms(8,9) cnt by (simp add: ctx_ok_def)
  have cover: "\<exists>p\<in>set (rwx ?w). unat p \<le> unat area + b \<and> unat area + b < unat p + 4096"
    if "b < ?r * ?n" for b
  proof (rule bexI [of _ "area + of_nat (4096 * (b div 4096))"])
    have i: "b div 4096 < ?N" using page_covers [OF that] .
    then show "area + of_nat (4096 * (b div 4096)) \<in> set (rwx ?w)" by (auto simp del: of_nat_mult)
    show "unat (area + of_nat (4096 * (b div 4096))) \<le> unat area + b
        \<and> unat area + b < unat (area + of_nat (4096 * (b div 4096))) + 4096"
      using geo(3) [OF i] div_mult_mod_eq [of b 4096] mod_less_divisor [of 4096 b] by linarith
  qed
  have "\<not> isFunctionRedirectorRegistered A (vm_mem ?w) n ?c" if "n \<in> set (names c)" for n
    using zeroed_unregistered [OF ok, of n "vm_mem w"] that by simp
  with init ok cover show ?thesis by blast
qed

text \<open>A configuration for which the hypotheses hold: two functions, the area at address 65536.\<close>

lemma two_function_environment:
  "getenv A [''ELFPERF_PROFILE_FUNCTION=f:g''] ELFPERF_PROFILE_FUNCTION_ENV_VARIABLE = Some ''f:g''"
  "c_string ''f:g''" "fn_words ''f:g'' = [''f'', ''g'']"
  by (cases A; simp add: getenv_def ELFPERF_PROFILE_FUNCTION_ENV_VARIABLE_def c_string_def)+

theorem initWrapperRedirectors_ready_witness:
  "\<exists>st' w'. initWrapperRedirectors ARCH_64 [''ELFPERF_PROFILE_FUNCTION=f:g''] (\<lambda>k c. (1, 4096)) 8192 4096 65536
      (\<lambda>p. 0) \<lparr>names = [''f'', ''g''], count = 2, redirectors = 0\<rparr>
      \<lparr>seg_stat = 0, seg_info = 0, seg_context = None, info_heap = (\<lambda>_. None)\<rparr>
      \<lparr>vm_mem = (\<lambda>_. 204), rwx = []\<rparr>
      = Inr (\<lparr>names = [''f'', ''g''], count = 2, redirectors = 65536\<rparr>, st', w')
    \<and> \<not> isFunctionRedirectorRegistered ARCH_64 (vm_mem w') ''g'' \<lparr>names = [''f'', ''g''], count = 2, redirectors = 65536\<rparr>"
proof -
  have h: "attach (\<lambda>k c. (1, 4096)) ELFPERF_SHARED_MEMORY_ID_INFO True = Some 4096" "(8192 :: u64) \<noteq> - 1"
    by (simp_all add: attach_def)
  show ?thesis
    using initWrapperRedirectors_ready [OF two_function_environment(1,2) h,
        of "\<lparr>names = [''f'', ''g''], count = 2, redirectors = 0\<rparr>" 65536 ARCH_64 "\<lambda>p. 0"
           "\<lparr>seg_stat = 0, seg_info = 0, seg_context = None, info_heap = (\<lambda>_. None)\<rparr>" "\<lparr>vm_mem = (\<lambda>_. 204), rwx = []\<rparr>"]
    by (auto simp: two_function_environment(3))
qed

text \<open>A page that cannot be made executable is not reported: the routine returns as if it
  had succeeded, with the base address set, nothing zeroed and no page granted.\<close>

lemma initWrapperRedirectors_mprotect_failure_silent:
  assumes "initFunctionInfoStorage A env ipc info_area st = Inr (r, st')"
    and "mprotect (to_ptr A (align_up A ps area)) \<noteq> 0"
    and "0 < unat (alloc_size A ps (count c) div ucast ps)"
  shows "initWrapperRedirectors A env ipc info_area ps area mprotect c st w =
    Inr (c\<lparr>redirectors := align_up A ps area\<rparr>, st', w)"
proof -
  obtain k where "unat (alloc_size A ps (count c) div ucast ps) = Suc k"
    using assms(3) gr0_implies_Suc by blast
  then show ?thesis using assms(1,2)
    by (simp add: initWrapperRedirectors_def Let_def upt_conv_Cons del: upt_Suc)
qed

lemma fresh_slot_unregistered:
  assumes "load m (getRedirectorAddressForName A n c) (unat (REDIRECTOR_SIZE A)) = replicate (unat (REDIRECTOR_SIZE A)) 0"
  shows "\<not> isFunctionRedirectorRegistered A m n c"
proof -
  have "load m (getRedirectorAddressForName A n c) 4 = replicate 4 0"
    using assms load_take [of 4 "unat (REDIRECTOR_SIZE A)" m "getRedirectorAddressForName A n c"]
    by (cases A) simp_all
  then show ?thesis by (simp add: isFunctionRedirectorRegistered_def numeral_eq_Suc)
qed

text \<open>C13. Whatever sequence of registrations of different listed functions has been made, each of
  them counts as registered, and executing its slot arrives at the wrapper with the address of
  that very function on top of the stack (on x86-64 above the saved \<^verbatim>\<open>%rax\<close>), after two
  instructions on x86 and five on x86-64. A listed function that was not among them counts as registered
  exactly when it did before the sequence, hence not at all when its slot was fresh.\<close>

theorem registered_redirectors_run:
  assumes "ctx_ok A c" "\<forall>(n, f)\<in>set ps. isFunctionInFunctionList n c" "distinct (map fst ps)"
    and "(n, f) \<in> set ps" "unat f < address_limit A" "unat wr < address_limit A"
  shows "isFunctionRedirectorRegistered A (fold (\<lambda>(n, f) m. addNewFunction A wr m n f c) ps m) n c
    \<and> rrun A (fold (\<lambda>(n, f) m. addNewFunction A wr m n f c) ps m) (case A of ARCH_32 \<Rightarrow> 2 | ARCH_64 \<Rightarrow> 5)
        \<lparr>ip = getRedirectorAddressForName A n c, ax = r, stk = s\<rparr>
      = Some (case A of ARCH_32 \<Rightarrow> \<lparr>ip = wr, ax = r, stk = f # s\<rparr>
                      | ARCH_64 \<Rightarrow> \<lparr>ip = wr, ax = wr, stk = f # r # s\<rparr>)
    \<and> (\<forall>k. isFunctionInFunctionList k c \<longrightarrow> k \<notin> fst ` set ps \<longrightarrow>
         isFunctionRedirectorRegistered A (fold (\<lambda>(n, f) m. addNewFunction A wr m n f c) ps m) k c
         = isFunctionRedirectorRegistered A m k c)
    \<and> (\<forall>k. isFunctionInFunctionList k c \<longrightarrow> k \<notin> fst ` set ps \<longrightarrow>
         load m (getRedirectorAddressForName A k c) (unat (REDIRECTOR_SIZE A)) = replicate (unat (REDIRECTOR_SIZE A)) 0 \<longrightarrow>
         \<not> isFunctionRedirectorRegistered A (fold (\<lambda>(n, f) m. addNewFunction A wr m n f c) ps m) k c)"
proof -
  note all = rt.fold_add_code [OF assms(1-4), of wr m] rt.fold_add_registered [OF assms(1-4), of wr m]
  note other = rt.fold_add_registered_other [OF assms(1,2), of _ wr m]
  have "n \<in> set (names c)" using assms(2,4) isFunctionInFunctionList_listed [OF assms(1)] by auto
  then show ?thesis using all slot_runs [OF assms(1)] assms(5,6) other fresh_slot_unregistered [of m A] by blast
qed

text \<open>Of three functions two are registered.\<close>

theorem registered_redirectors_run_witness:
  "rrun ARCH_64 (fold (\<lambda>(n, f) m. addNewFunction ARCH_64 4194304 m n f \<lparr>names = [''f'', ''g'', ''h''], count = 3, redirectors = 65536\<rparr>)
       [(''g'', 1000), (''f'', 2000)] (\<lambda>_. 0)) 5
     \<lparr>ip = getRedirectorAddressForName ARCH_64 ''g'' \<lparr>names = [''f'', ''g'', ''h''], count = 3, redirectors = 65536\<rparr>, ax = 7, stk = [42]\<rparr>
   = Some \<lparr>ip = 4194304, ax = 4194304, stk = [1000, 7, 42]\<rparr> \<and>
   \<not> isFunctionRedirectorRegistered ARCH_64
       (fold (\<lambda>(n, f) m. addNewFunction ARCH_64 4194304 m n f \<lparr>names = [''f'', ''g'', ''h''], count = 3, redirectors = 65536\<rparr>)
         [(''g'', 1000), (''f'', 2000)] (\<lambda>_. 0)) ''h'' \<lparr>names = [''f'', ''g'', ''h''], count = 3, redirectors = 65536\<rparr>"
proof -
  let ?c = "\<lparr>names = [''f'', ''g'', ''h''], count = 3, redirectors = 65536\<rparr>"
  have "ctx_ok ARCH_64 ?c" by (simp add: ctx_ok_def)
  moreover from this have "\<forall>(n, f)\<in>set [(''g'', 1000), (''f'', 2000)]. isFunctionInFunctionList n ?c" "isFunctionInFunctionList ''h'' ?c"
    by (simp_all add: isFunctionInFunctionList_listed)
  moreover have "\<not> isFunctionRedirectorRegistered ARCH_64 (\<lambda>_. 0) ''h'' ?c"
    by (rule fresh_slot_unregistered, rule nth_equalityI) (simp_all add: load_def)
  ultimately show ?thesis
    using registered_redirectors_run [of ARCH_64 ?c "[(''g'', 1000), (''f'', 2000)]" "''g''" 1000 4194304 "\<lambda>_. 0" 7 "[42]"]
    by simp
qed

text \<open>A name is in the function list exactly when it is one of the configured names; for any
  other name the address computed lies past the end of the table, in the slot after the next.\<close>

lemma unlisted_name_address:
  assumes "ctx_ok A c"
  shows "(isFunctionInFunctionList n c \<longleftrightarrow> n \<in> set (names c))
    \<and> unat (getRedirectorAddressForName A n c) =
        (if n \<in> set (names c) then unat (redirectors c) + unat (REDIRECTOR_SIZE A) * slot_index n c
         else unat (redirectors c) + unat (REDIRECTOR_SIZE A) * (length (names c) + 1))
    \<and> (n \<in> set (names c) \<longleftrightarrow> slot_index n c < length (names c))"
proof -
  have "unat (REDIRECTOR_SIZE A) * slot_index n c \<le> unat (REDIRECTOR_SIZE A) * (length (names c) + 2)"
    using slot_index_bound [of n c] by (intro mult_le_mono2) simp
  moreover have "unat (redirectors c) + unat (REDIRECTOR_SIZE A) * (length (names c) + 2) \<le> address_limit A"
    "address_limit A < 2 ^ 64"
    using assms unfolding ctx_ok_def by (blast, cases A) simp_all
  ultimately have "unat (getRedirectorAddressForName A n c) =
      unat (redirectors c) + unat (REDIRECTOR_SIZE A) * slot_index n c"
    unfolding slot_addr [OF assms] by (intro unat_offset) linarith
  then show ?thesis
    using isFunctionInFunctionList_listed [OF assms, of n] slot_index_listed [of n c] slot_index_unlisted [of n c]
    by fastforce
qed

end
