(* ===== verification/X86_Machine.thy ===== *)
theory X86_Machine
  imports Redirector
begin

text \<open>
  The instructions that the wrappers of \<^verbatim>\<open>libelfperf\<close> are written in, for x86 and x86-64 at once:
  the width of a register and of a stack cell is the length of the word type. Memory is a function
  from addresses to cells; it is exact for code, like these wrappers, whose memory accesses are all
  at multiples of the cell size from the stack pointer. A second machine keeps the stack as a list
  of cells; the simulation theorem shows that it describes the first.
\<close>

section \<open>State and instructions\<close>

datatype reg = AX | BX | CX | DX | SI | DI | BP | R8 | R9 | R10 | R11 | R12 | R13 | R14 | R15

text \<open>The C functions that the wrappers call.\<close>

datatype cfun = PreProfile | PostProfile

datatype 'a instr =
    PUSHR reg                \<comment> \<open>\<open>push %r\<close>\<close>
  | PUSHI 'a                 \<comment> \<open>\<open>push $i\<close>\<close>
  | PUSHM nat                \<comment> \<open>\<open>push d(%sp)\<close>\<close>
  | POPR reg                 \<comment> \<open>\<open>pop %r\<close>\<close>
  | PUSHAL                   \<comment> \<open>\<open>pushal\<close>\<close>
  | POPAL                    \<comment> \<open>\<open>popal\<close>\<close>
  | MOV_SP_BP                \<comment> \<open>\<open>mov %sp, %bp\<close>\<close>
  | LOAD nat reg             \<comment> \<open>\<open>mov d(%sp), %r\<close>\<close>
  | STORE reg nat            \<comment> \<open>\<open>mov %r, d(%sp)\<close>\<close>
  | STORE_RP nat             \<comment> \<open>\<open>mov $wrapper_rp, d(%sp)\<close>\<close>
  | LEA_RP reg               \<comment> \<open>\<open>lea wrapper_rp(%rip), %r\<close>\<close>
  | XCHG_TOP reg             \<comment> \<open>\<open>xchg %r, (%sp)\<close>\<close>
  | SUB_SP nat               \<comment> \<open>\<open>sub $n, %sp\<close>\<close>
  | ADD_SP nat               \<comment> \<open>\<open>add $n, %sp\<close>\<close>
  | MOVDQU_ST nat            \<comment> \<open>\<open>movdqu %xmmN, (%sp)\<close>\<close>
  | MOVDQU_LD nat            \<comment> \<open>\<open>movdqu (%sp), %xmmN\<close>\<close>
  | CALL cfun                \<comment> \<open>\<open>call f\<close>\<close>
  | RET                      \<comment> \<open>\<open>ret\<close>\<close>

record ('w, 'p) mstate =
  m_regs :: "reg \<Rightarrow> 'w"
  m_sp :: "'w"
  m_xmm :: "nat \<Rightarrow> 'w \<times> 'w"
  m_mem :: "'w \<Rightarrow> 'w"
  m_ip :: "'w"
  m_prof :: 'p

text \<open>
  What the machine does not determine: the effect of the two C functions on the state \<open>'p\<close> of the
  profiler, and, as far as the calling convention leaves it open, what a call leaves in registers
  and memory. The convention: callee-saved registers keep their values, and so do the \<open>e_frame\<close>
  cells from the stack pointer on, except the argument cells, which on x86 belong to the callee.
\<close>

record ('w, 'p) cenv =
  e_arch :: arch
  e_pre :: "'w \<Rightarrow> 'w \<Rightarrow> 'p \<Rightarrow> 'p"
  e_post :: "'p \<Rightarrow> 'w \<times> 'p"
  e_regs :: "reg \<Rightarrow> 'w"
  e_xmm :: "nat \<Rightarrow> 'w \<times> 'w"
  e_mem :: "'w \<Rightarrow> 'w"
  e_frame :: nat
  e_rp :: "'w"

fun callee_saved :: "arch \<Rightarrow> reg \<Rightarrow> bool" where
  "callee_saved ARCH_32 r \<longleftrightarrow> r \<in> {BX, SI, DI, BP}"
| "callee_saved ARCH_64 r \<longleftrightarrow> r \<in> {BX, BP, R12, R13, R14, R15}"

definition cell :: "'a::len itself \<Rightarrow> nat" where
  "cell T = LENGTH('a) div 8"

text \<open>The address of the \<open>i\<close>-th cell from an address.\<close>

definition cell_at :: "'a::len word \<Rightarrow> nat \<Rightarrow> 'a word" where
  "cell_at a i = a + of_nat (cell TYPE('a) * i)"

definition push :: "'a::len word \<Rightarrow> ('a word, 'p) mstate \<Rightarrow> ('a word, 'p) mstate" where
  "push v s = s\<lparr>m_sp := m_sp s - of_nat (cell TYPE('a)),
                m_mem := (m_mem s)(m_sp s - of_nat (cell TYPE('a)) := v)\<rparr>"

text \<open>The number of argument cells of a call on the stack.\<close>

fun stack_args :: "arch \<Rightarrow> cfun \<Rightarrow> nat" where
  "stack_args ARCH_32 PreProfile = 2"
| "stack_args _ _ = 0"

definition call_prof :: "('a::len word, 'p) cenv \<Rightarrow> cfun \<Rightarrow> ('a word, 'p) mstate \<Rightarrow> 'p" where
  "call_prof E f s =
     (case f of
        PreProfile \<Rightarrow>
          (case e_arch E of
             ARCH_32 \<Rightarrow> e_pre E (m_mem s (cell_at (m_sp s) 0)) (m_mem s (cell_at (m_sp s) 1)) (m_prof s)
           | ARCH_64 \<Rightarrow> e_pre E (m_regs s DI) (m_regs s SI) (m_prof s))
      | PostProfile \<Rightarrow> snd (e_post E (m_prof s)))"

definition call_regs :: "('a::len word, 'p) cenv \<Rightarrow> cfun \<Rightarrow> 'p \<Rightarrow> (reg \<Rightarrow> 'a word) \<Rightarrow> reg \<Rightarrow> 'a word" where
  "call_regs E f p rs r =
     (if callee_saved (e_arch E) r then rs r
      else if f = PostProfile \<and> r = AX then fst (e_post E p)
      else e_regs E r)"

definition call :: "('a::len word, 'p) cenv \<Rightarrow> cfun \<Rightarrow> ('a word, 'p) mstate \<Rightarrow> ('a word, 'p) mstate" where
  "call E f s =
     s\<lparr>m_regs := call_regs E f (m_prof s) (m_regs s),
       m_xmm := e_xmm E,
       m_mem := (\<lambda>a. if \<exists>i \<in> {stack_args (e_arch E) f..<e_frame E}. a = cell_at (m_sp s) i
                     then m_mem s a else e_mem E a),
       m_prof := call_prof E f s\<rparr>"

section \<open>Execution\<close>

fun step :: "('a::len word, 'p) cenv \<Rightarrow> 'a word instr \<Rightarrow> ('a word, 'p) mstate \<Rightarrow> ('a word, 'p) mstate" where
  "step E (PUSHR r) s = push (m_regs s r) s"
| "step E (PUSHI v) s = push v s"
| "step E (PUSHM d) s = push (m_mem s (m_sp s + of_nat d)) s"
| "step E (POPR r) s = s\<lparr>m_regs := (m_regs s)(r := m_mem s (m_sp s)), m_sp := m_sp s + of_nat (cell TYPE('a))\<rparr>"
| "step E PUSHAL s =
     push (m_regs s DI) (push (m_regs s SI) (push (m_regs s BP) (push (m_sp s)
       (push (m_regs s BX) (push (m_regs s DX) (push (m_regs s CX) (push (m_regs s AX) s)))))))"
| "step E POPAL s =
     s\<lparr>m_regs := (m_regs s)(DI := m_mem s (cell_at (m_sp s) 0), SI := m_mem s (cell_at (m_sp s) 1),
                             BP := m_mem s (cell_at (m_sp s) 2), BX := m_mem s (cell_at (m_sp s) 4),
                             DX := m_mem s (cell_at (m_sp s) 5), CX := m_mem s (cell_at (m_sp s) 6),
                             AX := m_mem s (cell_at (m_sp s) 7)),
       m_sp := cell_at (m_sp s) 8\<rparr>"
| "step E MOV_SP_BP s = s\<lparr>m_regs := (m_regs s)(BP := m_sp s)\<rparr>"
| "step E (LOAD d r) s = s\<lparr>m_regs := (m_regs s)(r := m_mem s (m_sp s + of_nat d))\<rparr>"
| "step E (STORE r d) s = s\<lparr>m_mem := (m_mem s)(m_sp s + of_nat d := m_regs s r)\<rparr>"
| "step E (STORE_RP d) s = s\<lparr>m_mem := (m_mem s)(m_sp s + of_nat d := e_rp E)\<rparr>"
| "step E (LEA_RP r) s = s\<lparr>m_regs := (m_regs s)(r := e_rp E)\<rparr>"
| "step E (XCHG_TOP r) s = s\<lparr>m_regs := (m_regs s)(r := m_mem s (m_sp s)), m_mem := (m_mem s)(m_sp s := m_regs s r)\<rparr>"
| "step E (SUB_SP n) s = s\<lparr>m_sp := m_sp s - of_nat n\<rparr>"
| "step E (ADD_SP n) s = s\<lparr>m_sp := m_sp s + of_nat n\<rparr>"
| "step E (MOVDQU_ST k) s = s\<lparr>m_mem := (m_mem s)(m_sp s := fst (m_xmm s k), cell_at (m_sp s) 1 := snd (m_xmm s k))\<rparr>"
| "step E (MOVDQU_LD k) s = s\<lparr>m_xmm := (m_xmm s)(k := (m_mem s (m_sp s), m_mem s (cell_at (m_sp s) 1)))\<rparr>"
| "step E (CALL f) s = call E f s"
| "step E RET s = s\<lparr>m_ip := m_mem s (m_sp s), m_sp := m_sp s + of_nat (cell TYPE('a))\<rparr>"

definition exec :: "('a::len word, 'p) cenv \<Rightarrow> 'a word instr list \<Rightarrow> ('a word, 'p) mstate \<Rightarrow> ('a word, 'p) mstate" where
  "exec E is s = fold (step E) is s"


section \<open>The stack as a list\<close>

text \<open>
  The same machine with the stack as a list of cells, the top first; a cell is \<open>None\<close> when its
  content is not known. The machine is stuck when an instruction reads an unknown cell, leaves the
  list, is not aligned to a cell, or pushes more than \<open>e_frame\<close> cells.
\<close>

record ('w, 'p) astate =
  a_regs :: "reg \<Rightarrow> 'w"
  a_sp :: 'w
  a_xmm :: "nat \<Rightarrow> 'w \<times> 'w"
  a_stk :: "'w option list"
  a_ip :: 'w
  a_prof :: 'p

definition apush :: "('a::len word, 'p) cenv \<Rightarrow> 'a word \<Rightarrow> ('a word, 'p) astate \<Rightarrow> ('a word, 'p) astate option" where
  "apush E v a =
     (if length (a_stk a) < e_frame E
      then Some (a\<lparr>a_sp := a_sp a - of_nat (cell TYPE('a)), a_stk := Some v # a_stk a\<rparr>)
      else None)"

text \<open>The cell at byte offset \<open>d\<close> from the stack pointer.\<close>

definition acell :: "'a::len itself \<Rightarrow> 'a word option list \<Rightarrow> nat \<Rightarrow> 'a word option" where
  "acell T cs d =
     (if cell T dvd d \<and> d div cell T < length cs then cs ! (d div cell T) else None)"

definition awrite :: "'a::len word \<Rightarrow> nat \<Rightarrow> ('a word, 'p) astate \<Rightarrow> ('a word, 'p) astate option" where
  "awrite v d a =
     (if cell TYPE('a) dvd d \<and> d div cell TYPE('a) < length (a_stk a)
      then Some (a\<lparr>a_stk := (a_stk a)[d div cell TYPE('a) := Some v]\<rparr>) else None)"

definition apops :: "nat \<Rightarrow> ('a::len word, 'p) astate \<Rightarrow> ('a word, 'p) astate" where
  "apops n a = a\<lparr>a_sp := cell_at (a_sp a) n, a_stk := drop n (a_stk a)\<rparr>"

definition acall :: "('a::len word, 'p) cenv \<Rightarrow> cfun \<Rightarrow> ('a word, 'p) astate \<Rightarrow> ('a word, 'p) astate option" where
  "acall E f a =
     (let k = stack_args (e_arch E) f;
          args = (if f = PreProfile
                  then (case e_arch E of
                          ARCH_32 \<Rightarrow> (case a_stk a of Some x # Some y # _ \<Rightarrow> Some (x, y) | _ \<Rightarrow> None)
                        | ARCH_64 \<Rightarrow> Some (a_regs a DI, a_regs a SI))
                  else Some (0, 0))
      in case args of
           None \<Rightarrow> None
         | Some (x, y) \<Rightarrow>
             if k \<le> length (a_stk a) \<and> length (a_stk a) \<le> e_frame E
             then Some (a\<lparr>a_regs := call_regs E f (a_prof a) (a_regs a), a_xmm := e_xmm E,
                          a_stk := replicate k None @ drop k (a_stk a),
                          a_prof := (case f of PreProfile \<Rightarrow> e_pre E x y (a_prof a)
                                     | PostProfile \<Rightarrow> snd (e_post E (a_prof a)))\<rparr>)
             else None)"

fun astep :: "('a::len word, 'p) cenv \<Rightarrow> 'a word instr \<Rightarrow> ('a word, 'p) astate \<Rightarrow> ('a word, 'p) astate option" where
  "astep E (PUSHR r) a = apush E (a_regs a r) a"
| "astep E (PUSHI v) a = apush E v a"
| "astep E (PUSHM d) a = Option.bind (acell TYPE('a) (a_stk a) d) (\<lambda>v. apush E v a)"
| "astep E (POPR r) a =
     Option.bind (acell TYPE('a) (a_stk a) 0) (\<lambda>v. Some (apops 1 (a\<lparr>a_regs := (a_regs a)(r := v)\<rparr>)))"
| "astep E PUSHAL a =
     Option.bind (apush E (a_regs a AX) a) (\<lambda>a1. Option.bind (apush E (a_regs a CX) a1) (\<lambda>a2.
     Option.bind (apush E (a_regs a DX) a2) (\<lambda>a3. Option.bind (apush E (a_regs a BX) a3) (\<lambda>a4.
     Option.bind (apush E (a_sp a) a4) (\<lambda>a5. Option.bind (apush E (a_regs a BP) a5) (\<lambda>a6.
     Option.bind (apush E (a_regs a SI) a6) (\<lambda>a7. apush E (a_regs a DI) a7)))))))"
| "astep E POPAL a =
     (case a_stk a of
        Some vdi # Some vsi # Some vbp # _ # Some vbx # Some vdx # Some vcx # Some vax # _ \<Rightarrow>
          Some (apops 8 (a\<lparr>a_regs := (a_regs a)(DI := vdi, SI := vsi, BP := vbp, BX := vbx,
                                                DX := vdx, CX := vcx, AX := vax)\<rparr>))
      | _ \<Rightarrow> None)"
| "astep E MOV_SP_BP a = Some (a\<lparr>a_regs := (a_regs a)(BP := a_sp a)\<rparr>)"
| "astep E (LOAD d r) a =
     Option.bind (acell TYPE('a) (a_stk a) d) (\<lambda>v. Some (a\<lparr>a_regs := (a_regs a)(r := v)\<rparr>))"
| "astep E (STORE r d) a = awrite (a_regs a r) d a"
| "astep E (STORE_RP d) a = awrite (e_rp E) d a"
| "astep E (LEA_RP r) a = Some (a\<lparr>a_regs := (a_regs a)(r := e_rp E)\<rparr>)"
| "astep E (XCHG_TOP r) a =
     Option.bind (acell TYPE('a) (a_stk a) 0)
       (\<lambda>v. awrite (a_regs a r) 0 (a\<lparr>a_regs := (a_regs a)(r := v)\<rparr>))"
| "astep E (SUB_SP n) a =
     (if cell TYPE('a) dvd n \<and> length (a_stk a) + n div cell TYPE('a) \<le> e_frame E
      then Some (a\<lparr>a_sp := a_sp a - of_nat n, a_stk := replicate (n div cell TYPE('a)) None @ a_stk a\<rparr>)
      else None)"
| "astep E (ADD_SP n) a =
     (if cell TYPE('a) dvd n \<and> n div cell TYPE('a) \<le> length (a_stk a)
      then Some (apops (n div cell TYPE('a)) a) else None)"
| "astep E (MOVDQU_ST k) a =
     Option.bind (awrite (fst (a_xmm a k)) 0 a) (\<lambda>a1. awrite (snd (a_xmm a k)) (cell TYPE('a)) a1)"
| "astep E (MOVDQU_LD k) a =
     Option.bind (acell TYPE('a) (a_stk a) 0) (\<lambda>x.
     Option.bind (acell TYPE('a) (a_stk a) (cell TYPE('a))) (\<lambda>y.
       Some (a\<lparr>a_xmm := (a_xmm a)(k := (x, y))\<rparr>)))"
| "astep E (CALL f) a = acall E f a"
| "astep E RET a =
     Option.bind (acell TYPE('a) (a_stk a) 0) (\<lambda>v. Some (apops 1 (a\<lparr>a_ip := v\<rparr>)))"

fun aexec :: "('a::len word, 'p) cenv \<Rightarrow> 'a word instr list \<Rightarrow> ('a word, 'p) astate \<Rightarrow> ('a word, 'p) astate option" where
  "aexec E [] a = Some a"
| "aexec E (i # is) a = Option.bind (astep E i a) (aexec E is)"

text \<open>What a list of cells says about a memory.\<close>

definition stack_at :: "('a::len word \<Rightarrow> 'a word) \<Rightarrow> 'a word \<Rightarrow> 'a word option list \<Rightarrow> bool" where
  "stack_at mem a cs \<longleftrightarrow> (\<forall>i < length cs. \<forall>v. cs ! i = Some v \<longrightarrow> mem (cell_at a i) = v)"

definition frame_ok :: "('a::len word, 'p) cenv \<Rightarrow> bool" where
  "frame_ok E \<longleftrightarrow> 0 < cell TYPE('a) \<and> cell TYPE('a) * e_frame E < 2 ^ LENGTH('a)"

definition sim :: "('a::len word, 'p) cenv \<Rightarrow> ('a word, 'p) mstate \<Rightarrow> ('a word, 'p) astate \<Rightarrow> bool" where
  "sim E s a \<longleftrightarrow>
     m_regs s = a_regs a \<and> m_sp s = a_sp a \<and> m_xmm s = a_xmm a \<and> m_ip s = a_ip a \<and>
     m_prof s = a_prof a \<and> length (a_stk a) \<le> e_frame E \<and> stack_at (m_mem s) (a_sp a) (a_stk a)"


section \<open>Simulation\<close>

lemma cell_at_0 [simp]: "cell_at a 0 = a"
  by (simp add: cell_at_def)

lemma cell_at_add: "cell_at (cell_at a i) j = cell_at (a :: 'a::len word) (i + j)"
  by (simp add: cell_at_def algebra_simps)

lemma cell_at_Suc: "cell_at (a :: 'a::len word) (Suc i) = cell_at (a + of_nat (cell TYPE('a))) i"
  by (simp add: cell_at_def algebra_simps)

lemma offset_cell:
  "cell TYPE('a::len) dvd d \<Longrightarrow> (a :: 'a word) + of_nat d = cell_at a (d div cell TYPE('a))"
  by (auto simp: cell_at_def)

lemma cell_at_inj:
  assumes "0 < cell TYPE('a::len)" "cell TYPE('a) * i < 2 ^ LENGTH('a)" "cell TYPE('a) * j < 2 ^ LENGTH('a)"
  shows "cell_at (a :: 'a word) i = cell_at a j \<longleftrightarrow> i = j"
proof -
  have "cell_at a i = cell_at a j \<longleftrightarrow>
        (of_nat (cell TYPE('a) * i) :: 'a word) = of_nat (cell TYPE('a) * j)"
    by (simp add: cell_at_def)
  also have "\<dots> \<longleftrightarrow> cell TYPE('a) * i = cell TYPE('a) * j"
    using assms by (simp only: word_unat_eq_iff unat_of_nat take_bit_nat_eq_self mod_less take_bit_eq_mod)
  finally show ?thesis using assms(1) by simp
qed

lemma frame_inj:
  assumes "frame_ok (E :: ('a::len word, 'p) cenv)" "i \<le> e_frame E" "j \<le> e_frame E"
  shows "cell_at (a :: 'a word) i = cell_at a j \<longleftrightarrow> i = j"
proof (rule cell_at_inj)
  have "cell TYPE('a) * k < 2 ^ LENGTH('a)" if "k \<le> e_frame E" for k
    using assms(1) mult_le_mono2 [OF that, of "cell TYPE('a)"] unfolding frame_ok_def
    by (meson le_less_trans)
  then show "cell TYPE('a) * i < 2 ^ LENGTH('a)" "cell TYPE('a) * j < 2 ^ LENGTH('a)"
    using assms by auto
qed (use assms(1) in \<open>simp add: frame_ok_def\<close>)

lemma stack_at_nth: "stack_at mem a cs \<Longrightarrow> i < length cs \<Longrightarrow> cs ! i = Some v \<Longrightarrow> mem (cell_at a i) = v"
  by (simp add: stack_at_def)

lemma stack_at_drop: "stack_at mem a cs \<Longrightarrow> stack_at mem (cell_at a n) (drop n cs)"
  by (auto simp: stack_at_def cell_at_add)

lemma stack_at_update:
  assumes "stack_at mem a cs" "frame_ok (E :: ('a::len word, 'p) cenv)" "length cs \<le> e_frame E"
    and "i < length cs"
  shows "stack_at (mem(cell_at (a :: 'a word) i := v)) a (cs[i := Some v])"
  using assms(1,3,4) frame_inj [OF assms(2), of _ i a]
  by (auto simp: stack_at_def nth_list_update)

lemma cell_at_below: "cell_at ((a :: 'a::len word) - of_nat (cell TYPE('a) * n)) n = a"
  by (simp add: cell_at_def)

lemma stack_at_grow:
  assumes "stack_at mem a cs"
  shows "stack_at mem ((a :: 'a::len word) - of_nat (cell TYPE('a) * n)) (replicate n None @ cs)"
proof -
  have "cell_at (a - of_nat (cell TYPE('a) * n)) (n + j) = cell_at a j" for j
    using cell_at_add [of "a - of_nat (cell TYPE('a) * n)" n j] by (simp only: cell_at_below)
  then show ?thesis
    using assms by (auto simp: stack_at_def nth_append not_less le_iff_add)
qed

lemma stack_at_push:
  assumes "stack_at mem a cs" "frame_ok (E :: ('a::len word, 'p) cenv)" "length cs < e_frame E"
  shows "stack_at (mem((a :: 'a word) - of_nat (cell TYPE('a)) := v)) (a - of_nat (cell TYPE('a))) (Some v # cs)"
  using stack_at_update [OF stack_at_grow [OF assms(1), of 1] assms(2), of 0 v] assms(3) by simp

lemma stack_at_call:
  assumes "stack_at mem a cs" "length cs \<le> F" "k \<le> length cs"
  shows "stack_at (\<lambda>x. if \<exists>i \<in> {k..<F}. x = cell_at a i then mem x else other x) a
           (replicate k None @ drop k cs)"
  using assms by (force simp: stack_at_def nth_append not_less le_iff_add)


lemma sim_push:
  assumes "frame_ok E" "sim E s a" "apush E v a = Some a'"
  shows "sim E (push v s) a'"
  using assms stack_at_push [of "m_mem s" "a_sp a" "a_stk a" E v]
  by (auto simp: sim_def apush_def push_def split: if_splits)

lemma sim_read:
  assumes "sim (E :: ('a::len word, 'p) cenv) s a" "acell TYPE('a) (a_stk a) d = Some v"
  shows "m_mem s (m_sp s + of_nat d) = v"
  using assms stack_at_nth [of "m_mem s" "a_sp a" "a_stk a" "d div cell TYPE('a)" v]
  by (auto simp: sim_def acell_def offset_cell split: if_splits)

lemma sim_write:
  assumes "frame_ok (E :: ('a::len word, 'p) cenv)" "sim E s a" "awrite v d a = Some a'"
  shows "sim E (s\<lparr>m_mem := (m_mem s)(m_sp s + of_nat d := v)\<rparr>) a'"
  using assms stack_at_update [of "m_mem s" "a_sp a" "a_stk a" E "d div cell TYPE('a)" v]
  by (auto simp: sim_def awrite_def offset_cell split: if_splits)

lemma sim_pops:
  assumes "sim (E :: ('a::len word, 'p) cenv) s a"
  shows "sim E (s\<lparr>m_sp := cell_at (m_sp s) n\<rparr>) (apops n a)"
  using assms stack_at_drop [of "m_mem s" "a_sp a" "a_stk a" n]
  by (auto simp: sim_def apops_def)

lemma sim_reg: "sim E s a \<Longrightarrow> sim E (s\<lparr>m_regs := (m_regs s)(r := v)\<rparr>) (a\<lparr>a_regs := (a_regs a)(r := v)\<rparr>)"
  by (simp add: sim_def)

lemma sim_fields:
  assumes "sim E s a"
  shows "m_regs s = a_regs a" "m_sp s = a_sp a" "m_xmm s = a_xmm a" "m_prof s = a_prof a"
    "stack_at (m_mem s) (a_sp a) (a_stk a)"
  using assms by (auto simp: sim_def)

lemma sim_call:
  assumes "sim (E :: ('a::len word, 'p) cenv) s a" "acall E f a = Some a'"
  shows "sim E (call E f s) a'"
proof -
  have "stack_at (\<lambda>x. if \<exists>i \<in> {stack_args (e_arch E) f..<e_frame E}. x = cell_at (a_sp a) i
                      then m_mem s x else e_mem E x) (a_sp a)
          (replicate (stack_args (e_arch E) f) None @ drop (stack_args (e_arch E) f) (a_stk a))"
    if "length (a_stk a) \<le> e_frame E" "stack_args (e_arch E) f \<le> length (a_stk a)"
    using stack_at_call [OF sim_fields(5) [OF assms(1)] that] by simp
  moreover have "m_mem s (cell_at (a_sp a) 0) = x \<and> m_mem s (cell_at (a_sp a) 1) = y"
    if "a_stk a = Some x # Some y # zs" for x y zs
    using sim_fields(5) [OF assms(1)] that by (force simp: stack_at_def)
  ultimately show ?thesis
    using assms sim_fields [OF assms(1)]
    by (auto simp: sim_def acall_def call_def call_prof_def Let_def
             split: if_splits option.splits cfun.splits arch.splits list.splits)
qed


lemma sim_pushal:
  assumes "frame_ok E" "sim E s a" "astep E PUSHAL a = Some a'"
  shows "sim E (step E PUSHAL s) a'"
  using assms sim_fields [OF assms(2)]
  by (auto simp: bind_eq_Some_conv intro!: sim_push)

lemma sim_popal:
  assumes "sim E s a" "astep E POPAL a = Some a'"
  shows "sim E (step E POPAL s) a'"
proof -
  obtain di si bp x bx dx cx ax zs where st:
      "a_stk a = Some di # Some si # Some bp # x # Some bx # Some dx # Some cx # Some ax # zs"
    using assms(2) by (auto split: list.splits option.splits)
  have "m_mem s (cell_at (m_sp s) i) = v" if "i < 8" "a_stk a ! i = Some v" for i v
    using that stack_at_nth [OF sim_fields(5) [OF assms(1)], of i v] sim_fields [OF assms(1)]
    by (simp add: st)
  note cells = this [of 0] this [of 1] this [of 2] this [of 4] this [of 5] this [of 6] this [of 7]
  show ?thesis
    using assms sim_pops [OF assms(1), of 8] cells
    by (auto simp: st sim_def apops_def)
qed

lemma step_simulation:
  assumes "frame_ok E" "sim E s a" "astep E i a = Some a'"
  shows "sim (E :: ('a::len word, 'p) cenv) (step E i s) a'"
proof (cases i)
  case (SUB_SP n)
  then show ?thesis
    using assms stack_at_grow [OF sim_fields(5) [OF assms(2)], of "n div cell TYPE('a)"]
    by (auto simp: sim_def split: if_splits)
next
  case (MOVDQU_ST k)
  then obtain a1 where a1: "awrite (fst (a_xmm a k)) 0 a = Some a1"
    "awrite (snd (a_xmm a k)) (cell TYPE('a)) a1 = Some a'"
    using assms(3) by (auto simp: bind_eq_Some_conv)
  then show ?thesis
    using sim_write [OF assms(1) sim_write [OF assms(1,2) a1(1)] a1(2)] sim_fields [OF assms(2)]
    by (simp add: MOVDQU_ST cell_at_def)
next
  case (MOVDQU_LD k)
  then show ?thesis
    using assms sim_read [OF assms(2), of 0] sim_read [OF assms(2), of "cell TYPE('a)"]
      sim_fields [OF assms(2)]
    by (auto simp: sim_def cell_at_def bind_eq_Some_conv)
next
  case (XCHG_TOP r)
  then obtain v where v: "acell TYPE('a) (a_stk a) 0 = Some v"
    "awrite (a_regs a r) 0 (a\<lparr>a_regs := (a_regs a)(r := v)\<rparr>) = Some a'"
    using assms(3) by (auto simp: bind_eq_Some_conv)
  then show ?thesis
    using sim_write [OF assms(1) sim_reg [OF assms(2)] v(2)] sim_read [OF assms(2) v(1)]
      sim_fields [OF assms(2)]
    by (simp add: XCHG_TOP)
next
  case (ADD_SP n)
  then show ?thesis
    using assms sim_pops [OF assms(2), of "n div cell TYPE('a)"]
    by (auto simp: offset_cell split: if_splits)
next
  case (PUSHM d)
  then show ?thesis
    using assms sim_read [OF assms(2)] by (auto simp: bind_eq_Some_conv intro: sim_push)
next
  case (POPR r)
  then show ?thesis
    using assms sim_pops [OF sim_reg [OF assms(2)], where n = 1] sim_read [OF assms(2), of 0]
    by (auto simp: bind_eq_Some_conv cell_at_def)
next
  case (LOAD d r)
  then show ?thesis
    using assms sim_reg [OF assms(2)] sim_read [OF assms(2)] by (auto simp: bind_eq_Some_conv)
next
  case MOV_SP_BP
  then show ?thesis using assms sim_reg [OF assms(2)] sim_fields [OF assms(2)] by auto
next
  case (LEA_RP r)
  then show ?thesis using assms sim_reg [OF assms(2)] by auto
next
  case RET
  have "sim E (s\<lparr>m_ip := v\<rparr>) (a\<lparr>a_ip := v\<rparr>)" for v
    using assms(2) by (simp add: sim_def)
  from sim_pops [OF this, where n = 1] show ?thesis
    using assms sim_read [OF assms(2), of 0] by (auto simp: RET bind_eq_Some_conv cell_at_def)
qed (use assms sim_fields [OF assms(2)] sim_write [OF assms(1,2)] in
      \<open>auto simp del: step.simps(5,6) astep.simps(5,6) intro: sim_push sim_pushal sim_popal sim_call\<close>)

lemma exec_Nil [simp]: "exec E [] s = s"
  by (simp add: exec_def)

lemma exec_Cons [simp]: "exec E (i # is) s = exec E is (step E i s)"
  by (simp add: exec_def)

text \<open>Whatever the list machine computes is what the machine with memory computes.\<close>

lemma exec_simulation:
  assumes "frame_ok E" "sim E s a" "aexec E is a = Some a'"
  shows "sim E (exec E is s) a'"
  using assms(2,3)
proof (induction "is" arbitrary: s a)
  case (Cons i "is")
  then show ?case
    using step_simulation [OF assms(1)] by (fastforce simp: bind_eq_Some_conv)
qed simp


text \<open>The list that describes the \<open>n\<close> cells from an address on.\<close>

primrec cells_of :: "('a::len word \<Rightarrow> 'a word) \<Rightarrow> 'a word \<Rightarrow> nat \<Rightarrow> 'a word option list" where
  "cells_of mem a 0 = []"
| "cells_of mem a (Suc n) = Some (mem a) # cells_of mem (a + of_nat (cell TYPE('a))) n"

lemma length_cells_of [simp]: "length (cells_of mem a n) = n"
  by (induction n arbitrary: a) simp_all

lemma nth_cells_of: "i < n \<Longrightarrow> cells_of mem a n ! i = Some (mem (cell_at a i))"
proof (induction n arbitrary: a i)
  case (Suc n)
  then show ?case by (cases i) (simp_all add: cell_at_Suc)
qed simp

lemma stack_at_Cons:
  "stack_at mem a (Some v # cs) \<longleftrightarrow>
     mem (a :: 'a::len word) = v \<and> stack_at mem (a + of_nat (cell TYPE('a))) cs"
  by (auto simp: stack_at_def cell_at_Suc nth_Cons' gr0_conv_Suc All_less_Suc2)

lemma stack_at_cells_of:
  "stack_at mem a (cells_of mem' a n) \<longleftrightarrow> (\<forall>i < n. mem (cell_at a i) = mem' (cell_at a i))"
  by (simp add: stack_at_def nth_cells_of)

definition abs_state :: "nat \<Rightarrow> ('a::len word, 'p) mstate \<Rightarrow> ('a word, 'p) astate" where
  "abs_state n s = \<lparr>a_regs = m_regs s, a_sp = m_sp s, a_xmm = m_xmm s,
     a_stk = cells_of (m_mem s) (m_sp s) n, a_ip = m_ip s, a_prof = m_prof s\<rparr>"

lemma exec_abs:
  assumes "frame_ok E" "n \<le> e_frame E" "aexec E is (abs_state n s) = Some a'"
  shows "sim E (exec E is s) a'"
proof (rule exec_simulation [OF assms(1) _ assms(3)])
  show "sim E s (abs_state n s)"
    using assms(2) by (simp add: sim_def abs_state_def stack_at_cells_of)
qed

end
