(* ===== verification/Wrappers.thy ===== *)
theory Wrappers
  imports X86_Machine
begin

text \<open>
  The two halves of \<^verbatim>\<open>wrapper\<close> of \<^verbatim>\<open>libelfperf/libelfperf.c\<close> as instruction lists: the entry, which a
  redirector jumps to and which leaves for the profiled function, and the return point
  \<^verbatim>\<open>wrapper_rp\<close>, which the profiled function returns to. The first two instructions of an entry are
  the prologue that the compiler puts in front of the assembler block.
\<close>

section \<open>The programs\<close>

definition wrapper32_entry :: "u32 instr list" where
  "wrapper32_entry =
     [PUSHR BP, MOV_SP_BP,
      POPR BP,
      PUSHAL,
      PUSHM 32,
      PUSHM 40,
      CALL PreProfile,
      ADD_SP 8,
      STORE_RP 36,
      POPAL,
      RET]"

definition wrapper32_rp :: "u32 instr list" where
  "wrapper32_rp =
     [PUSHI 0,
      PUSHAL,
      CALL PostProfile,
      STORE AX 32,
      POPAL,
      RET]"

definition save_xmm :: "u64 instr list" where
  "save_xmm =
     [SUB_SP 16, MOVDQU_ST 0, SUB_SP 16, MOVDQU_ST 1, SUB_SP 16, MOVDQU_ST 2, SUB_SP 16, MOVDQU_ST 3,
      SUB_SP 16, MOVDQU_ST 4, SUB_SP 16, MOVDQU_ST 5, SUB_SP 16, MOVDQU_ST 6, SUB_SP 16, MOVDQU_ST 7]"

definition restore_xmm :: "u64 instr list" where
  "restore_xmm =
     [MOVDQU_LD 7, ADD_SP 16, MOVDQU_LD 6, ADD_SP 16, MOVDQU_LD 5, ADD_SP 16, MOVDQU_LD 4, ADD_SP 16,
      MOVDQU_LD 3, ADD_SP 16, MOVDQU_LD 2, ADD_SP 16, MOVDQU_LD 1, ADD_SP 16, MOVDQU_LD 0, ADD_SP 16]"

definition wrapper64_save :: "u64 instr list" where
  "wrapper64_save =
     [PUSHR BP, MOV_SP_BP,
      POPR BP,
      PUSHR DI, PUSHR SI,
      LOAD 32 DI, LOAD 16 SI,
      PUSHR BX, PUSHR CX, PUSHR DX, PUSHR R8, PUSHR R9, PUSHR R10, PUSHR R11,
      PUSHR R12, PUSHR R13, PUSHR R14, PUSHR R15] @ save_xmm"

definition wrapper64_leave :: "u64 instr list" where
  "wrapper64_leave =
     restore_xmm @
     [POPR R15, POPR R14, POPR R13, POPR R12, POPR R11, POPR R10, POPR R9, POPR R8,
      POPR DX, POPR CX, POPR BX, POPR SI, POPR DI,
      LEA_RP AX, STORE AX 16,
      POPR AX, XCHG_TOP AX,
      RET]"

definition wrapper64_entry :: "u64 instr list" where
  "wrapper64_entry = wrapper64_save @ [CALL PreProfile] @ wrapper64_leave"

definition wrapper64_rp_save :: "u64 instr list" where
  "wrapper64_rp_save =
     [PUSHI 0,
      PUSHR AX, PUSHR BX, PUSHR CX, PUSHR DX, PUSHR DI, PUSHR SI, PUSHR R8, PUSHR R9, PUSHR R10,
      PUSHR R11, PUSHR R12, PUSHR R13, PUSHR R14, PUSHR R15] @ save_xmm"

definition wrapper64_rp_leave :: "u64 instr list" where
  "wrapper64_rp_leave =
     restore_xmm @
     [POPR R15, POPR R14, POPR R13, POPR R12, POPR R11, POPR R10, POPR R9, POPR R8,
      POPR SI, POPR DI, POPR DX, POPR CX, POPR BX,
      STORE AX 8,
      POPR AX,
      RET]"

definition wrapper64_rp :: "u64 instr list" where
  "wrapper64_rp = wrapper64_rp_save @ [CALL PostProfile] @ wrapper64_rp_leave"

section \<open>Execution on the list machine\<close>

text \<open>The general-purpose registers of an x86 machine.\<close>

definition gpr32 :: "reg list" where
  "gpr32 = [AX, BX, CX, DX, SI, DI, BP]"

lemma cell_32 [simp]: "cell TYPE(32) = 4"
  by (simp add: cell_def)

lemma cell_64 [simp]: "cell TYPE(64) = 8"
  by (simp add: cell_def)

lemma aexec_append [simp]: "aexec E (xs @ ys) a = Option.bind (aexec E xs a) (aexec E ys)"
proof (induction xs arbitrary: a)
  case (Cons x xs)
  then have "aexec E (xs @ ys) = (\<lambda>a. Option.bind (aexec E xs a) (aexec E ys))"
    by (simp add: fun_eq_iff)
  then show ?case by (simp add: Option.bind_assoc)
qed simp

lemmas list_machine = apush_def acell_def awrite_def apops_def acall_def cell_at_def

lemma entry32_list:
  assumes "e_arch E = ARCH_32" "a_stk a = Some fcn # Some ret # rest" "length rest + 12 \<le> e_frame E"
  shows "\<exists>a'. aexec E wrapper32_entry a = Some a' \<and> a_ip a' = fcn \<and> a_sp a' = a_sp a + 4 \<and>
           a_stk a' = Some (e_rp E) # rest \<and> a_prof a' = e_pre E ret fcn (a_prof a) \<and>
           (\<forall>r \<in> set gpr32. a_regs a' r = a_regs a r)"
  using assms by (simp add: wrapper32_entry_def list_machine gpr32_def)


lemma rp32_list:
  assumes "e_arch E = ARCH_32" "length (a_stk a) + 9 \<le> e_frame E"
  shows "\<exists>a'. aexec E wrapper32_rp a = Some a' \<and> a_ip a' = fst (e_post E (a_prof a)) \<and>
           a_sp a' = a_sp a \<and> a_stk a' = a_stk a \<and> a_prof a' = snd (e_post E (a_prof a)) \<and>
           (\<forall>r \<in> set gpr32. a_regs a' r = a_regs a r)"
  using assms by (simp add: wrapper32_rp_def list_machine gpr32_def call_regs_def)

lemma replicate_2: "replicate 2 x = [x, x]"
  by (simp add: numeral_2_eq_2)

definition xmm_cells :: "(nat \<Rightarrow> 'w \<times> 'w) \<Rightarrow> 'w option list" where
  "xmm_cells x = concat (map (\<lambda>k. [Some (fst (x k)), Some (snd (x k))]) [7, 6, 5, 4, 3, 2, 1, 0])"

lemma save_xmm_list:
  assumes "length (a_stk a) + 16 \<le> e_frame E"
  shows "aexec E save_xmm a = Some (a\<lparr>a_sp := a_sp a - 128, a_stk := xmm_cells (a_xmm a) @ a_stk a\<rparr>)"
  using assms by (simp add: save_xmm_def list_machine xmm_cells_def replicate_2)


lemma upd_8:
  "f(7 := x 7, 6 := x 6, 5 := x 5, 4 := x 4, 3 := x 3, 2 := x 2, Suc 0 := x (Suc 0), 0 := x 0) =
     (\<lambda>k. if k < (8 :: nat) then x k else f k)"
proof
  fix k :: nat
  have "k < 8 \<longleftrightarrow> k \<in> {0, Suc 0, 2, 3, 4, 5, 6, 7}" by auto
  then show "(f(7 := x 7, 6 := x 6, 5 := x 5, 4 := x 4, 3 := x 3, 2 := x 2, Suc 0 := x (Suc 0), 0 := x 0)) k =
      (if k < 8 then x k else f k)" by auto
qed

lemma restore_xmm_list:
  assumes "a_stk a = xmm_cells x @ rest"
  shows "aexec E restore_xmm a =
           Some (a\<lparr>a_sp := a_sp a + 128, a_stk := rest,
                   a_xmm := (\<lambda>k. if k < 8 then x k else a_xmm a k)\<rparr>)"
  using assms by (simp add: restore_xmm_def list_machine xmm_cells_def upd_8)


text \<open>The registers of an x86-64 machine whose values the entry pushes, the top of the stack first.\<close>

definition entry_saved :: "reg list" where
  "entry_saved = [R15, R14, R13, R12, R11, R10, R9, R8, DX, CX, BX, SI, DI]"

definition rp_saved :: "reg list" where
  "rp_saved = [R15, R14, R13, R12, R11, R10, R9, R8, SI, DI, DX, CX, BX, AX]"

lemma entry64_save_list:
  assumes "a_stk a = Some fcn # Some ax0 # Some ret # rest" "length rest + 32 \<le> e_frame E"
  shows "aexec E wrapper64_save a =
           Some (a\<lparr>a_regs := (a_regs a)(DI := ret, SI := fcn), a_sp := a_sp a - 232,
                   a_stk := xmm_cells (a_xmm a) @ map (Some \<circ> a_regs a) entry_saved @ a_stk a\<rparr>)"
  using assms
  by (cases a) (simp add: wrapper64_save_def list_machine save_xmm_list entry_saved_def fun_upd_twist)

lemma entry64_leave_list:
  assumes "a_stk a = xmm_cells x @ map (Some \<circ> rs) entry_saved @ Some fcn # Some ax0 # Some ret # rest"
  shows "\<exists>a'. aexec E wrapper64_leave a = Some a' \<and> a_ip a' = fcn \<and> a_sp a' = a_sp a + 248 \<and>
           a_stk a' = Some (e_rp E) # rest \<and> a_prof a' = a_prof a \<and> a_regs a' AX = ax0 \<and>
           a_regs a' BP = a_regs a BP \<and> (\<forall>r \<in> set entry_saved. a_regs a' r = rs r) \<and>
           (\<forall>k < 8. a_xmm a' k = x k)"
  using assms
  by (cases a) (simp add: wrapper64_leave_def list_machine restore_xmm_list entry_saved_def)


lemma rp64_save_list:
  assumes "length (a_stk a) + 31 \<le> e_frame E"
  shows "aexec E wrapper64_rp_save a =
           Some (a\<lparr>a_sp := a_sp a - 248,
                   a_stk := xmm_cells (a_xmm a) @ map (Some \<circ> a_regs a) rp_saved @ Some 0 # a_stk a\<rparr>)"
  using assms by (cases a) (simp add: wrapper64_rp_save_def list_machine save_xmm_list rp_saved_def)

lemma rp64_leave_list:
  assumes "a_stk a = xmm_cells x @ map (Some \<circ> rs) rp_saved @ Some 0 # rest"
  shows "\<exists>a'. aexec E wrapper64_rp_leave a = Some a' \<and> a_ip a' = a_regs a AX \<and>
           a_sp a' = a_sp a + 248 \<and> a_stk a' = rest \<and> a_prof a' = a_prof a \<and>
           a_regs a' BP = a_regs a BP \<and> (\<forall>r \<in> set rp_saved. a_regs a' r = rs r) \<and>
           (\<forall>k < 8. a_xmm a' k = x k)"
  using assms
  by (cases a) (simp add: wrapper64_rp_leave_def list_machine restore_xmm_list rp_saved_def)

lemma acall_64:
  assumes "e_arch E = ARCH_64" "length (a_stk a) \<le> e_frame E"
  shows "acall E f a =
           Some (a\<lparr>a_regs := call_regs E f (a_prof a) (a_regs a), a_xmm := e_xmm E,
                   a_prof := (case f of PreProfile \<Rightarrow> e_pre E (a_regs a DI) (a_regs a SI) (a_prof a)
                              | PostProfile \<Rightarrow> snd (e_post E (a_prof a)))\<rparr>)"
  using assms by (cases f) (simp_all add: acall_def)

lemma length_xmm_cells [simp]: "length (xmm_cells x) = 16"
  by (simp add: xmm_cells_def)

lemma entry64_list:
  assumes "e_arch E = ARCH_64" "a_stk a = Some fcn # Some ax0 # Some ret # rest"
    and "length rest + 32 \<le> e_frame E"
  shows "\<exists>a'. aexec E wrapper64_entry a = Some a' \<and> a_ip a' = fcn \<and> a_sp a' = a_sp a + 16 \<and>
           a_stk a' = Some (e_rp E) # rest \<and> a_prof a' = e_pre E ret fcn (a_prof a) \<and>
           a_regs a' AX = ax0 \<and> (\<forall>r. r \<noteq> AX \<longrightarrow> a_regs a' r = a_regs a r) \<and>
           (\<forall>k < 8. a_xmm a' k = a_xmm a k)"
proof -
  define b where "b = a\<lparr>a_regs := call_regs E PreProfile (a_prof a) ((a_regs a)(DI := ret, SI := fcn)),
     a_xmm := e_xmm E, a_sp := a_sp a - 232, a_prof := e_pre E ret fcn (a_prof a),
     a_stk := xmm_cells (a_xmm a) @ map (Some \<circ> a_regs a) entry_saved @ a_stk a\<rparr>"
  have "aexec E (wrapper64_save @ [CALL PreProfile]) a = Some b"
    using assms by (simp add: entry64_save_list acall_64 b_def entry_saved_def)
  moreover have "a_regs b BP = a_regs a BP"
    using assms(1) by (simp add: b_def call_regs_def)
  moreover have "r \<in> set entry_saved \<or> r = BP \<or> r = AX" for r
    by (cases r) (simp_all add: entry_saved_def)
  ultimately show ?thesis
    using entry64_leave_list [of b "a_xmm a" "a_regs a" fcn ax0 ret rest E] assms(2)
    unfolding wrapper64_entry_def append_assoc [symmetric] aexec_append [of _ "wrapper64_save @ _"]
    by (fastforce simp: b_def)
qed

lemma rp64_list:
  assumes "e_arch E = ARCH_64" "length (a_stk a) + 31 \<le> e_frame E"
  shows "\<exists>a'. aexec E wrapper64_rp a = Some a' \<and> a_ip a' = fst (e_post E (a_prof a)) \<and>
           a_sp a' = a_sp a \<and> a_stk a' = a_stk a \<and> a_prof a' = snd (e_post E (a_prof a)) \<and>
           a_regs a' = a_regs a \<and> (\<forall>k < 8. a_xmm a' k = a_xmm a k)"
proof -
  define b where "b = a\<lparr>a_regs := call_regs E PostProfile (a_prof a) (a_regs a),
     a_xmm := e_xmm E, a_sp := a_sp a - 248, a_prof := snd (e_post E (a_prof a)),
     a_stk := xmm_cells (a_xmm a) @ map (Some \<circ> a_regs a) rp_saved @ Some 0 # a_stk a\<rparr>"
  have rp: "wrapper64_rp = (wrapper64_rp_save @ [CALL PostProfile]) @ wrapper64_rp_leave"
    by (simp add: wrapper64_rp_def)
  have "aexec E (wrapper64_rp_save @ [CALL PostProfile]) a = Some b"
    using assms by (simp add: rp64_save_list acall_64 b_def rp_saved_def)
  moreover have "a_regs b BP = a_regs a BP" "a_regs b AX = fst (e_post E (a_prof a))"
    using assms(1) by (simp_all add: b_def call_regs_def)
  moreover have "r \<in> set rp_saved \<or> r = BP" for r
    by (cases r) (simp_all add: rp_saved_def)
  ultimately show ?thesis
    using rp64_leave_list [of b "a_xmm a" "a_regs a" "a_stk a" E]
    unfolding rp aexec_append [of _ "wrapper64_rp_save @ _"]
    by (fastforce simp: b_def fun_eq_iff)
qed


section \<open>Execution on the machine\<close>

lemma frame_ok_32: "4 * e_frame (E :: (u32, 'p) cenv) < 2 ^ 32 \<Longrightarrow> frame_ok E"
  by (simp add: frame_ok_def)

lemma frame_ok_64: "8 * e_frame (E :: (u64, 'p) cenv) < 2 ^ 64 \<Longrightarrow> frame_ok E"
  by (simp add: frame_ok_def)

lemma cells_of_2: "cells_of mem a (n + 2) = Some (mem a) # Some (mem (a + 4)) # cells_of mem ((a :: u32) + 8) n"
  by (simp add: algebra_simps)

lemma cells_of_3:
  "cells_of mem a (n + 3) =
     Some (mem a) # Some (mem (a + 8)) # Some (mem (a + 16)) # cells_of mem ((a :: u64) + 24) n"
  by (simp add: numeral_3_eq_3 algebra_simps)

text \<open>The x86 entry of the wrapper, entered with the function's address on top of the stack and
  the return address below it: it calls \<^verbatim>\<open>preProfile\<close> with the return address and the function's
  address in that order, puts the return point in the place of the return address, leaves for the
  function with every general-purpose register as the caller left it and with the stack pointer at
  the return address, and keeps the caller's stack.\<close>

lemma entry32_exec:
  assumes "e_arch E = ARCH_32" "4 * e_frame E < 2 ^ 32" "n + 14 \<le> e_frame E"
  shows "let s' = exec E wrapper32_entry s; fcn = m_mem s (m_sp s); ret = m_mem s (m_sp s + 4) in
           m_ip s' = fcn \<and> m_sp s' = m_sp s + 4 \<and> m_mem s' (m_sp s') = e_rp E \<and>
           m_prof s' = e_pre E ret fcn (m_prof s) \<and>
           (\<forall>r \<in> set gpr32. m_regs s' r = m_regs s r) \<and>
           (\<forall>i < n. m_mem s' (cell_at (m_sp s + 8) i) = m_mem s (cell_at (m_sp s + 8) i))"
proof -
  obtain a' where a': "aexec E wrapper32_entry (abs_state (n + 2) s) = Some a'"
      "a_ip a' = m_mem s (m_sp s)" "a_sp a' = m_sp s + 4"
      "a_stk a' = Some (e_rp E) # cells_of (m_mem s) (m_sp s + 8) n"
      "a_prof a' = e_pre E (m_mem s (m_sp s + 4)) (m_mem s (m_sp s)) (m_prof s)"
      "\<forall>r \<in> set gpr32. a_regs a' r = m_regs s r"
    using entry32_list [OF assms(1), of "abs_state (n + 2) s" "m_mem s (m_sp s)" "m_mem s (m_sp s + 4)"
        "cells_of (m_mem s) (m_sp s + 8) n"] assms(3)
    by (auto simp: abs_state_def cells_of_2 simp del: cells_of.simps add_2_eq_Suc')
  have "sim E (exec E wrapper32_entry s) a'"
    using exec_abs [OF frame_ok_32 _ a'(1)] assms by simp
  then show ?thesis
    using a' by (simp add: sim_def stack_at_Cons stack_at_cells_of add.assoc)
qed

text \<open>The x86 return point, entered when the profiled function returns: it calls
  \<^verbatim>\<open>postProfile\<close> and returns to the address that this gives, with every general-purpose register, so
  also the function's result, the stack pointer and the caller's stack as the function left them.\<close>

lemma rp32_exec:
  assumes "e_arch E = ARCH_32" "4 * e_frame E < 2 ^ 32" "n + 9 \<le> e_frame E"
  shows "let s' = exec E wrapper32_rp s in
           m_ip s' = fst (e_post E (m_prof s)) \<and> m_sp s' = m_sp s \<and>
           m_prof s' = snd (e_post E (m_prof s)) \<and>
           (\<forall>r \<in> set gpr32. m_regs s' r = m_regs s r) \<and>
           (\<forall>i < n. m_mem s' (cell_at (m_sp s) i) = m_mem s (cell_at (m_sp s) i))"
proof -
  obtain a' where a': "aexec E wrapper32_rp (abs_state n s) = Some a'"
      "a_ip a' = fst (e_post E (m_prof s))" "a_sp a' = m_sp s"
      "a_stk a' = cells_of (m_mem s) (m_sp s) n" "a_prof a' = snd (e_post E (m_prof s))"
      "\<forall>r \<in> set gpr32. a_regs a' r = m_regs s r"
    using rp32_list [OF assms(1), of "abs_state n s"] assms(3) by (auto simp: abs_state_def)
  have "sim E (exec E wrapper32_rp s) a'"
    using exec_abs [OF frame_ok_32 _ a'(1)] assms by simp
  then show ?thesis
    using a' by (simp add: sim_def stack_at_cells_of)
qed

text \<open>The x86-64 entry of the wrapper, entered with the function's address, the caller's
  \<^verbatim>\<open>rax\<close> and the return address on the stack: as on x86, and also \<^verbatim>\<open>rax\<close> gets the caller's
  value back, every other register, those of the first six arguments included, and the vector
  registers \<^verbatim>\<open>xmm0\<close> to \<^verbatim>\<open>xmm7\<close> keep their values.\<close>

lemma entry64_exec:
  assumes "e_arch E = ARCH_64" "8 * e_frame E < 2 ^ 64" "n + 32 \<le> e_frame E"
  shows "let s' = exec E wrapper64_entry s; fcn = m_mem s (m_sp s); ret = m_mem s (m_sp s + 16) in
           m_ip s' = fcn \<and> m_sp s' = m_sp s + 16 \<and> m_mem s' (m_sp s') = e_rp E \<and>
           m_prof s' = e_pre E ret fcn (m_prof s) \<and>
           m_regs s' = (m_regs s)(AX := m_mem s (m_sp s + 8)) \<and>
           (\<forall>k < 8. m_xmm s' k = m_xmm s k) \<and>
           (\<forall>i < n. m_mem s' (cell_at (m_sp s + 24) i) = m_mem s (cell_at (m_sp s + 24) i))"
proof -
  obtain a' where a': "aexec E wrapper64_entry (abs_state (n + 3) s) = Some a'"
      "a_ip a' = m_mem s (m_sp s)" "a_sp a' = m_sp s + 16"
      "a_stk a' = Some (e_rp E) # cells_of (m_mem s) (m_sp s + 24) n"
      "a_prof a' = e_pre E (m_mem s (m_sp s + 16)) (m_mem s (m_sp s)) (m_prof s)"
      "a_regs a' AX = m_mem s (m_sp s + 8)" "\<forall>r. r \<noteq> AX \<longrightarrow> a_regs a' r = m_regs s r"
      "\<forall>k < 8. a_xmm a' k = m_xmm s k"
    using entry64_list [OF assms(1), of "abs_state (n + 3) s" "m_mem s (m_sp s)" "m_mem s (m_sp s + 8)"
        "m_mem s (m_sp s + 16)" "cells_of (m_mem s) (m_sp s + 24) n"] assms(3)
    by (auto simp: abs_state_def cells_of_3 simp del: cells_of.simps)
  have "sim E (exec E wrapper64_entry s) a'"
    using exec_abs [OF frame_ok_64 _ a'(1)] assms by simp
  then show ?thesis
    using a' by (auto simp: sim_def stack_at_Cons stack_at_cells_of add.assoc fun_eq_iff)
qed

text \<open>The x86-64 return point: as on x86, with every register, \<^verbatim>\<open>xmm0\<close> to \<^verbatim>\<open>xmm7\<close> included,
  as the function left it.\<close>

lemma rp64_exec:
  assumes "e_arch E = ARCH_64" "8 * e_frame E < 2 ^ 64" "n + 31 \<le> e_frame E"
  shows "let s' = exec E wrapper64_rp s in
           m_ip s' = fst (e_post E (m_prof s)) \<and> m_sp s' = m_sp s \<and>
           m_prof s' = snd (e_post E (m_prof s)) \<and> m_regs s' = m_regs s \<and>
           (\<forall>k < 8. m_xmm s' k = m_xmm s k) \<and>
           (\<forall>i < n. m_mem s' (cell_at (m_sp s) i) = m_mem s (cell_at (m_sp s) i))"
proof -
  obtain a' where a': "aexec E wrapper64_rp (abs_state n s) = Some a'"
      "a_ip a' = fst (e_post E (m_prof s))" "a_sp a' = m_sp s"
      "a_stk a' = cells_of (m_mem s) (m_sp s) n" "a_prof a' = snd (e_post E (m_prof s))"
      "a_regs a' = m_regs s" "\<forall>k < 8. a_xmm a' k = m_xmm s k"
    using rp64_list [OF assms(1), of "abs_state n s"] assms(3) by (auto simp: abs_state_def)
  have "sim E (exec E wrapper64_rp s) a'"
    using exec_abs [OF frame_ok_64 _ a'(1)] assms by simp
  then show ?thesis
    using a' by (simp add: sim_def stack_at_cells_of)
qed


section \<open>Alignment of the stack\<close>

text \<open>How far an instruction moves the stack pointer.\<close>

fun sp_change :: "u64 instr \<Rightarrow> int" where
  "sp_change (PUSHR r) = -8"
| "sp_change (PUSHI v) = -8"
| "sp_change (PUSHM d) = -8"
| "sp_change (POPR r) = 8"
| "sp_change PUSHAL = -64"
| "sp_change POPAL = 64"
| "sp_change (SUB_SP n) = - int n"
| "sp_change (ADD_SP n) = int n"
| "sp_change RET = 8"
| "sp_change _ = 0"

lemma step_sp: "m_sp (step E i s) = m_sp s + of_int (sp_change i)"
  by (cases i) (simp_all add: push_def call_def cell_at_def)

lemma exec_sp: "m_sp (exec E is s) = m_sp s + of_int (sum_list (map sp_change is))"
  by (induction "is" arbitrary: s) (simp_all add: step_sp)

lemma save_sp_change:
  "sum_list (map sp_change wrapper64_save) = -232" "sum_list (map sp_change wrapper64_rp_save) = -248"
  by (simp_all add: wrapper64_save_def wrapper64_rp_save_def save_xmm_def)

lemma save_sp:
  "m_sp (exec E wrapper64_save s) = m_sp s - 232" "m_sp (exec E wrapper64_rp_save s) = m_sp s - 248"
  unfolding exec_sp save_sp_change by simp_all

lemma sub_mod_16: "unat ((x :: u64) - y) mod 16 = (16 + unat x mod 16 - unat y mod 16) mod 16"
proof -
  have "int (unat (x - y)) mod 16 = (uint x - uint y) mod 2 ^ 64 mod 16"
    by (simp add: uint_word_ariths take_bit_eq_mod)
  also have "\<dots> = (uint x - uint y) mod 16"
    by (rule mod_mod_cancel) simp
  also have "\<dots> = (16 + uint x mod 16 - uint y mod 16) mod 16"
    by (simp only: mod_diff_eq mod_add_self1 add_diff_eq [symmetric])
  also have "16 + uint x mod 16 - uint y mod 16 = int (16 + unat x mod 16 - unat y mod 16)"
    using mod_less_divisor [of 16 "unat y"] by (simp add: of_nat_diff zmod_int)
  finally show ?thesis by (metis of_nat_eq_iff of_nat_numeral zmod_int)
qed

text \<open>The x86-64 convention asks for a stack pointer that is a multiple of 16 at a call. A
  function is entered 8 bytes below such an address, and the redirector pushes 16 bytes more: then
  the call of \<^verbatim>\<open>preProfile\<close> is aligned. At the return point the stack pointer is a multiple of 16
  again, and the call of \<^verbatim>\<open>postProfile\<close> is then 8 bytes off.\<close>

lemma wrapper64_call_alignment:
  assumes "unat (m_sp s) mod 16 = 8" "unat (m_sp t) mod 16 = 0"
  shows "unat (m_sp (exec E wrapper64_save s)) mod 16 = 0 \<and>
         unat (m_sp (exec E wrapper64_rp_save t)) mod 16 = 8"
  unfolding save_sp using sub_mod_16 [of "m_sp s" 232] sub_mod_16 [of "m_sp t" 248] assms
  by simp


end
