(* ===== verification/Global_Stats.thy ===== *)
theory Global_Stats
  imports Shared_Storage
begin

text \<open>
  The statistics of \<^verbatim>\<open>libelfperf/global_stats.c\<close>: an array of pointers to one record per profiled
  function, created with the first call and published through the statistics segment.
\<close>

section \<open>State and operations\<close>

definition STATS_LIMIT :: u32 where
  "STATS_LIMIT = 10000000"

text \<open>
  The static variables, the arrays of pointers and the records that \<^verbatim>\<open>mmap\<close> gave, by address, and
  the shared segments.
\<close>

record stats_state =
  s_stats :: u64
  s_statsCount :: u32
  isSharedMemoryInited :: bool
  updateStatSpinlock :: u32
  stat_arrays :: "u64 \<Rightarrow> u64 list option"
  stat_heap :: "u64 \<Rightarrow> FunctionStatistic option"
  stat_shared :: shared_state

text \<open>
  The kernel as a parameter: the shared memory calls, what \<^verbatim>\<open>mmap\<close> gives for an array of \<open>n\<close>
  pointers (the address and the number of pointers that fit in the pages it maps) and for a record,
  given the records that are mapped. \<open>None\<close> is \<^verbatim>\<open>MAP_FAILED\<close>, which the code does not test: the
  access that follows is a fault.
\<close>

record stats_os =
  os_ipc :: ipc
  os_array :: "nat \<Rightarrow> (u64 \<times> nat) option"
  os_stat :: "(u64 \<Rightarrow> FunctionStatistic option) \<Rightarrow> u64 option"

definition initStats :: "arch \<Rightarrow> environ \<Rightarrow> stats_os \<Rightarrow> stats_state \<Rightarrow> stats_state" where
  "initStats A env os st =
     (let cnt = snd (get_fn_list A env ELFPERF_PROFILE_FUNCTION_ENV_VARIABLE)
      in case os_array os (unat cnt) of
           None \<Rightarrow> st\<lparr>s_stats := - 1\<rparr>
         | Some (p, m) \<Rightarrow> st\<lparr>s_stats := p, stat_arrays := (stat_arrays st)(p := Some (replicate m 0))\<rparr>)"

definition initSharedMemory :: "arch \<Rightarrow> environ \<Rightarrow> stats_os \<Rightarrow> stats_state \<Rightarrow> stats_state result" where
  "initSharedMemory A env os st =
     (if isSharedMemoryInited st then Inr st
      else let st1 = initStats A env os st
           in case getFunctionStatisticsStorage (os_ipc os) of
                None \<Rightarrow> Inl SegFault
              | Some shm \<Rightarrow>
                  Inr (st1\<lparr>stat_shared := (stat_shared st1)\<lparr>seg_stat := s_stats st1\<rparr>,
                           isSharedMemoryInited := True\<rparr>))"

definition addNewStat ::
  "arch \<Rightarrow> environ \<Rightarrow> stats_os \<Rightarrow> u64 \<Rightarrow> u64 \<Rightarrow> stats_state \<Rightarrow> (u64 \<times> stats_state) result" where
  "addNewStat A env os funcAddr diffTime st0 =
     bind_result (if isSharedMemoryInited st0 then Inr st0 else initSharedMemory A env os st0) (\<lambda>st.
       if STATS_LIMIT \<le> s_statsCount st then Inl (Exit 1)
       else case os_stat os (stat_heap st) of
              None \<Rightarrow> Inl SegFault
            | Some p \<Rightarrow>
                (case stat_arrays st (s_stats st) of
                   None \<Rightarrow> Inl SegFault
                 | Some ps \<Rightarrow>
                     if unat (s_statsCount st) < length ps
                     then Inr (p, st\<lparr>stat_heap := (stat_heap st)(p \<mapsto> \<lparr>totalDiffTime = diffTime,
                                         totalCallsNumber = 1, realFuncAddr = funcAddr\<rparr>),
                                     s_statsCount := s_statsCount st + 1,
                                     stat_arrays := (stat_arrays st)(s_stats st \<mapsto>
                                         ps[unat (s_statsCount st) := p])\<rparr>)
                     else Inl OutOfBounds))"

text \<open>The search for the record of a function, over the first \<open>n\<close> pointers of the array; zero is
  \<^verbatim>\<open>NULL\<close>.\<close>

fun stat_loop :: "(u64 \<Rightarrow> FunctionStatistic option) \<Rightarrow> u64 list \<Rightarrow> nat \<Rightarrow> u64 \<Rightarrow> u64 result" where
  "stat_loop h ps 0 a = Inr 0"
| "stat_loop h [] (Suc n) a = Inl OutOfBounds"
| "stat_loop h (p # ps) (Suc n) a =
     (case h p of
        None \<Rightarrow> Inl SegFault
      | Some s \<Rightarrow> if realFuncAddr s = a then Inr p else stat_loop h ps n a)"

definition getFunctionStatistic :: "u64 \<Rightarrow> stats_state \<Rightarrow> u64 result" where
  "getFunctionStatistic funcAddr st =
     (case stat_arrays st (s_stats st) of
        None \<Rightarrow> if s_statsCount st = 0 then Inr 0 else Inl SegFault
      | Some ps \<Rightarrow> stat_loop (stat_heap st) ps (unat (s_statsCount st)) funcAddr)"

text \<open>
  The spinlock of a single thread: \<^verbatim>\<open>__sync_fetch_and_add\<close> adds one and returns the old value, and
  the loop goes on while that is not zero. The word wraps around, so the loop always ends.
\<close>

function spin_lock :: "u32 \<Rightarrow> u32" where
  "spin_lock l = (if l = 0 then l + 1 else spin_lock (l + 1))"
  by pat_completeness auto

termination spin_lock
proof (relation "measure (\<lambda>l. if l = 0 then 0 else 2 ^ 32 - unat l)")
  fix l :: u32
  assume "l \<noteq> 0"
  then show "(l + 1, l) \<in> measure (\<lambda>l. if l = 0 then 0 else 2 ^ 32 - unat l)"
    using unsigned_less [where 'a = nat, of l] unatSuc [of l] by (auto simp: add.commute [of 1 l])
qed simp

declare spin_lock.simps [simp del]

definition updateStat ::
  "arch \<Rightarrow> environ \<Rightarrow> stats_os \<Rightarrow> u64 \<Rightarrow> u64 \<Rightarrow> stats_state \<Rightarrow> stats_state result" where
  "updateStat A env os funcAddr diffTime st0 =
     (let st = st0\<lparr>updateStatSpinlock := spin_lock (updateStatSpinlock st0)\<rparr> in
      bind_result (getFunctionStatistic funcAddr st) (\<lambda>p.
      bind_result
        (if p \<noteq> 0
         then (case stat_heap st p of
                 None \<Rightarrow> Inl SegFault
               | Some s \<Rightarrow>
                   Inr (st\<lparr>stat_heap := (stat_heap st)(p \<mapsto>
                          s\<lparr>totalCallsNumber := totalCallsNumber s + 1,
                            totalDiffTime := totalDiffTime s + diffTime\<rparr>)\<rparr>))
         else bind_result (addNewStat A env os funcAddr diffTime st) (\<lambda>(q, st1). Inr st1))
        (\<lambda>st2. Inr (st2\<lparr>updateStatSpinlock := 0\<rparr>))))"

text \<open>The lines that \<^verbatim>\<open>printFunctionStatistics\<close> prints: address, total ticks, calls.\<close>

fun print_loop :: "(u64 \<Rightarrow> FunctionStatistic option) \<Rightarrow> u64 list \<Rightarrow> nat \<Rightarrow> (u64 \<times> u64 \<times> u64) list result" where
  "print_loop h ps 0 = Inr []"
| "print_loop h [] (Suc n) = Inl OutOfBounds"
| "print_loop h (p # ps) (Suc n) =
     (case h p of
        None \<Rightarrow> Inl SegFault
      | Some s \<Rightarrow>
          bind_result (print_loop h ps n)
            (\<lambda>ls. Inr ((realFuncAddr s, totalDiffTime s, totalCallsNumber s) # ls)))"

definition printFunctionStatistics :: "stats_state \<Rightarrow> (u64 \<times> u64 \<times> u64) list result" where
  "printFunctionStatistics st =
     (case stat_arrays st (s_stats st) of
        None \<Rightarrow> if s_statsCount st = 0 then Inr [] else Inl SegFault
      | Some ps \<Rightarrow> print_loop (stat_heap st) ps (unat (s_statsCount st)))"


section \<open>Specification\<close>

text \<open>
  The statistics as an association list in the order of the first calls: per function the number
  of calls and the total time, both modulo \<open>2 ^ 64\<close>.
\<close>

type_synonym stat_table = "(u64 \<times> u64 \<times> u64) list"

fun bump :: "u64 \<Rightarrow> u64 \<Rightarrow> stat_table \<Rightarrow> stat_table" where
  "bump a d [] = [(a, 1, d)]"
| "bump a d ((b, n, t) # xs) = (if b = a then (b, n + 1, t + d) # xs else (b, n, t) # bump a d xs)"

text \<open>The first \<open>n\<close> pointers of the array in use.\<close>

definition live_stats :: "stats_state \<Rightarrow> u64 list" where
  "live_stats st =
     (case stat_arrays st (s_stats st) of None \<Rightarrow> [] | Some ps \<Rightarrow> take (unat (s_statsCount st)) ps)"

definition stat_row :: "FunctionStatistic \<Rightarrow> u64 \<times> u64 \<times> u64" where
  "stat_row s = (realFuncAddr s, totalCallsNumber s, totalDiffTime s)"

definition table_of :: "stats_state \<Rightarrow> stat_table" where
  "table_of st = map (\<lambda>p. stat_row (the (stat_heap st p))) (live_stats st)"

text \<open>The number of records the array has room for, before and after it is created.\<close>

definition capacity :: "arch \<Rightarrow> environ \<Rightarrow> stats_os \<Rightarrow> stats_state \<Rightarrow> nat" where
  "capacity A env os st =
     (if isSharedMemoryInited st then length (the (stat_arrays st (s_stats st)))
      else snd (the (os_array os (unat (snd (get_fn_list A env ELFPERF_PROFILE_FUNCTION_ENV_VARIABLE))))))"

definition stats_ok :: "stats_state \<Rightarrow> bool" where
  "stats_ok st \<longleftrightarrow>
     (if isSharedMemoryInited st
      then (\<exists>ps. stat_arrays st (s_stats st) = Some ps \<and> unat (s_statsCount st) \<le> length ps)
           \<and> seg_stat (stat_shared st) = s_stats st
           \<and> distinct (live_stats st) \<and> 0 \<notin> set (live_stats st)
           \<and> distinct (map fst (table_of st))
      else s_statsCount st = 0 \<and> stat_arrays st (s_stats st) = None)
     \<and> dom (stat_heap st) = set (live_stats st) \<and> s_statsCount st \<le> STATS_LIMIT"

text \<open>The documented behaviour of the kernel that the statistics rely on: the segment that the
  loader has created can be attached, \<^verbatim>\<open>mmap\<close> gives at least the pages asked for, and for a record,
  as long as there are not more than the limit, an address that is not in use.\<close>

definition stats_os_ok :: "stats_os \<Rightarrow> bool" where
  "stats_os_ok os \<longleftrightarrow>
     getFunctionStatisticsStorage (os_ipc os) \<noteq> None
     \<and> (\<forall>n > 0. \<exists>p m. os_array os n = Some (p, m) \<and> n \<le> m)
     \<and> (\<forall>h. card (dom h) \<le> unat STATS_LIMIT \<longrightarrow> (\<exists>p. os_stat os h = Some p \<and> p \<noteq> 0 \<and> p \<notin> dom h))"


section \<open>Refinement\<close>

lemma spin_lock_1: "spin_lock l = 1"
  by (induction l rule: spin_lock.induct) (simp add: spin_lock.simps)

lemma stat_loop_spec:
  assumes "n \<le> length ps" "set (take n ps) \<subseteq> dom h"
  shows "stat_loop h ps n a =
    Inr (case first_index (\<lambda>p. realFuncAddr (the (h p)) = a) (take n ps) of None \<Rightarrow> 0 | Some i \<Rightarrow> ps ! i)"
  using assms by (induction h ps n a rule: stat_loop.induct) (auto split: option.splits)

lemma print_loop_spec:
  assumes "n \<le> length ps" "set (take n ps) \<subseteq> dom h"
  shows "print_loop h ps n =
    Inr (map (\<lambda>p. (realFuncAddr (the (h p)), totalDiffTime (the (h p)), totalCallsNumber (the (h p)))) (take n ps))"
  using assms by (induction h ps n rule: print_loop.induct) auto

lemma stats_ok_live:
  assumes "stats_ok st" "isSharedMemoryInited st"
  obtains ps where "stat_arrays st (s_stats st) = Some ps" "unat (s_statsCount st) \<le> length ps"
    "live_stats st = take (unat (s_statsCount st)) ps"
  using assms by (auto simp: stats_ok_def live_stats_def)

lemma stats_ok_fresh: "stats_ok st \<Longrightarrow> \<not> isSharedMemoryInited st \<Longrightarrow> live_stats st = []"
  by (simp add: stats_ok_def live_stats_def)

text \<open>The position of a function in the table.\<close>

definition pos_of :: "u64 \<Rightarrow> stat_table \<Rightarrow> nat option" where
  "pos_of a tab = first_index (\<lambda>r. fst r = a) tab"

lemma getFunctionStatistic_spec:
  assumes "stats_ok st"
  shows "getFunctionStatistic a st =
    Inr (case pos_of a (table_of st) of None \<Rightarrow> 0 | Some i \<Rightarrow> live_stats st ! i)"
proof (cases "isSharedMemoryInited st")
  case True
  then obtain ps where ps: "stat_arrays st (s_stats st) = Some ps" "unat (s_statsCount st) \<le> length ps"
    "live_stats st = take (unat (s_statsCount st)) ps"
    using stats_ok_live [OF assms] by blast
  have "pos_of a (table_of st) = first_index (\<lambda>p. realFuncAddr (the (stat_heap st p)) = a) (live_stats st)"
    by (simp add: pos_of_def table_of_def first_index_cong_map comp_def stat_row_def)
  moreover have "i < unat (s_statsCount st)" if "first_index P (live_stats st) = Some i" for P i
    using that ps by (force dest: first_index_Some_iff [THEN iffD1])
  ultimately show ?thesis
    using assms ps stat_loop_spec [OF ps(2), of "stat_heap st" a]
    by (auto simp: getFunctionStatistic_def stats_ok_def split: option.splits)
next
  case False
  then show ?thesis
    using assms by (simp add: getFunctionStatistic_def stats_ok_def table_of_def live_stats_def pos_of_def)
qed

lemma bump_pos:
  "bump a d tab =
     (case pos_of a tab of
        None \<Rightarrow> tab @ [(a, 1, d)]
      | Some i \<Rightarrow> tab[i := (a, fst (snd (tab ! i)) + 1, snd (snd (tab ! i)) + d)])"
  by (induction a d tab rule: bump.induct) (auto simp: pos_of_def split: option.splits)

lemma pos_of_Some: "pos_of a tab = Some i \<Longrightarrow> i < length tab \<and> fst (tab ! i) = a"
  by (simp add: pos_of_def first_index_Some_iff)

lemma pos_of_None_iff: "pos_of a tab = None \<longleftrightarrow> a \<notin> fst ` set tab"
  by (auto simp: pos_of_def first_index_None_iff)

lemma map_upd_nth:
  assumes "distinct ps" "i < length ps"
  shows "map (g(ps ! i := y)) ps = (map g ps)[i := y]"
  using assms by (auto intro!: nth_equalityI simp: nth_list_update nth_eq_iff_index_eq)

lemma length_table [simp]: "length (table_of st) = length (live_stats st)"
  by (simp add: table_of_def)

lemma length_live: "stats_ok st \<Longrightarrow> length (live_stats st) = unat (s_statsCount st)"
  by (auto simp: stats_ok_def live_stats_def split: if_splits)

lemma live_stats_heap [simp]:
  "live_stats (st\<lparr>stat_heap := h\<rparr>) = live_stats st"
  "live_stats (st\<lparr>updateStatSpinlock := l\<rparr>) = live_stats st"
  by (simp_all add: live_stats_def split: option.split)

lemma stats_lock [simp]:
  "stats_ok (st\<lparr>updateStatSpinlock := l\<rparr>) = stats_ok st"
  "table_of (st\<lparr>updateStatSpinlock := l\<rparr>) = table_of st"
  "capacity A env os (st\<lparr>updateStatSpinlock := l\<rparr>) = capacity A env os st"
  by (simp_all add: stats_ok_def table_of_def capacity_def)

lemma table_upd:
  assumes "stats_ok st" "i < length (live_stats st)" "p = live_stats st ! i"
  shows "table_of (st\<lparr>stat_heap := (stat_heap st)(p \<mapsto> s)\<rparr>) = (table_of st)[i := stat_row s]"
proof -
  have "distinct (live_stats st)"
    using assms(1,2) stats_ok_fresh [OF assms(1)] by (cases "isSharedMemoryInited st") (auto simp: stats_ok_def)
  moreover have "(\<lambda>q. stat_row (the (((stat_heap st)(p \<mapsto> s)) q))) =
      (\<lambda>q. stat_row (the (stat_heap st q)))(p := stat_row s)"
    by auto
  ultimately show ?thesis
    using map_upd_nth [OF _ assms(2), of "\<lambda>q. stat_row (the (stat_heap st q))" "stat_row s"]
    by (simp add: table_of_def assms(3))
qed

lemma stats_ok_upd:
  assumes "stats_ok st" "i < length (live_stats st)" "p = live_stats st ! i"
    and "realFuncAddr s = fst (table_of st ! i)"
  shows "stats_ok (st\<lparr>stat_heap := (stat_heap st)(p \<mapsto> s)\<rparr>)"
proof -
  have "map fst ((table_of st)[i := stat_row s]) = map fst (table_of st)"
    using assms(2,4) by (simp add: map_update stat_row_def list_update_same_conv)
  moreover have "insert p (set (live_stats st)) = set (live_stats st)"
    using assms(2,3) by auto
  ultimately show ?thesis
    using assms(1) table_upd [OF assms(1-3)]
    by (auto simp: stats_ok_def)
qed

text \<open>The first record creates the array and publishes it.\<close>

lemma initSharedMemory_ok:
  assumes "stats_ok st" "\<not> isSharedMemoryInited st" "stats_os_ok os"
    and "0 < unat (snd (get_fn_list A env ELFPERF_PROFILE_FUNCTION_ENV_VARIABLE))"
  obtains st1 where "initSharedMemory A env os st = Inr st1" "stats_ok st1" "isSharedMemoryInited st1"
    "live_stats st1 = []" "capacity A env os st1 = capacity A env os st" "s_statsCount st1 = 0"
proof -
  obtain p m where "os_array os (unat (snd (get_fn_list A env ELFPERF_PROFILE_FUNCTION_ENV_VARIABLE))) = Some (p, m)"
    using assms(3,4) unfolding stats_os_ok_def by blast
  moreover obtain shm where "getFunctionStatisticsStorage (os_ipc os) = Some shm"
    using assms(3) by (auto simp: stats_os_ok_def)
  ultimately show thesis
    using assms(1,2)
    by (intro that) (auto simp: initSharedMemory_def initStats_def Let_def stats_ok_def live_stats_def
        table_of_def capacity_def)
qed


lemma card_heap:
  assumes "stats_ok st"
  shows "card (dom (stat_heap st)) \<le> unat STATS_LIMIT"
proof -
  have "card (dom (stat_heap st)) \<le> length (live_stats st)"
    using assms card_length [of "live_stats st"] by (simp add: stats_ok_def)
  also have "\<dots> \<le> unat STATS_LIMIT"
    using assms by (simp add: length_live) (simp add: stats_ok_def word_le_nat_alt)
  finally show ?thesis .
qed

lemma addNewStat_inited:
  assumes "stats_ok st" "isSharedMemoryInited st" "stats_os_ok os" "pos_of a (table_of st) = None"
    and "length (live_stats st) < capacity A env os st" "length (live_stats st) < unat STATS_LIMIT"
  obtains p st' where "addNewStat A env os a d st = Inr (p, st')" "stats_ok st'"
    "table_of st' = table_of st @ [(a, 1, d)]" "capacity A env os st' = capacity A env os st"
    "isSharedMemoryInited st'"
proof -
  obtain p where p: "os_stat os (stat_heap st) = Some p" "p \<noteq> 0" "p \<notin> dom (stat_heap st)"
    using assms(3) card_heap [OF assms(1)] unfolding stats_os_ok_def by blast
  obtain ps where ps: "stat_arrays st (s_stats st) = Some ps" "live_stats st = take (unat (s_statsCount st)) ps"
    using stats_ok_live [OF assms(1,2)] by blast
  note len = length_live [OF assms(1)]
  have room: "unat (s_statsCount st) < length ps" "unat (s_statsCount st) < unat STATS_LIMIT"
    using assms(2,5,6) ps(1) len by (simp_all add: capacity_def)
  have cnt: "unat (s_statsCount st + 1) = Suc (unat (s_statsCount st))"
    using room(2) by (simp add: unat_plus_if' STATS_LIMIT_def)
  define st' where "st' = st\<lparr>stat_heap := (stat_heap st)(p \<mapsto> \<lparr>totalDiffTime = d, totalCallsNumber = 1, realFuncAddr = a\<rparr>),
     s_statsCount := s_statsCount st + 1,
     stat_arrays := (stat_arrays st)(s_stats st \<mapsto> ps[unat (s_statsCount st) := p])\<rparr>"
  have live: "live_stats st' = live_stats st @ [p]"
    using room cnt ps by (simp add: st'_def live_stats_def take_Suc_conv_app_nth)
  have tab: "table_of st' = table_of st @ [(a, 1, d)]"
    using p(3) assms(1) by (auto simp: table_of_def live) (auto simp: st'_def stat_row_def stats_ok_def)
  have "stats_ok st'"
    using assms(1,2,4) p room cnt live tab
    by (auto simp: stats_ok_def pos_of_None_iff) (auto simp: st'_def word_le_nat_alt)
  then show thesis
    using that [of p st'] assms(2) p ps room tab
    by (simp add: addNewStat_def st'_def capacity_def not_le word_less_nat_alt)
qed


definition store_inv :: "arch \<Rightarrow> environ \<Rightarrow> stats_os \<Rightarrow> stats_state \<Rightarrow> bool" where
  "store_inv A env os st \<longleftrightarrow>
     stats_ok st \<and> stats_os_ok os
     \<and> 0 < unat (snd (get_fn_list A env ELFPERF_PROFILE_FUNCTION_ENV_VARIABLE))"

definition store_room :: "arch \<Rightarrow> environ \<Rightarrow> stats_os \<Rightarrow> stats_state \<Rightarrow> nat" where
  "store_room A env os st = min (capacity A env os st) (unat STATS_LIMIT)"

lemma addNewStat_ok:
  assumes "store_inv A env os st" "pos_of a (table_of st) = None"
    and "length (table_of st) < store_room A env os st"
  obtains p st' where "addNewStat A env os a d st = Inr (p, st')" "stats_ok st'"
    "table_of st' = table_of st @ [(a, 1, d)]" "capacity A env os st' = capacity A env os st"
proof (cases "isSharedMemoryInited st")
  case True
  then show ?thesis
    using assms addNewStat_inited [of st os a A env d] that
    by (auto simp: store_inv_def store_room_def)
next
  case False
  then obtain st1 where st1: "initSharedMemory A env os st = Inr st1" "stats_ok st1"
      "isSharedMemoryInited st1" "live_stats st1 = []" "capacity A env os st1 = capacity A env os st"
    using assms initSharedMemory_ok [of st os A env] by (auto simp: store_inv_def)
  have "table_of st = []" "table_of st1 = []"
    using assms(1) False st1(4) stats_ok_fresh [of st] by (simp_all add: store_inv_def table_of_def)
  moreover have "addNewStat A env os a d st = addNewStat A env os a d st1"
    using False st1 by (simp add: addNewStat_def)
  ultimately show ?thesis
    using assms st1 addNewStat_inited [of st1 os a A env d] that
    by (auto simp: store_inv_def store_room_def pos_of_def)
qed

lemma updateStat_refines:
  assumes "store_inv A env os st"
    and "a \<in> fst ` set (table_of st) \<or> length (table_of st) < store_room A env os st"
  shows "\<exists>st'. updateStat A env os a d st = Inr st' \<and> store_inv A env os st' \<and>
           table_of st' = bump a d (table_of st) \<and> store_room A env os st' = store_room A env os st"
proof -
  define st1 where "st1 = st\<lparr>updateStatSpinlock := 1\<rparr>"
  have ok: "stats_ok st1" "store_inv A env os st1" "table_of st1 = table_of st"
      "capacity A env os st1 = capacity A env os st"
    using assms(1) by (simp_all add: store_inv_def st1_def)
  show ?thesis
  proof (cases "pos_of a (table_of st)")
    case None
    then obtain p st' where "addNewStat A env os a d st1 = Inr (p, st')" "stats_ok st'"
      "table_of st' = table_of st1 @ [(a, 1, d)]" "capacity A env os st' = capacity A env os st1"
      using assms ok addNewStat_ok [of A env os st1 a d] by (auto simp: pos_of_None_iff store_room_def)
    then show ?thesis
      using assms ok None getFunctionStatistic_spec [OF ok(1), of a]
      by (simp add: updateStat_def Let_def spin_lock_1 st1_def [symmetric] bump_pos store_inv_def
          store_room_def)
  next
    case (Some i)
    define p where "p = live_stats st1 ! i"
    have i: "i < length (live_stats st1)" "fst (table_of st1 ! i) = a"
      using pos_of_Some [OF Some] ok(3) by (simp_all add: length_table [symmetric] del: length_table)
    then have "isSharedMemoryInited st1"
      using stats_ok_fresh [OF ok(1)] by (cases "isSharedMemoryInited st1") auto
    moreover have "p \<in> set (live_stats st1)"
      using nth_mem [OF i(1)] by (simp add: p_def)
    ultimately have "p \<noteq> 0" "p \<in> dom (stat_heap st1)"
      using ok(1) by (auto simp: stats_ok_def)
    then obtain s where s: "stat_heap st1 p = Some s" "stat_row s = table_of st1 ! i"
      using i(1) by (auto simp: table_of_def p_def)
    let ?s = "s\<lparr>totalCallsNumber := totalCallsNumber s + 1, totalDiffTime := totalDiffTime s + d\<rparr>"
    have row: "stat_row ?s = (a, fst (snd (table_of st ! i)) + 1, snd (snd (table_of st ! i)) + d)"
      and addr: "realFuncAddr ?s = fst (table_of st1 ! i)"
      using s(2) [symmetric] i(2) ok(3) by (simp_all add: stat_row_def)
    have cap: "capacity A env os (st1\<lparr>stat_heap := h\<rparr>) = capacity A env os st1" for h
      by (simp add: capacity_def)
    show ?thesis
      using assms ok Some s(1) \<open>p \<noteq> 0\<close> getFunctionStatistic_spec [OF ok(1), of a]
        stats_ok_upd [OF ok(1) i(1) p_def addr] table_upd [OF ok(1) i(1) p_def, of ?s] cap row
      by (simp add: updateStat_def Let_def spin_lock_1 st1_def [symmetric] p_def [symmetric] bump_pos
          store_inv_def store_room_def)
  qed
qed


section \<open>The store as an interface\<close>

fun stat_total :: "u64 \<Rightarrow> (u64 \<times> u64) list \<Rightarrow> u64 \<times> u64" where
  "stat_total a [] = (0, 0)"
| "stat_total a ((b, d) # es) =
     (let (n, t) = stat_total a es in if b = a then (n + 1, t + d) else (n, t))"

text \<open>The rows that a list of calls gives: one per function, in the order of the first calls.\<close>

definition stat_rows :: "(u64 \<times> u64) list \<Rightarrow> stat_table" where
  "stat_rows es = map (\<lambda>a. (a, stat_total a es)) (rev (remdups (rev (map fst es))))"

lemma stat_total_snoc:
  "stat_total a (es @ [(b, d)]) =
     (let (n, t) = stat_total a es in if b = a then (n + 1, t + d) else (n, t))"
  by (induction a es rule: stat_total.induct) (auto simp: Let_def split: prod.splits)

lemma stat_total_none: "a \<notin> fst ` set es \<Longrightarrow> stat_total a es = (0, 0)"
  by (induction a es rule: stat_total.induct) auto

lemma bump_map:
  assumes "distinct ks"
  shows "bump b d (map (\<lambda>a. (a, f a)) ks) =
    (if b \<in> set ks then map (\<lambda>a. (a, (if a = b then (fst (f a) + 1, snd (f a) + d) else f a))) ks
     else map (\<lambda>a. (a, f a)) ks @ [(b, 1, d)])"
  using assms
proof (induction ks)
  case (Cons k ks)
  show ?case
  proof (cases "k = b")
    case True
    then have "\<forall>a \<in> set ks. a \<noteq> b" using Cons.prems by auto
    then show ?thesis using True by (cases "f b") auto
  qed (use Cons in \<open>cases "f k"; auto\<close>)
qed simp

lemma stat_rows_snoc: "stat_rows (es @ [(b, d)]) = bump b d (stat_rows es)"
proof -
  let ?ks = "rev (remdups (rev (map fst es)))"
  have *: "stat_rows (es @ [(b, d)]) =
    map (\<lambda>a. (a, stat_total a (es @ [(b, d)]))) (if b \<in> set ?ks then ?ks else ?ks @ [b])"
    by (auto simp: stat_rows_def)
  show ?thesis
    unfolding * unfolding stat_rows_def bump_map [of ?ks b d, OF distinct_rev [THEN iffD2, OF distinct_remdups]]
    using stat_total_none [of b es]
    by (auto simp: stat_total_snoc Let_def split: prod.splits)
qed


text \<open>A sequence of updates.\<close>

fun upds :: "(u64 \<Rightarrow> u64 \<Rightarrow> 's \<Rightarrow> 's result) \<Rightarrow> (u64 \<times> u64) list \<Rightarrow> 's \<Rightarrow> 's result" where
  "upds upd [] s = Inr s"
| "upds upd ((a, d) # es) s = bind_result (upd a d s) (upds upd es)"

lemma upds_snoc: "upds upd (es @ [(a, d)]) s = bind_result (upds upd es s) (upd a d)"
proof (induction es arbitrary: s)
  case Nil
  then show ?case by (cases "upd a d s") simp_all
next
  case (Cons e es)
  then show ?case by (cases e; cases "upd (fst e) (snd e) s") simp_all
qed

text \<open>
  What the profiler relies on: a call for a function with a row, or with room for one more, is
  entered into the table.
\<close>

locale stat_store =
  fixes upd :: "u64 \<Rightarrow> u64 \<Rightarrow> 's \<Rightarrow> 's result"
    and tab :: "'s \<Rightarrow> stat_table"
    and inv :: "'s \<Rightarrow> bool"
    and room :: "'s \<Rightarrow> nat"
  assumes upd_bump:
    "inv s \<Longrightarrow> a \<in> fst ` set (tab s) \<or> length (tab s) < room s \<Longrightarrow>
       \<exists>s'. upd a d s = Inr s' \<and> inv s' \<and> tab s' = bump a d (tab s) \<and> room s' = room s"
begin

lemma upds_rows:
  assumes "inv s" "tab s = []" "card (fst ` set es) \<le> room s"
  shows "\<exists>s'. upds upd es s = Inr s' \<and> inv s' \<and> tab s' = stat_rows es \<and> room s' = room s"
  using assms(3)
proof (induction es rule: rev_induct)
  case Nil
  then show ?case using assms by (simp add: stat_rows_def)
next
  case (snoc e es)
  obtain a d where e: "e = (a, d)" by (cases e)
  have "card (fst ` set es) \<le> card (insert a (fst ` set es))"
    by (rule card_insert_le)
  then have "card (fst ` set es) \<le> room s"
    using snoc.prems by (simp add: e)
  then obtain s1 where s1: "upds upd es s = Inr s1" "inv s1" "tab s1 = stat_rows es" "room s1 = room s"
    using snoc.IH by blast
  have "length (stat_rows es) = card (fst ` set es)" "fst ` set (stat_rows es) = fst ` set es"
    by (simp_all add: stat_rows_def length_remdups_card_conv image_image)
  moreover have "card (fst ` set es) < room s" if "a \<notin> fst ` set es"
    using that snoc.prems by (simp add: e card_insert_if)
  ultimately show ?case
    using upd_bump [OF s1(2), of a d] s1 by (auto simp: e upds_snoc stat_rows_snoc)
qed

end

interpretation gs: stat_store "updateStat A env os" table_of "store_inv A env os" "store_room A env os"
  for A env os
  by unfold_locales (rule updateStat_refines)


section \<open>Properties\<close>

definition fresh_stats :: "shared_state \<Rightarrow> stats_state" where
  "fresh_stats sh = \<lparr>s_stats = 0, s_statsCount = 0, isSharedMemoryInited = False,
     updateStatSpinlock = 0, stat_arrays = (\<lambda>_. None), stat_heap = Map.empty, stat_shared = sh\<rparr>"

lemma fresh_stats_ok: "stats_ok (fresh_stats sh)" "table_of (fresh_stats sh) = []"
  by (simp_all add: fresh_stats_def stats_ok_def table_of_def live_stats_def)

lemma print_rows:
  assumes "stats_ok st"
  shows "printFunctionStatistics st = Inr (map (\<lambda>(a, n, t). (a, t, n)) (table_of st))"
proof (cases "isSharedMemoryInited st")
  case True
  then obtain ps where ps: "stat_arrays st (s_stats st) = Some ps" "unat (s_statsCount st) \<le> length ps"
    "live_stats st = take (unat (s_statsCount st)) ps"
    using stats_ok_live [OF assms] by blast
  then show ?thesis
    using assms print_loop_spec [OF ps(2), of "stat_heap st"]
    by (simp add: printFunctionStatistics_def table_of_def stat_row_def stats_ok_def)
next
  case False
  then show ?thesis
    using assms by (simp add: printFunctionStatistics_def stats_ok_def table_of_def live_stats_def)
qed

lemma fresh_room:
  assumes "stats_os_ok os" "getenv A env ELFPERF_PROFILE_FUNCTION_ENV_VARIABLE = Some v" "c_string v" "v \<noteq> []"
  shows "store_inv A env os (fresh_stats sh)" "length (fn_words v) \<le> capacity A env os (fresh_stats sh)"
proof -
  have n: "unat (snd (get_fn_list A env ELFPERF_PROFILE_FUNCTION_ENV_VARIABLE)) = length (fn_words v)"
    using get_fn_list_words [OF assms(2,3)] c_string_count [OF assms(3)] by simp
  moreover have "0 < length (fn_words v)"
    using assms(4) by (cases v) auto
  moreover from this obtain p m where "os_array os (length (fn_words v)) = Some (p, m)" "length (fn_words v) \<le> m"
    using assms(1) unfolding stats_os_ok_def by blast
  ultimately show "store_inv A env os (fresh_stats sh)"
      "length (fn_words v) \<le> capacity A env os (fresh_stats sh)"
    using assms(1) by (simp_all add: store_inv_def capacity_def fresh_stats_ok) (simp_all add: fresh_stats_def)
qed

text \<open>C8. The statistics are exact: after any sequence of measured calls of at most as many
  functions as are configured, none of which faults, the report has one line per called function,
  in the order of the first calls, with the number of its calls and the sum of their durations,
  both modulo \<open>2 ^ 64\<close>, and after the first call the array is published in the shared segment.\<close>

theorem statistics_exact:
  assumes "stats_os_ok os" "getenv A env ELFPERF_PROFILE_FUNCTION_ENV_VARIABLE = Some v" "c_string v" "v \<noteq> []"
    and "card (fst ` set es) \<le> length (fn_words v)" "card (fst ` set es) \<le> 10000000"
  shows "\<exists>st. upds (updateStat A env os) es (fresh_stats sh) = Inr st \<and>
           printFunctionStatistics st = Inr (map (\<lambda>(a, n, t). (a, t, n)) (stat_rows es)) \<and>
           (es \<noteq> [] \<longrightarrow> seg_stat (stat_shared st) = s_stats st)"
proof -
  have "card (fst ` set es) \<le> store_room A env os (fresh_stats sh)"
    using assms(5,6) fresh_room(2) [OF assms(1-4), of sh] by (simp add: store_room_def STATS_LIMIT_def)
  then obtain st where st: "upds (updateStat A env os) es (fresh_stats sh) = Inr st"
      "store_inv A env os st" "table_of st = stat_rows es"
    using gs.upds_rows [OF fresh_room(1) [OF assms(1-4)] fresh_stats_ok(2)] by blast
  have "es \<noteq> [] \<Longrightarrow> table_of st \<noteq> []"
    by (simp add: st(3) stat_rows_def)
  then have "es \<noteq> [] \<Longrightarrow> isSharedMemoryInited st"
    using st(2) stats_ok_fresh [of st]
    by (cases "isSharedMemoryInited st") (auto simp: store_inv_def table_of_def)
  then show ?thesis
    using st print_rows [of st] by (auto simp: store_inv_def stats_ok_def)
qed


text \<open>A kernel that gives the lowest free address, for the examples.\<close>

definition first_free :: "nat \<Rightarrow> (u64 \<Rightarrow> 'b option) \<Rightarrow> u64 option" where
  "first_free n h = find (\<lambda>p. h p = None) (map of_nat [1..<n + 2])"

lemma find_SomeD: "find P xs = Some x \<Longrightarrow> x \<in> set xs \<and> P x"
  by (induction xs) (auto split: if_splits)

lemma first_free_ok:
  assumes "card (dom h) \<le> n" "n + 2 \<le> 2 ^ 64"
  shows "\<exists>p. first_free n h = Some p \<and> p \<noteq> 0 \<and> p \<notin> dom h"
proof (cases "first_free n h")
  case None
  let ?A = "(of_nat :: nat \<Rightarrow> u64) ` {1..<n + 2}"
  have "inj_on (of_nat :: nat \<Rightarrow> u64) {1..<n + 2}"
    using assms(2) by (auto simp: inj_on_def word_unat_eq_iff unat_of_nat)
  then have "card ?A = n + 1"
    by (simp add: card_image)
  moreover have "?A \<subseteq> dom h"
    using None unfolding first_free_def find_None_iff by (force simp del: upt_Suc)
  then have "card ?A \<le> card (dom h)"
    by (intro card_mono) simp_all
  ultimately show ?thesis using assms(1) by simp
next
  case (Some p)
  then have p: "p \<in> set (map of_nat [1..<n + 2])" "h p = None"
    using find_SomeD unfolding first_free_def by fast+
  then obtain k where "p = of_nat k" "1 \<le> k" "k < n + 2"
    unfolding set_map set_upt by auto
  then have "p \<noteq> 0"
    using assms(2) by (simp add: word_unat_eq_iff unat_of_nat)
  then show ?thesis using Some p(2) by auto
qed

definition example_stats_os :: stats_os where
  "example_stats_os = \<lparr>os_ipc = (\<lambda>_ _. (0, 0x1000)), os_array = (\<lambda>n. Some (0x2000, n)),
     os_stat = first_free 10000000\<rparr>"

lemma example_stats_os_ok: "stats_os_ok example_stats_os"
  using first_free_ok [of _ 10000000]
  by (auto simp: stats_os_ok_def example_stats_os_def STATS_LIMIT_def getFunctionStatisticsStorage_def
      attach_def)

theorem statistics_exact_witness:
  "\<exists>st. upds (updateStat ARCH_32 [''ELFPERF_PROFILE_FUNCTION=f:g''] example_stats_os)
          [(0x500, 7), (0x400, 5), (0x500, 3)]
          (fresh_stats \<lparr>seg_stat = 0, seg_info = 0, seg_context = None, info_heap = (\<lambda>_. None)\<rparr>) = Inr st \<and>
        printFunctionStatistics st = Inr [(0x500, 10, 2), (0x400, 5, 1)]"
proof -
  let ?env = "[''ELFPERF_PROFILE_FUNCTION=f:g'']"
  let ?es = "[(0x500, 7), (0x400, 5), (0x500, 3)] :: (u64 \<times> u64) list"
  have "getenv ARCH_32 ?env ELFPERF_PROFILE_FUNCTION_ENV_VARIABLE = Some ''f:g''"
    by (simp add: getenv_def ELFPERF_PROFILE_FUNCTION_ENV_VARIABLE_def)
  moreover have "c_string ''f:g''" by (simp add: c_string_def)
  moreover have "card (fst ` set ?es) \<le> length (fn_words ''f:g'')" "card (fst ` set ?es) \<le> 10000000"
    by (simp_all add: card_insert_if)
  moreover have "stat_rows ?es = [(0x500, 2, 10), (0x400, 1, 5)]"
    by (simp add: stat_rows_def)
  ultimately show ?thesis
    using statistics_exact [OF example_stats_os_ok, of ARCH_32 ?env "''f:g''" ?es] by fastforce
qed

text \<open>C18. Updates keep the statistics well formed and cannot get stuck: with at least one configured function and a
  kernel that behaves as documented, an update of a function with a row, or of any function while there is
  room, succeeds; afterwards the pointers of the used part of the array are again distinct, not null and exactly the
  allocated records, no two of these are of the same function, the segment points to the array, and the
  lock is free.\<close>

theorem updateStat_well_formed:
  assumes "stats_ok st" "stats_os_ok os" "0 < unat (snd (get_fn_list A env ELFPERF_PROFILE_FUNCTION_ENV_VARIABLE))"
    and "a \<in> fst ` set (table_of st) \<or> length (table_of st) < min (capacity A env os st) (unat STATS_LIMIT)"
  shows "\<exists>st'. updateStat A env os a d st = Inr st' \<and> stats_ok st' \<and> updateStatSpinlock st' = 0
    \<and> capacity A env os st' \<ge> min (capacity A env os st) (unat STATS_LIMIT)"
proof -
  have "store_inv A env os st" using assms(1-3) by (simp add: store_inv_def)
  from updateStat_refines [OF this, of a d] assms(4)
  obtain st' where st': "updateStat A env os a d st = Inr st'" "store_inv A env os st'" "store_room A env os st' = store_room A env os st"
    by (auto simp: store_room_def)
  moreover have "updateStatSpinlock st' = 0"
    using st'(1) by (auto simp: updateStat_def Let_def bind_result_Inr_iff)
  moreover have "min (capacity A env os st) (unat STATS_LIMIT) \<le> capacity A env os st'"
    using st'(3) unfolding store_room_def by (metis min.cobounded1)
  ultimately show ?thesis by (auto simp: store_inv_def)
qed

theorem updateStat_well_formed_witness:
  "\<exists>st'. updateStat ARCH_32 [''ELFPERF_PROFILE_FUNCTION=f:g''] example_stats_os 0x500 7
      (fresh_stats \<lparr>seg_stat = 0, seg_info = 0, seg_context = None, info_heap = (\<lambda>_. None)\<rparr>) = Inr st' \<and> stats_ok st' \<and>
    updateStatSpinlock st' = 0"
proof -
  let ?env = "[''ELFPERF_PROFILE_FUNCTION=f:g'']"
    and ?st = "fresh_stats \<lparr>seg_stat = 0, seg_info = 0, seg_context = None, info_heap = (\<lambda>_. None)\<rparr>"
  have "getenv ARCH_32 ?env ELFPERF_PROFILE_FUNCTION_ENV_VARIABLE = Some ''f:g''" "c_string ''f:g''"
    by (simp_all add: getenv_def ELFPERF_PROFILE_FUNCTION_ENV_VARIABLE_def c_string_def)
  then have r: "store_inv ARCH_32 ?env example_stats_os ?st" "length (fn_words ''f:g'') \<le> capacity ARCH_32 ?env example_stats_os ?st"
    using fresh_room [OF example_stats_os_ok, of ARCH_32 ?env "''f:g''"] by simp_all
  then have "length (table_of ?st) < min (capacity ARCH_32 ?env example_stats_os ?st) (unat STATS_LIMIT)"
    by (simp add: fresh_stats_ok STATS_LIMIT_def)
  then show ?thesis
    using updateStat_well_formed [OF fresh_stats_ok(1) example_stats_os_ok, of ARCH_32 ?env "0x500" _ 7] r(1)
    by (force simp: store_inv_def)
qed

text \<open>C22. The faults of an update for a function without a row: without the segment the first
  one goes through a null pointer; a full array is written past its end, whatever the limit says;
  at the limit the program exits with status 1.\<close>

theorem updateStat_errors:
  assumes "stats_ok st" "a \<notin> fst ` set (table_of st)" "stats_os_ok os'"
    and "os = os'\<lparr>os_ipc := ipc\<rparr>"
  shows "(\<not> isSharedMemoryInited st \<and> getFunctionStatisticsStorage ipc = None \<longrightarrow>
            updateStat A env os a d st = Inl SegFault) \<and>
         (isSharedMemoryInited st \<and> length (table_of st) = capacity A env os st \<and>
            s_statsCount st < STATS_LIMIT \<longrightarrow> updateStat A env os a d st = Inl OutOfBounds) \<and>
         (isSharedMemoryInited st \<and> s_statsCount st = STATS_LIMIT \<longrightarrow>
            updateStat A env os a d st = Inl (Exit 1))"
proof -
  define st1 where "st1 = st\<lparr>updateStatSpinlock := 1\<rparr>"
  have ok: "stats_ok st1" "table_of st1 = table_of st"
    using assms(1) by (simp_all add: st1_def)
  have upd: "updateStat A env os a d st = Inl e" if "addNewStat A env os a d st1 = Inl e" for e
    using that assms(2) getFunctionStatistic_spec [OF ok(1), of a] ok(2)
    by (simp add: updateStat_def Let_def spin_lock_1 st1_def [symmetric] pos_of_None_iff [THEN iffD2])
  obtain p where "os_stat os' (stat_heap st) = Some p"
    using assms(3) card_heap [OF assms(1)] unfolding stats_os_ok_def by blast
  moreover have "\<exists>ps. stat_arrays st (s_stats st) = Some ps" if "isSharedMemoryInited st"
    using stats_ok_live [OF assms(1) that] by blast
  ultimately show ?thesis
    using length_live [OF assms(1)]
    by (intro conjI impI; intro upd)
       (auto simp: assms(4) addNewStat_def initSharedMemory_def Let_def st1_def capacity_def)
qed


theorem updateStat_errors_witness:
  "\<exists>st. updateStat ARCH_32 [''ELFPERF_PROFILE_FUNCTION=f''] (example_stats_os\<lparr>os_ipc := \<lambda>_ _. (-1, 0)\<rparr>)
     0x500 7 (fresh_stats st) = Inl SegFault"
proof -
  let ?ipc = "\<lambda>_ _. (-1, 0) :: int \<times> u64"
  let ?st = "fresh_stats \<lparr>seg_stat = 0, seg_info = 0, seg_context = None, info_heap = (\<lambda>_. None)\<rparr>"
  have "getFunctionStatisticsStorage ?ipc = None" "\<not> isSharedMemoryInited ?st"
    by (simp_all add: getFunctionStatisticsStorage_def attach_def fresh_stats_def)
  then show ?thesis
    using updateStat_errors [where st = ?st and a = "0x500" and d = 7 and ipc = ?ipc and A = ARCH_32
        and env = "[''ELFPERF_PROFILE_FUNCTION=f'']", OF fresh_stats_ok(1) _ example_stats_os_ok refl]
      fresh_stats_ok(2)
    by auto
qed

end
