(* ===== verification/Profiler.thy ===== *)
theory Profiler
  imports Global_Stats
begin

text \<open>
  The measurement of one thread: the time stamp counter (\<^verbatim>\<open>libelfperf/rdtsc_cntrs.c\<close>), the start and
  end times of \<^verbatim>\<open>libelfperf/global_stats.c\<close>, and \<^verbatim>\<open>preProfile\<close> and \<^verbatim>\<open>postProfile\<close> of
  \<^verbatim>\<open>libelfperf/libelfperf.c\<close>, which keep one context per active profiled call in a linked list.
\<close>

unbundle bit_operations_syntax

section \<open>State and operations\<close>

record WrappingContext =
  old :: u64
  realReturnAddr :: u64
  functionPtr :: u64
  startTime :: u64
  endTime :: u64

text \<open>
  The head of the list, a variable of the thread; the contexts that \<^verbatim>\<open>mmap\<close> gave, by address; the
  number of readings of the time stamp counter so far; the statistics.
\<close>

record prof_state =
  s_wrappingContext :: u64
  ctx_heap :: "u64 \<Rightarrow> WrappingContext option"
  tsc_reads :: nat
  prof_stats :: stats_state

text \<open>
  The parameters: what \<^verbatim>\<open>mmap\<close> gives for a context, \<open>None\<close> for \<^verbatim>\<open>MAP_FAILED\<close> (not tested by the
  code), and the values of \<^verbatim>\<open>edx\<close> and \<^verbatim>\<open>eax\<close> that the \<open>n\<close>-th \<^verbatim>\<open>rdtsc\<close> instruction leaves.
\<close>

record prof_os =
  os_ctx :: "(u64 \<Rightarrow> WrappingContext option) \<Rightarrow> u64 option"
  os_tsc :: "nat \<Rightarrow> u32 \<times> u32"
  os_stats :: stats_os

definition rdtsc :: "u32 \<times> u32 \<Rightarrow> u64" where
  "rdtsc edx_eax = (let (high, low) = edx_eax in push_bit 32 (ucast high :: u64) OR ucast low)"

definition getRdtscTicks :: "prof_os \<Rightarrow> prof_state \<Rightarrow> u64 \<times> prof_state" where
  "getRdtscTicks os p = (rdtsc (os_tsc os (tsc_reads p)), p\<lparr>tsc_reads := tsc_reads p + 1\<rparr>)"

definition record_start_time :: "prof_os \<Rightarrow> u64 \<Rightarrow> prof_state \<Rightarrow> prof_state result" where
  "record_start_time os cont p =
     (let (t, p1) = getRdtscTicks os p
      in case ctx_heap p1 cont of
           None \<Rightarrow> Inl SegFault
         | Some c \<Rightarrow> Inr (p1\<lparr>ctx_heap := (ctx_heap p1)(cont \<mapsto> c\<lparr>startTime := t\<rparr>)\<rparr>))"

definition record_end_time ::
  "arch \<Rightarrow> environ \<Rightarrow> prof_os \<Rightarrow> u64 \<Rightarrow> prof_state \<Rightarrow> prof_state result" where
  "record_end_time A env os cont p =
     (let (t, p1) = getRdtscTicks os p
      in case ctx_heap p1 cont of
           None \<Rightarrow> Inl SegFault
         | Some c \<Rightarrow>
             (let p2 = p1\<lparr>ctx_heap := (ctx_heap p1)(cont \<mapsto> c\<lparr>endTime := t\<rparr>)\<rparr>;
                  duration = t - startTime c
              in bind_result (updateStat A env (os_stats os) (functionPtr c) duration (prof_stats p2))
                   (\<lambda>st. Inr (p2\<lparr>prof_stats := st\<rparr>))))"

definition preProfile :: "prof_os \<Rightarrow> u64 \<Rightarrow> u64 \<Rightarrow> prof_state \<Rightarrow> prof_state result" where
  "preProfile os returnAddr funPtr p =
     (case os_ctx os (ctx_heap p) of
        None \<Rightarrow> Inl SegFault
      | Some cont \<Rightarrow>
          record_start_time os cont
            (p\<lparr>ctx_heap := (ctx_heap p)(cont \<mapsto>
                 \<lparr>old = s_wrappingContext p, realReturnAddr = returnAddr, functionPtr = funPtr,
                  startTime = 0, endTime = 0\<rparr>),
               s_wrappingContext := cont\<rparr>))"

definition postProfile ::
  "arch \<Rightarrow> environ \<Rightarrow> prof_os \<Rightarrow> prof_state \<Rightarrow> (u64 \<times> prof_state) result" where
  "postProfile A env os p =
     (let cont = s_wrappingContext p
      in case ctx_heap p cont of
           None \<Rightarrow> Inl SegFault
         | Some c \<Rightarrow>
             bind_result (record_end_time A env os cont (p\<lparr>s_wrappingContext := old c\<rparr>))
               (\<lambda>p1. Inr (realReturnAddr c, p1\<lparr>ctx_heap := (ctx_heap p1)(cont := None)\<rparr>)))"

section \<open>The stack of active calls\<close>

text \<open>An active call: return address, function, start time. The list of contexts is the stack of
  active calls, the innermost first.\<close>

type_synonym frame = "u64 \<times> u64 \<times> u64"

fun ctx_chain :: "(u64 \<Rightarrow> WrappingContext option) \<Rightarrow> u64 \<Rightarrow> u64 list \<Rightarrow> bool" where
  "ctx_chain h p [] \<longleftrightarrow> p = 0"
| "ctx_chain h p (q # qs) \<longleftrightarrow>
     p = q \<and> q \<noteq> 0 \<and> (case h q of None \<Rightarrow> False | Some c \<Rightarrow> ctx_chain h (old c) qs)"

definition frame_at :: "(u64 \<Rightarrow> WrappingContext option) \<Rightarrow> u64 \<Rightarrow> frame" where
  "frame_at h q = (case h q of
     None \<Rightarrow> (0, 0, 0) | Some c \<Rightarrow> (realReturnAddr c, functionPtr c, startTime c))"

definition prof_rel ::
  "arch \<Rightarrow> environ \<Rightarrow> prof_os \<Rightarrow> prof_state \<Rightarrow> frame list \<Rightarrow> bool" where
  "prof_rel A env os p fs \<longleftrightarrow>
     (\<exists>qs. ctx_chain (ctx_heap p) (s_wrappingContext p) qs \<and> distinct qs \<and>
           dom (ctx_heap p) = set qs \<and> map (frame_at (ctx_heap p)) qs = fs)
     \<and> store_inv A env (os_stats os) (prof_stats p)"

text \<open>The documented behaviour of the kernel: as long as fewer than \<open>n\<close> contexts are mapped, a new
  one is at an address that is not in use.\<close>

definition ctx_os_ok :: "nat \<Rightarrow> prof_os \<Rightarrow> bool" where
  "ctx_os_ok n os \<longleftrightarrow>
     (\<forall>h. card (dom h) < n \<longrightarrow> (\<exists>q. os_ctx os h = Some q \<and> q \<noteq> 0 \<and> q \<notin> dom h))"

definition now :: "prof_os \<Rightarrow> prof_state \<Rightarrow> u64" where
  "now os p = rdtsc (os_tsc os (tsc_reads p))"

lemma ctx_chain_cong:
  "(\<And>q. q \<in> set qs \<Longrightarrow> h q = h' q) \<Longrightarrow> ctx_chain h p qs = ctx_chain h' p qs"
  by (induction qs arbitrary: p) (auto split: option.splits)

text \<open>A cell outside the list can be changed.\<close>

lemma chain_upd [simp]:
  assumes "q \<notin> set qs"
  shows "ctx_chain (h(q := x)) p qs = ctx_chain h p qs"
  using assms by (intro ctx_chain_cong) auto

lemma frames_upd [simp]: "q \<notin> set qs \<Longrightarrow> map (frame_at (h(q := x))) qs = map (frame_at h) qs"
  by (auto simp: frame_at_def)

lemma preProfile_push:
  assumes "prof_rel A env os p fs" "ctx_os_ok n os" "length fs < n"
  shows "\<exists>p'. preProfile os r f p = Inr p' \<and> prof_rel A env os p' ((r, f, now os p) # fs) \<and>
           prof_stats p' = prof_stats p"
proof -
  obtain qs where qs: "ctx_chain (ctx_heap p) (s_wrappingContext p) qs" "distinct qs"
      "dom (ctx_heap p) = set qs" "map (frame_at (ctx_heap p)) qs = fs"
    using assms(1) by (auto simp: prof_rel_def)
  have "card (dom (ctx_heap p)) < n"
    using assms(3) qs by (auto simp: distinct_card)
  then obtain q where q: "os_ctx os (ctx_heap p) = Some q" "q \<noteq> 0" "q \<notin> set qs"
    using assms(2) qs(3) unfolding ctx_os_ok_def by blast
  define h where "h = (ctx_heap p)(q \<mapsto> \<lparr>old = s_wrappingContext p, realReturnAddr = r, functionPtr = f,
     startTime = now os p, endTime = 0\<rparr>)"
  have "ctx_chain h (s_wrappingContext p) qs" "map (frame_at h) qs = fs"
    using q(3) qs(1,4) by (simp_all add: h_def del: map_eq_conv)
  then have "ctx_chain h q (q # qs)" "map (frame_at h) (q # qs) = (r, f, now os p) # fs"
    using q(2) by (simp_all add: h_def frame_at_def)
  moreover have "dom h = set (q # qs)" "distinct (q # qs)"
    using q(3) qs(2,3) by (auto simp: h_def)
  moreover have "preProfile os r f p =
      Inr (p\<lparr>ctx_heap := h, s_wrappingContext := q, tsc_reads := tsc_reads p + 1\<rparr>)"
    using q(1) by (simp add: preProfile_def record_start_time_def getRdtscTicks_def h_def now_def)
  ultimately show ?thesis
    using assms(1) by (auto simp: prof_rel_def intro!: exI [of _ "q # qs"])
qed


lemma postProfile_pop:
  assumes "prof_rel A env os p ((r, f, t) # fs)"
    and "f \<in> fst ` set (table_of (prof_stats p)) \<or>
         length (table_of (prof_stats p)) < store_room A env (os_stats os) (prof_stats p)"
  shows "\<exists>p'. postProfile A env os p = Inr (r, p') \<and> prof_rel A env os p' fs \<and>
           table_of (prof_stats p') = bump f (now os p - t) (table_of (prof_stats p)) \<and>
           store_room A env (os_stats os) (prof_stats p') = store_room A env (os_stats os) (prof_stats p)"
proof -
  obtain q qs where qs: "ctx_chain (ctx_heap p) (s_wrappingContext p) (q # qs)" "distinct (q # qs)"
      "dom (ctx_heap p) = set (q # qs)" "map (frame_at (ctx_heap p)) (q # qs) = (r, f, t) # fs"
    using assms(1) by (auto simp: prof_rel_def Cons_eq_map_conv)
  obtain c where c: "ctx_heap p q = Some c" "ctx_chain (ctx_heap p) (old c) qs" "s_wrappingContext p = q"
    using qs(1) by (auto split: option.splits)
  then have fr: "realReturnAddr c = r" "functionPtr c = f" "startTime c = t"
    using qs(4) by (simp_all add: frame_at_def)
  obtain st where st: "updateStat A env (os_stats os) f (now os p - t) (prof_stats p) = Inr st"
      "store_inv A env (os_stats os) st" "table_of st = bump f (now os p - t) (table_of (prof_stats p))"
      "store_room A env (os_stats os) st = store_room A env (os_stats os) (prof_stats p)"
    using gs.upd_bump [of A env "os_stats os" "prof_stats p" f "now os p - t"] assms
    by (auto simp: prof_rel_def)
  define h where "h = (ctx_heap p)(q := None)"
  have "ctx_chain h (old c) qs" "map (frame_at h) qs = fs" "dom h = set qs" "distinct qs"
    using c(2) qs by (auto simp: h_def simp del: map_eq_conv)
  moreover have "postProfile A env os p = Inr (r, p\<lparr>s_wrappingContext := old c, ctx_heap := h,
      tsc_reads := tsc_reads p + 1, prof_stats := st\<rparr>)"
    using c st(1) fr
    by (simp add: postProfile_def record_end_time_def getRdtscTicks_def h_def now_def Let_def)
  ultimately show ?thesis
    using st by (auto simp: prof_rel_def)
qed


section \<open>Nested profiled calls\<close>

text \<open>A profiled call with the profiled calls that it makes: function, return address, calls.\<close>

datatype call_tree = Call_Tree u64 u64 "call_tree list"

text \<open>
  What the wrapper does around a call: \<^verbatim>\<open>preProfile\<close> on entry, \<^verbatim>\<open>postProfile\<close> at the return
  point, which must give the return address of this call back; otherwise control goes astray.
\<close>

fun run_call :: "(u64 \<Rightarrow> u64 \<Rightarrow> 'p \<Rightarrow> 'p result) \<Rightarrow> ('p \<Rightarrow> (u64 \<times> 'p) result) \<Rightarrow> call_tree \<Rightarrow> 'p \<Rightarrow> 'p result"
  and run_calls :: "(u64 \<Rightarrow> u64 \<Rightarrow> 'p \<Rightarrow> 'p result) \<Rightarrow> ('p \<Rightarrow> (u64 \<times> 'p) result) \<Rightarrow> call_tree list \<Rightarrow> 'p \<Rightarrow> 'p result"
where
  "run_call pre post (Call_Tree f r cs) p =
     bind_result (pre r f p) (\<lambda>p1.
     bind_result (run_calls pre post cs p1) (\<lambda>p2.
     bind_result (post p2) (\<lambda>(a, p3). if a = r then Inr p3 else Inl AssertFailed)))"
| "run_calls pre post [] p = Inr p"
| "run_calls pre post (c # cs) p = bind_result (run_call pre post c p) (run_calls pre post cs)"

text \<open>The functions of a call in the order in which they return, and the depth of the nesting.\<close>

fun returns :: "call_tree \<Rightarrow> u64 list" and returns_all :: "call_tree list \<Rightarrow> u64 list" where
  "returns (Call_Tree f r cs) = returns_all cs @ [f]"
| "returns_all [] = []"
| "returns_all (c # cs) = returns c @ returns_all cs"

fun nesting :: "call_tree \<Rightarrow> nat" and nesting_all :: "call_tree list \<Rightarrow> nat" where
  "nesting (Call_Tree f r cs) = Suc (nesting_all cs)"
| "nesting_all [] = 0"
| "nesting_all (c # cs) = max (nesting c) (nesting_all cs)"

definition bumps :: "(u64 \<times> u64) list \<Rightarrow> stat_table \<Rightarrow> stat_table" where
  "bumps es tab = fold (\<lambda>(f, d). bump f d) es tab"

lemma bumps_append [simp]: "bumps (xs @ ys) tab = bumps ys (bumps xs tab)"
  by (simp add: bumps_def)

lemma fst_bump: "fst ` set (bump a d tab) = insert a (fst ` set tab)"
  by (induction a d tab rule: bump.induct) auto

lemma distinct_bump: "distinct (map fst tab) \<Longrightarrow> distinct (map fst (bump a d tab))"
proof (induction a d tab rule: bump.induct)
  case (2 a d b n t xs)
  moreover have "b \<notin> fst ` set (bump a d xs)" if "b \<noteq> a"
    using that 2(2) by (simp add: fst_bump image_iff)
  ultimately show ?case by auto
qed simp

lemma fst_bumps: "fst ` set (bumps es t) = set (map fst es) \<union> fst ` set t"
proof (induction es arbitrary: t)
  case (Cons e es)
  then show ?case
    by (cases e) (simp add: bumps_def fst_bump)
qed (simp add: bumps_def)

lemma bumps_rows: "bumps es (stat_rows xs) = stat_rows (xs @ es)"
proof (induction es arbitrary: xs)
  case (Cons e es)
  then show ?case
    using Cons [of "xs @ [e]"] by (cases e) (simp add: bumps_def stat_rows_snoc)
qed (simp add: bumps_def)

text \<open>
  What the wrappers rely on. \<open>rel p fs\<close>: the state is sound and \<open>fs\<close> are its active calls;
  \<open>tab\<close> and \<open>room\<close> are the statistics and how many functions they can hold; \<open>depth\<close> is the number of
  active calls there can be.
\<close>

locale profile_hooks =
  fixes pre :: "u64 \<Rightarrow> u64 \<Rightarrow> 'p \<Rightarrow> 'p result"
    and post :: "'p \<Rightarrow> (u64 \<times> 'p) result"
    and rel :: "'p \<Rightarrow> frame list \<Rightarrow> bool"
    and tab :: "'p \<Rightarrow> stat_table"
    and room :: "'p \<Rightarrow> nat"
    and clock :: "'p \<Rightarrow> u64"
    and depth :: nat
  assumes rel_distinct: "rel p fs \<Longrightarrow> distinct (map fst (tab p))"
    and pre_push: "rel p fs \<Longrightarrow> length fs < depth \<Longrightarrow>
      \<exists>p'. pre r f p = Inr p' \<and> rel p' ((r, f, clock p) # fs) \<and> tab p' = tab p \<and> room p' = room p"
    and post_pop: "rel p ((r, f, t) # fs) \<Longrightarrow> f \<in> fst ` set (tab p) \<or> length (tab p) < room p \<Longrightarrow>
      \<exists>p'. post p = Inr (r, p') \<and> rel p' fs \<and> tab p' = bump f (clock p - t) (tab p) \<and> room p' = room p"
begin

lemma post_pop_card:
  assumes "rel p ((r, f, t) # fs)" "card (insert f (fst ` set (tab p))) \<le> room p"
  shows "\<exists>p'. post p = Inr (r, p') \<and> rel p' fs \<and> tab p' = bump f (clock p - t) (tab p) \<and> room p' = room p"
proof (rule post_pop [OF assms(1)])
  have "card (fst ` set (tab p)) = length (tab p)"
    using rel_distinct [OF assms(1)] distinct_card by fastforce
  then show "f \<in> fst ` set (tab p) \<or> length (tab p) < room p"
    using assms(2) by (auto simp: card_insert_if split: if_splits)
qed

lemma run_ok:
  "rel p fs \<Longrightarrow> length fs + nesting c \<le> depth \<Longrightarrow> card (set (returns c) \<union> fst ` set (tab p)) \<le> room p \<Longrightarrow>
     \<exists>p' es. run_call pre post c p = Inr p' \<and> rel p' fs \<and> room p' = room p \<and>
       map fst es = returns c \<and> tab p' = bumps es (tab p)"
  "rel p fs \<Longrightarrow> length fs + nesting_all cs \<le> depth \<Longrightarrow> card (set (returns_all cs) \<union> fst ` set (tab p)) \<le> room p \<Longrightarrow>
     \<exists>p' es. run_calls pre post cs p = Inr p' \<and> rel p' fs \<and> room p' = room p \<and>
       map fst es = returns_all cs \<and> tab p' = bumps es (tab p)"
proof (induction c and cs arbitrary: p fs and p fs rule: returns_returns_all.induct)
  case (1 f r cs)
  obtain p1 where p1: "pre r f p = Inr p1" "rel p1 ((r, f, clock p) # fs)" "tab p1 = tab p" "room p1 = room p"
    using pre_push [OF 1(2), of r f] 1(3) by auto
  have "card (set (returns_all cs) \<union> fst ` set (tab p1)) \<le> card (set (returns (Call_Tree f r cs)) \<union> fst ` set (tab p))"
    by (rule card_mono) (auto simp: p1)
  then obtain p2 es where p2: "run_calls pre post cs p1 = Inr p2" "rel p2 ((r, f, clock p) # fs)"
      "room p2 = room p" "map fst es = returns_all cs" "tab p2 = bumps es (tab p)"
    using 1(1) [OF p1(2)] 1(3,4) p1(3,4) by auto
  have "insert f (fst ` set (tab p2)) = set (returns (Call_Tree f r cs)) \<union> fst ` set (tab p)"
    using p2(4) by (simp add: p2(5) fst_bumps)
  then obtain p3 where p3: "post p2 = Inr (r, p3)" "rel p3 fs" "room p3 = room p2"
      "tab p3 = bump f (clock p2 - clock p) (tab p2)"
    using post_pop_card [OF p2(2)] 1(4) p2(3) by auto
  have "tab p3 = bumps (es @ [(f, clock p2 - clock p)]) (tab p)"
    by (simp add: p3(4) p2(5)) (simp add: bumps_def)
  then show ?case
    using p1(1) p2 p3 by (auto intro!: exI [of _ "es @ [(f, clock p2 - clock p)]"])
next
  case (3 c cs)
  have "card (set (returns c) \<union> fst ` set (tab p)) \<le> card (set (returns_all (c # cs)) \<union> fst ` set (tab p))"
    by (rule card_mono) auto
  then obtain p1 es where p1: "run_call pre post c p = Inr p1" "rel p1 fs" "room p1 = room p"
      "map fst es = returns c" "tab p1 = bumps es (tab p)"
    using 3(1) [OF 3(3)] 3(4,5) by (auto simp: max_def split: if_splits)
  have "set (returns_all cs) \<union> fst ` set (tab p1) = set (returns_all (c # cs)) \<union> fst ` set (tab p)"
    using p1(4) by (auto simp: p1(5) fst_bumps)
  then obtain p2 es' where p2: "run_calls pre post cs p1 = Inr p2" "rel p2 fs" "room p2 = room p1"
      "map fst es' = returns_all cs" "tab p2 = bumps es' (tab p1)"
    using 3(2) [OF p1(2)] 3(4,5) p1(3) by (auto simp: max_def split: if_splits)
  then show ?case
    using p1 by (auto intro!: exI [of _ "es @ es'"])
qed (auto simp: bumps_def)

end

definition prof_room :: "arch \<Rightarrow> environ \<Rightarrow> prof_os \<Rightarrow> prof_state \<Rightarrow> nat" where
  "prof_room A env os p = store_room A env (os_stats os) (prof_stats p)"


lemma table_distinct: "stats_ok st \<Longrightarrow> distinct (map fst (table_of st))"
proof (cases "isSharedMemoryInited st")
  case False
  moreover assume "stats_ok st"
  ultimately show ?thesis using stats_ok_fresh [of st] by (simp add: table_of_def)
qed (simp add: stats_ok_def)

interpretation ph: profile_hooks "preProfile os" "postProfile A env os"
  "\<lambda>p fs. prof_rel A env os p fs \<and> ctx_os_ok n os" "\<lambda>p. table_of (prof_stats p)" "prof_room A env os"
  "now os" n for A env os n
proof (unfold_locales, goal_cases)
  case (1 p fs)
  then have "stats_ok (prof_stats p)" unfolding prof_rel_def store_inv_def by blast
  then show ?case by (rule table_distinct)
next
  case (2 p fs r f)
  then show ?case using preProfile_push [of A env os p fs n r f] by (auto simp: prof_room_def)
next
  case (3 p r f t fs)
  then show ?case using postProfile_pop [of A env os p r f t fs] by (auto simp: prof_room_def)
qed

section \<open>Properties\<close>

definition fresh_prof :: "shared_state \<Rightarrow> prof_state" where
  "fresh_prof sh = \<lparr>s_wrappingContext = 0, ctx_heap = Map.empty, tsc_reads = 0, prof_stats = fresh_stats sh\<rparr>"

lemma prof_rel_Nil: "prof_rel A env os p [] \<longleftrightarrow>
    s_wrappingContext p = 0 \<and> ctx_heap p = Map.empty \<and> store_inv A env (os_stats os) (prof_stats p)"
  by (auto simp: prof_rel_def)

text \<open>C7. A thread that makes any number of profiled calls, nested in any way to the depth for
  which contexts can be mapped and of at most as many functions as are configured, gets every return
  address back in its place and never faults; at the end no context is active or left mapped, and the
  report counts every call once for its function.\<close>

theorem profiled_calls_exact:
  assumes "stats_os_ok (os_stats os)" "ctx_os_ok n os"
    and "getenv A env ELFPERF_PROFILE_FUNCTION_ENV_VARIABLE = Some v" "c_string v" "v \<noteq> []"
    and "nesting_all cs \<le> n"
    and "card (set (returns_all cs)) \<le> length (fn_words v)" "card (set (returns_all cs)) \<le> 10000000"
  shows "\<exists>p es. run_calls (preProfile os) (postProfile A env os) cs (fresh_prof sh) = Inr p \<and>
           s_wrappingContext p = 0 \<and> ctx_heap p = Map.empty \<and> map fst es = returns_all cs \<and>
           printFunctionStatistics (prof_stats p) = Inr (map (\<lambda>(a, n, t). (a, t, n)) (stat_rows es))"
proof -
  note fr = fresh_room [OF assms(1,3-5), of sh]
  have "prof_rel A env os (fresh_prof sh) []"
    using fr(1) by (simp add: prof_rel_Nil fresh_prof_def)
  moreover have "card (set (returns_all cs)) \<le> prof_room A env os (fresh_prof sh)"
    using assms(7,8) fr(2) by (simp add: prof_room_def fresh_prof_def store_room_def STATS_LIMIT_def)
  ultimately obtain p es where p: "run_calls (preProfile os) (postProfile A env os) cs (fresh_prof sh) = Inr p"
      "prof_rel A env os p []" "map fst es = returns_all cs"
      "table_of (prof_stats p) = bumps es (table_of (prof_stats (fresh_prof sh)))"
    using ph.run_ok(2) [of A env os "fresh_prof sh" "[]" n cs] assms(2,6)
    by (auto simp: fresh_prof_def fresh_stats_ok)
  have "table_of (prof_stats p) = stat_rows es"
    using bumps_rows [of es "[]"] by (simp add: p(4) fresh_prof_def fresh_stats_ok) (simp add: stat_rows_def)
  then show ?thesis
    using p print_rows [of "prof_stats p"] by (auto simp: prof_rel_Nil store_inv_def)
qed

definition example_prof_os :: prof_os where
  "example_prof_os = \<lparr>os_ctx = first_free 100, os_tsc = (\<lambda>k. (1, of_nat (k * 10))), os_stats = example_stats_os\<rparr>"

lemma example_prof_os_ok: "ctx_os_ok 100 example_prof_os"
proof -
  have "\<exists>q. first_free 100 h = Some q \<and> q \<noteq> 0 \<and> q \<notin> dom h"
    if "card (dom h) < 100" for h :: "u64 \<Rightarrow> WrappingContext option"
    using first_free_ok [of h 100] that by simp
  then show ?thesis by (simp add: ctx_os_ok_def example_prof_os_def)
qed

theorem profiled_calls_exact_witness:
  "\<exists>p es. run_calls (preProfile example_prof_os)
       (postProfile ARCH_64 [''ELFPERF_PROFILE_FUNCTION=f:g''] example_prof_os)
       [Call_Tree 0x500 0x10 [Call_Tree 0x400 0x20 [], Call_Tree 0x500 0x30 []]]
       (fresh_prof \<lparr>seg_stat = 0, seg_info = 0, seg_context = None, info_heap = (\<lambda>_. None)\<rparr>) = Inr p \<and>
     ctx_heap p = Map.empty \<and> map fst es = [0x400, 0x500, 0x500] \<and>
     printFunctionStatistics (prof_stats p) = Inr (map (\<lambda>(a, n, t). (a, t, n)) (stat_rows es))"
proof -
  let ?env = "[''ELFPERF_PROFILE_FUNCTION=f:g'']"
  let ?cs = "[Call_Tree 0x500 0x10 [Call_Tree 0x400 0x20 [], Call_Tree 0x500 0x30 []]]"
  have "stats_os_ok (os_stats example_prof_os)"
    by (simp add: example_prof_os_def example_stats_os_ok)
  moreover have "getenv ARCH_64 ?env ELFPERF_PROFILE_FUNCTION_ENV_VARIABLE = Some ''f:g''"
    by (simp add: getenv_def ELFPERF_PROFILE_FUNCTION_ENV_VARIABLE_def)
  moreover have "c_string ''f:g''" by (simp add: c_string_def)
  moreover have "nesting_all ?cs \<le> 100" "card (set (returns_all ?cs)) \<le> length (fn_words ''f:g'')"
      "card (set (returns_all ?cs)) \<le> 10000000"
    by (simp_all add: card_insert_if)
  ultimately show ?thesis
    using profiled_calls_exact [OF _ example_prof_os_ok, of ARCH_64 ?env "''f:g''" ?cs] by fastforce
qed


lemma rdtsc_unat: "unat (rdtsc (h, l)) = unat h * 2 ^ 32 + unat l"
proof -
  have hl: "unat h < 2 ^ 32" "unat l < 2 ^ 32"
    using unsigned_less [where 'a = nat, of h] unsigned_less [where 'a = nat, of l] by simp_all
  have u: "unat (ucast x :: u64) = unat (x :: u32)" for x
    using unsigned_less [where 'a = nat, of x] by (simp add: unsigned_ucast_eq take_bit_nat_eq_self)
  have "push_bit 32 (ucast h :: u64) AND ucast l = 0"
    by (rule bit_word_eqI) (auto simp: bit_simps dest: bit_imp_le_length)
  then have "rdtsc (h, l) = push_bit 32 (ucast h) + (ucast l :: u64)"
    by (simp add: rdtsc_def disjunctive_add_eq_or)
  moreover have "unat (push_bit 32 (ucast h :: u64)) = unat h * 2 ^ 32"
    using hl by (simp add: push_bit_eq_mult unat_mult_lem [THEN iffD1] u)
  ultimately show ?thesis
    using hl by (simp add: unat_plus_if' u)
qed

text \<open>A time stamp is the value of \<^verbatim>\<open>edx\<close> times \<open>2 ^ 32\<close> plus that of \<^verbatim>\<open>eax\<close>; the two halves
  of one profiled call give the return address back, leave the other active calls as they were, and add one
  call and exactly the difference of the two time stamps modulo \<open>2 ^ 64\<close> to the function's statistics.\<close>

lemma profiled_call_duration:
  assumes "prof_rel A env os p fs" "ctx_os_ok n os" "length fs < n"
    and "f \<in> fst ` set (table_of (prof_stats p)) \<or>
         length (table_of (prof_stats p)) < store_room A env (os_stats os) (prof_stats p)"
    and "os_tsc os (tsc_reads p) = (h1, l1)" "os_tsc os (Suc (tsc_reads p)) = (h2, l2)"
  shows "\<exists>p1 p2 d. preProfile os r f p = Inr p1 \<and> postProfile A env os p1 = Inr (r, p2) \<and>
           prof_rel A env os p2 fs \<and>
           table_of (prof_stats p2) = bump f d (table_of (prof_stats p)) \<and>
           int (unat d) = (int (unat h2 * 2 ^ 32 + unat l2) - int (unat h1 * 2 ^ 32 + unat l1)) mod 2 ^ 64"
proof -
  obtain p1 where p1: "preProfile os r f p = Inr p1" "prof_rel A env os p1 ((r, f, now os p) # fs)"
      "prof_stats p1 = prof_stats p"
    using preProfile_push [OF assms(1-3)] by blast
  have "tsc_reads p1 = Suc (tsc_reads p)"
    using p1(1) by (auto simp: preProfile_def record_start_time_def getRdtscTicks_def
        split: option.splits)
  then have n: "now os p1 - now os p = rdtsc (h2, l2) - rdtsc (h1, l1)"
    using assms(5,6) by (simp add: now_def)
  obtain p2 where p2: "postProfile A env os p1 = Inr (r, p2)" "prof_rel A env os p2 fs"
      "table_of (prof_stats p2) = bump f (now os p1 - now os p) (table_of (prof_stats p))"
    using postProfile_pop [OF p1(2)] assms(4) p1(3) by auto
  have "int (unat (rdtsc (h2, l2) - rdtsc (h1, l1))) =
        (int (unat (rdtsc (h2, l2))) - int (unat (rdtsc (h1, l1)))) mod 2 ^ 64"
    by (simp add: uint_word_ariths take_bit_eq_mod)
  then show ?thesis
    using p1(1) p2 n unfolding rdtsc_unat by auto
qed

text \<open>The faults of the two hooks: when no context can be mapped, the entry writes through
  \<^verbatim>\<open>MAP_FAILED\<close>; when the thread has no active call, the return point reads through a null pointer.\<close>

lemma profile_hook_faults:
  assumes "prof_rel A env os p []"
  shows "postProfile A env os p = Inl SegFault \<and>
         (os_ctx os (ctx_heap q) = None \<longrightarrow> preProfile os r f q = Inl SegFault)"
  using assms by (simp add: prof_rel_Nil postProfile_def preProfile_def)

end
