(* ===== verification/Wrapped_Call.thy ===== *)
theory Wrapped_Call
  imports Wrappers Profiler
begin

text \<open>
  The wrapper with its hooks: the machine code of \<^verbatim>\<open>wrapper\<close> calls \<^verbatim>\<open>preProfile\<close> and
  \<^verbatim>\<open>postProfile\<close> on the contexts and statistics of the profiler. The profiled function itself is
  any code that keeps the calling convention.
\<close>

text \<open>The hooks as the machine calls them. Pointers have the width of the machine; after a fault
  nothing is known.\<close>

definition hook_pre :: "prof_os \<Rightarrow> 'a::len word \<Rightarrow> 'a word \<Rightarrow> prof_state result \<Rightarrow> prof_state result" where
  "hook_pre os r f p = bind_result p (preProfile os (ucast r) (ucast f))"

definition hook_post ::
  "arch \<Rightarrow> environ \<Rightarrow> prof_os \<Rightarrow> prof_state result \<Rightarrow> 'a::len word \<times> prof_state result" where
  "hook_post A env os p =
     (case bind_result p (postProfile A env os) of
        Inl e \<Rightarrow> (0, Inl e)
      | Inr (r, p') \<Rightarrow> (ucast r, Inr p'))"

text \<open>
  The profiled function has run from \<open>s\<close> to \<open>t\<close>: it has returned to the address on top of the
  stack that it was entered with, and has made the profiled calls \<open>cs\<close>.
\<close>

definition returned :: "arch \<Rightarrow> environ \<Rightarrow> prof_os \<Rightarrow> call_tree list \<Rightarrow>
    ('a::len word, prof_state result) mstate \<Rightarrow> ('a word, prof_state result) mstate \<Rightarrow> bool" where
  "returned A env os cs s t \<longleftrightarrow>
     m_ip t = m_mem s (m_sp s) \<and> m_sp t = m_sp s + of_nat (cell TYPE('a)) \<and>
     m_prof t = bind_result (m_prof s) (run_calls (preProfile os) (postProfile A env os) cs)"

definition can_profile :: "arch \<Rightarrow> environ \<Rightarrow> prof_os \<Rightarrow> nat \<Rightarrow> u64 \<Rightarrow> call_tree list \<Rightarrow> frame list \<Rightarrow> prof_state \<Rightarrow> bool" where
  "can_profile A env os d f cs fs p \<longleftrightarrow>
     prof_rel A env os p fs \<and> ctx_os_ok d os \<and> length fs + Suc (nesting_all cs) \<le> d \<and>
     card (insert f (set (returns_all cs) \<union> fst ` set (table_of (prof_stats p)))) \<le> prof_room A env os p"

lemma hooks_around:
  assumes "can_profile A env os d f cs fs p"
  shows "\<exists>p1 p2 p3 es t. preProfile os r f p = Inr p1 \<and>
           run_calls (preProfile os) (postProfile A env os) cs p1 = Inr p2 \<and>
           postProfile A env os p2 = Inr (r, p3) \<and> prof_rel A env os p3 fs \<and>
           map fst es = returns_all cs \<and>
           table_of (prof_stats p3) = bump f t (bumps es (table_of (prof_stats p)))"
proof -
  note [simp] = Un_insert_right
  obtain p1 where p1: "preProfile os r f p = Inr p1" "prof_rel A env os p1 ((r, f, now os p) # fs)"
      "table_of (prof_stats p1) = table_of (prof_stats p)" "prof_room A env os p1 = prof_room A env os p"
    using ph.pre_push [of A env os p fs d r f] assms by (auto simp: can_profile_def)
  have "card (set (returns_all cs) \<union> fst ` set (table_of (prof_stats p))) \<le>
        card (insert f (set (returns_all cs) \<union> fst ` set (table_of (prof_stats p))))"
    by (rule card_mono) auto
  then obtain p2 es where p2: "run_calls (preProfile os) (postProfile A env os) cs p1 = Inr p2"
      "prof_rel A env os p2 ((r, f, now os p) # fs)" "prof_room A env os p2 = prof_room A env os p"
      "map fst es = returns_all cs" "table_of (prof_stats p2) = bumps es (table_of (prof_stats p))"
    using ph.run_ok(2) [of A env os p1 "(r, f, now os p) # fs" d cs] assms p1
    by (auto simp: can_profile_def)
  have "fst ` set (table_of (prof_stats p2)) = set (returns_all cs) \<union> fst ` set (table_of (prof_stats p))"
    using p2(4) by (simp add: p2(5) fst_bumps)
  then show ?thesis
    using ph.post_pop_card [of A env os p2 r f "now os p" fs d] assms p1(1) p2
    by (auto simp: can_profile_def)
qed


lemma wrapped_call_64:
  assumes "e_arch E = ARCH_64" "e_pre E = hook_pre os" "e_post E = hook_post ARCH_64 env os"
    and "8 * e_frame E < 2 ^ 64" "n + 32 \<le> e_frame E"
    and "m_mem s (m_sp s) = fcn" "m_mem s (m_sp s + 16) = ret" "m_prof s = Inr p"
    and "can_profile ARCH_64 env os d fcn cs fs p"
    and "returned ARCH_64 env os cs (exec E wrapper64_entry s) t"
  shows "let s1 = exec E wrapper64_entry s; s2 = exec E wrapper64_rp t in
           m_ip s1 = fcn \<and> m_regs s1 = (m_regs s)(AX := m_mem s (m_sp s + 8)) \<and>
           (\<forall>k < 8. m_xmm s1 k = m_xmm s k) \<and>
           (\<forall>i < n. m_mem s1 (cell_at (m_sp s + 24) i) = m_mem s (cell_at (m_sp s + 24) i)) \<and>
           m_ip t = e_rp E \<and>
           m_ip s2 = ret \<and> m_sp s2 = m_sp s + 24 \<and> m_regs s2 = m_regs t \<and>
           (\<forall>k < 8. m_xmm s2 k = m_xmm t k) \<and>
           (\<forall>i < n. m_mem s2 (cell_at (m_sp s + 24) i) = m_mem t (cell_at (m_sp s + 24) i)) \<and>
           (\<exists>p' es u. m_prof s2 = Inr p' \<and> prof_rel ARCH_64 env os p' fs \<and> map fst es = returns_all cs \<and>
              table_of (prof_stats p') = bump fcn u (bumps es (table_of (prof_stats p))))"
proof -
  note e = entry64_exec [OF assms(1,4,5), of s, unfolded Let_def]
  obtain p1 p2 p3 es u where h: "preProfile os ret fcn p = Inr p1"
      "run_calls (preProfile os) (postProfile ARCH_64 env os) cs p1 = Inr p2"
      "postProfile ARCH_64 env os p2 = Inr (ret, p3)" "prof_rel ARCH_64 env os p3 fs"
      "map fst es = returns_all cs"
      "table_of (prof_stats p3) = bump fcn u (bumps es (table_of (prof_stats p)))"
    using hooks_around [OF assms(9)] by blast
  have t: "m_prof t = Inr p2" "m_sp t = m_sp s + 24" "m_ip t = e_rp E"
    using assms(2,6-8,10) e h(1,2) by (auto simp: returned_def hook_pre_def)
  have "n + 31 \<le> e_frame E" using assms(5) by simp
  note r = rp64_exec [OF assms(1,4) this, of t, unfolded Let_def]
  have "e_post E (m_prof t) = (ret, Inr p3)"
    using h(3) by (simp add: assms(3) t hook_post_def)
  then show ?thesis
    using e r t h assms(6,7) by (auto simp: Let_def)
qed

text \<open>C2. A profiled call on x86-64 is transparent. From the entry of the wrapper, with the
  function's address, the saved \<^verbatim>\<open>rax\<close> and the return address on the stack: the function is
  entered with every register, \<^verbatim>\<open>xmm0\<close> to \<^verbatim>\<open>xmm7\<close> and the caller's stack as the caller left them;
  it returns to the return point; and from there control goes back to the caller's return address
  with every register, \<^verbatim>\<open>xmm0\<close> to \<^verbatim>\<open>xmm7\<close>, the stack pointer and the stack as the function left
  them. The active calls are those before the call, and the call and the calls nested in it
  are counted.\<close>

theorem wrapped_call_transparent_64:
  assumes "e_arch E = ARCH_64" "e_pre E = hook_pre os" "e_post E = hook_post ARCH_64 env os"
    and "8 * e_frame E < 2 ^ 64" "n + 32 \<le> e_frame E"
    and "m_mem s (m_sp s) = fcn" "m_mem s (m_sp s + 16) = ret" "m_prof s = Inr p"
    and "can_profile ARCH_64 env os d fcn cs fs p"
    and "returned ARCH_64 env os cs (exec E wrapper64_entry s) t"
  shows "let s1 = exec E wrapper64_entry s; s2 = exec E wrapper64_rp t in
           m_ip s1 = fcn \<and> m_regs s1 = (m_regs s)(AX := m_mem s (m_sp s + 8)) \<and>
           (\<forall>k < 8. m_xmm s1 k = m_xmm s k) \<and>
           (\<forall>i < n. m_mem s1 (cell_at (m_sp s + 24) i) = m_mem s (cell_at (m_sp s + 24) i)) \<and>
           m_ip t = e_rp E \<and>
           m_ip s2 = ret \<and> m_sp s2 = m_sp s + 24 \<and> m_regs s2 = m_regs t \<and>
           (\<forall>k < 8. m_xmm s2 k = m_xmm t k) \<and>
           (\<forall>i < n. m_mem s2 (cell_at (m_sp s + 24) i) = m_mem t (cell_at (m_sp s + 24) i)) \<and>
           (\<exists>p' es u. m_prof s2 = Inr p' \<and> prof_rel ARCH_64 env os p' fs \<and> map fst es = returns_all cs \<and>
              table_of (prof_stats p') = bump fcn u (bumps es (table_of (prof_stats p))))"
  using assms by (rule wrapped_call_64)

text \<open>A profiled call on x86 is transparent in the same way, for the general-purpose
  registers.\<close>

lemma wrapped_call_32:
  assumes "e_arch E = ARCH_32" "e_pre E = hook_pre os" "e_post E = hook_post ARCH_32 env os"
    and "4 * e_frame E < 2 ^ 32" "n + 14 \<le> e_frame E"
    and "m_mem s (m_sp s) = fcn" "m_mem s (m_sp s + 4) = ret" "m_prof s = Inr p"
    and "can_profile ARCH_32 env os d (ucast fcn) cs fs p"
    and "returned ARCH_32 env os cs (exec E wrapper32_entry s) t"
  shows "let s1 = exec E wrapper32_entry s; s2 = exec E wrapper32_rp t in
           m_ip s1 = fcn \<and> (\<forall>r \<in> set gpr32. m_regs s1 r = m_regs s r) \<and>
           (\<forall>i < n. m_mem s1 (cell_at (m_sp s + 8) i) = m_mem s (cell_at (m_sp s + 8) i)) \<and>
           m_ip t = e_rp E \<and>
           m_ip s2 = ret \<and> m_sp s2 = m_sp s + 8 \<and> (\<forall>r \<in> set gpr32. m_regs s2 r = m_regs t r) \<and>
           (\<forall>i < n. m_mem s2 (cell_at (m_sp s + 8) i) = m_mem t (cell_at (m_sp s + 8) i)) \<and>
           (\<exists>p' es u. m_prof s2 = Inr p' \<and> prof_rel ARCH_32 env os p' fs \<and> map fst es = returns_all cs \<and>
              table_of (prof_stats p') = bump (ucast fcn) u (bumps es (table_of (prof_stats p))))"
proof -
  note e = entry32_exec [OF assms(1,4,5), of s, unfolded Let_def]
  obtain p1 p2 p3 es u where h: "preProfile os (ucast ret) (ucast fcn) p = Inr p1"
      "run_calls (preProfile os) (postProfile ARCH_32 env os) cs p1 = Inr p2"
      "postProfile ARCH_32 env os p2 = Inr (ucast ret, p3)" "prof_rel ARCH_32 env os p3 fs"
      "map fst es = returns_all cs"
      "table_of (prof_stats p3) = bump (ucast fcn) u (bumps es (table_of (prof_stats p)))"
    using hooks_around [OF assms(9)] by blast
  have t: "m_prof t = Inr p2" "m_sp t = m_sp s + 8" "m_ip t = e_rp E"
    using assms(2,6-8,10) e h(1,2) by (auto simp: returned_def hook_pre_def)
  have "n + 9 \<le> e_frame E" using assms(5) by simp
  note r = rp32_exec [OF assms(1,4) this, of t, unfolded Let_def]
  have "ucast (ucast ret :: u64) = ret"
    by (rule bit_word_eqI) (auto simp: bit_simps)
  then have "e_post E (m_prof t) = (ret, Inr p3)"
    using h(3) by (simp add: assms(3) t hook_post_def)
  then show ?thesis
    using e r t h assms(6,7) by (auto simp: Let_def)
qed


definition example_env :: "arch \<Rightarrow> ('a::len word, prof_state result) cenv" where
  "example_env A = \<lparr>e_arch = A, e_pre = hook_pre example_prof_os,
     e_post = hook_post A [''ELFPERF_PROFILE_FUNCTION=f''] example_prof_os,
     e_regs = (\<lambda>_. 0), e_xmm = (\<lambda>_. (0, 0)), e_mem = (\<lambda>_. 0), e_frame = 64, e_rp = 0x77\<rparr>"

definition example_prof :: prof_state where
  "example_prof = fresh_prof \<lparr>seg_stat = 0, seg_info = 0, seg_context = None, info_heap = (\<lambda>_. None)\<rparr>"

definition example_state :: "('a::len word, prof_state result) mstate" where
  "example_state = \<lparr>m_regs = (\<lambda>_. 5), m_sp = 0x1000, m_xmm = (\<lambda>k. (of_nat k, 1)), m_mem = (\<lambda>a. a + 1),
     m_ip = 0, m_prof = Inr example_prof\<rparr>"

text \<open>A function that returns at once.\<close>

definition return_at_once :: "('a::len word, 'p) mstate \<Rightarrow> ('a word, 'p) mstate" where
  "return_at_once s = s\<lparr>m_ip := m_mem s (m_sp s), m_sp := m_sp s + of_nat (cell TYPE('a))\<rparr>"

lemma return_at_once: "returned A env os [] s (return_at_once s)"
  by (cases "m_prof s") (simp_all add: returned_def return_at_once_def)

lemma fresh_can_profile:
  assumes "getenv A env ELFPERF_PROFILE_FUNCTION_ENV_VARIABLE = Some v" "c_string v" "v \<noteq> []"
  shows "can_profile A env example_prof_os 100 fcn [] [] example_prof"
proof -
  have os: "stats_os_ok (os_stats example_prof_os)" "0 < length (fn_words v)"
    using assms(3) by (simp add: example_prof_os_def example_stats_os_ok) (use assms(3) in \<open>cases v; auto\<close>)
  have "prof_stats example_prof = fresh_stats \<lparr>seg_stat = 0, seg_info = 0, seg_context = None, info_heap = (\<lambda>_. None)\<rparr>"
    by (simp add: example_prof_def fresh_prof_def)
  then have fr: "store_inv A env (os_stats example_prof_os) (prof_stats example_prof)"
      "1 \<le> capacity A env (os_stats example_prof_os) (prof_stats example_prof)"
    using fresh_room(1) [OF os(1) assms] order.strict_trans2 [OF os(2) fresh_room(2) [OF os(1) assms]] by (simp_all add: Suc_le_eq)
  have "prof_rel A env example_prof_os example_prof []"
    using fr(1) by (simp add: prof_rel_Nil) (simp add: example_prof_def fresh_prof_def)
  then show ?thesis
    using fr(2) example_prof_os_ok
    by (simp add: can_profile_def prof_room_def store_room_def STATS_LIMIT_def)
       (simp add: example_prof_def fresh_prof_def fresh_stats_ok)
qed

lemma example_can_profile:
  "can_profile A [''ELFPERF_PROFILE_FUNCTION=f''] example_prof_os 100 fcn [] [] example_prof"
  by (rule fresh_can_profile [of _ _ "''f''"]; cases A)
    (simp_all add: getenv_def ELFPERF_PROFILE_FUNCTION_ENV_VARIABLE_def c_string_def)

theorem wrapped_call_transparent_64_witness:
  "let E = example_env ARCH_64; s1 = exec E wrapper64_entry example_state;
       s2 = exec E wrapper64_rp (return_at_once s1)
   in m_ip s1 = 0x1001 \<and> m_ip s2 = 0x1011 \<and> m_sp s2 = 0x1018 \<and> m_regs s1 DI = 5"
  using wrapped_call_transparent_64 [of "example_env ARCH_64" example_prof_os
      "[''ELFPERF_PROFILE_FUNCTION=f'']" 8 example_state, OF _ _ _ _ _ refl refl _ example_can_profile return_at_once]
  by (simp add: example_env_def example_state_def Let_def)

end
