(* ===== verification/Dl_Runtime.thy ===== *)
theory Dl_Runtime
  imports Redirector Global_Stats
begin

text \<open>
  The resolver of the loader, \<^verbatim>\<open>eglibc-2.11.3/elf/dl-runtime.c\<close>: the search for a loaded library by
  name, the symbols of \<^verbatim>\<open>libelfperf.so\<close>, and \<^verbatim>\<open>_dl_fixup\<close>, which resolves a PLT entry at its first
  call and hands out the address of a redirector when the function is profiled.
\<close>

section \<open>Loaded objects\<close>

text \<open>The loaded objects in the order of the \<^verbatim>\<open>l_next\<close> pointers; an object is given by its
  position, so that \<^verbatim>\<open>l_prev\<close> is null exactly at position zero.\<close>

record link_map =
  l_name :: string
  l_addr :: u64

definition has_name :: "string \<Rightarrow> link_map \<Rightarrow> bool" where
  "has_name libname l \<longleftrightarrow> strstr (l_name l) libname \<noteq> None"

text \<open>The two loops of \<^verbatim>\<open>getLibMap\<close>: towards the start while there is a previous object, towards
  the end while there is a next one.\<close>

fun prev_loop :: "string \<Rightarrow> link_map list \<Rightarrow> nat \<Rightarrow> nat option" where
  "prev_loop libname maps 0 = None"
| "prev_loop libname maps (Suc i) =
     (if has_name libname (maps ! Suc i) then Some (Suc i) else prev_loop libname maps i)"

function next_loop :: "string \<Rightarrow> link_map list \<Rightarrow> nat \<Rightarrow> nat option" where
  "next_loop libname maps i =
     (if Suc i < length maps
      then (if has_name libname (maps ! i) then Some i else next_loop libname maps (Suc i))
      else None)"
  by pat_completeness auto
termination by (relation "measure (\<lambda>(libname, maps, i). length maps - i)") auto

declare next_loop.simps [simp del]

definition getLibMap :: "string \<Rightarrow> link_map list \<Rightarrow> nat \<Rightarrow> nat option" where
  "getLibMap libname maps l =
     (if has_name libname (maps ! l) then Some l
      else if 0 < l then prev_loop libname maps l
      else if Suc l < length maps then next_loop libname maps l
      else None)"

definition ELFPERF_LIB_NAME :: string where "ELFPERF_LIB_NAME = ''libelfperf.so''"
definition ELFPERF_LIBC_NAME :: string where "ELFPERF_LIBC_NAME = ''libc.so''"
definition ELFPERF_LIBDL_NAME :: string where "ELFPERF_LIBDL_NAME = ''libdl.so''"

section \<open>Symbols\<close>

text \<open>The parts of a symbol that the resolver reads: value, visibility, and whether its type is
  \<^verbatim>\<open>STT_GNU_IFUNC\<close>.\<close>

record elf_sym =
  st_value :: u64
  st_visibility :: nat
  st_ifunc :: bool

text \<open>
  The parameters of the resolver: the symbol lookup \<^verbatim>\<open>_dl_lookup_symbol_x\<close> of \<^verbatim>\<open>dl-lookup.c\<close> by the
  name and the object whose scope is searched (the load address of the defining object and its
  symbol; \<open>None\<close> when the symbol pointer comes back null; a fault when the lookup ends the program), the call of an indirect function, the
  kernel's answers, the address of \<^verbatim>\<open>wrapper\<close> and the flag \<^verbatim>\<open>dl_bind_not\<close>.
\<close>

record fixup_os =
  fx_lookup :: "string \<Rightarrow> nat \<Rightarrow> (u64 \<times> elf_sym) option result"
  fx_ifunc :: "u64 \<Rightarrow> u64"
  fx_ipc :: ipc
  fx_info_area :: u64
  fx_pagesize :: u32
  fx_area :: u64
  fx_mprotect :: "u64 \<Rightarrow> int"
  fx_wrapper :: u64
  dl_bind_not :: bool

definition symbol_value :: "arch \<Rightarrow> fixup_os \<Rightarrow> (u64 \<times> elf_sym) option result \<Rightarrow> u64 result" where
  "symbol_value A os r =
     bind_result r (\<lambda>found. Inr
       (case found of
          None \<Rightarrow> 0
        | Some (base, sy) \<Rightarrow>
            (let value = to_ptr A (base + st_value sy) in if st_ifunc sy then fx_ifunc os value else value)))"

definition getSymbolAddrFromLibrary :: "arch \<Rightarrow> fixup_os \<Rightarrow> string \<Rightarrow> string \<Rightarrow> link_map list \<Rightarrow> nat \<Rightarrow> u64 result" where
  "getSymbolAddrFromLibrary A os libname symbol_name maps l =
     (case getLibMap libname maps l of
        None \<Rightarrow> Inr 0
      | Some lib_map \<Rightarrow> symbol_value A os (fx_lookup os symbol_name lib_map))"

text \<open>The structure comes from \<^verbatim>\<open>mmap\<close>, so the field \<^verbatim>\<open>wrapper\<close>, which is not assigned, is null.\<close>

definition getElfperfFunctions :: "arch \<Rightarrow> fixup_os \<Rightarrow> link_map list \<Rightarrow> nat \<Rightarrow> ElfperfFunctions option result" where
  "getElfperfFunctions A os maps l =
     (let addr = (\<lambda>s. getSymbolAddrFromLibrary A os ELFPERF_LIB_NAME s maps l) in
      bind_result (addr ''initWrapperRedirectors'') (\<lambda>a1.
      bind_result (addr ''addNewFunction'') (\<lambda>a2.
      bind_result (addr ''isFunctionInFunctionList'') (\<lambda>a3.
      bind_result (addr ''isFunctionRedirectorRegistered'') (\<lambda>a4.
      bind_result (addr ''getRedirectorAddressForName'') (\<lambda>a5.
      let r = \<lparr>f_wrapper = 0,
               f_initWrapperRedirectors = a1,
               f_addNewFunction = a2,
               f_isFunctionRedirectorRegistered = a4,
               f_isFunctionInFunctionList = a3,
               f_getRedirectorAddressForName = a5\<rparr>
      in Inr (if f_initWrapperRedirectors r = 0 \<or> f_addNewFunction r = 0
                \<or> f_isFunctionRedirectorRegistered r = 0 \<or> f_getRedirectorAddressForName r = 0
                \<or> f_isFunctionInFunctionList r = 0
              then None else Some r)))))))"


section \<open>The resolver\<close>

text \<open>The static variables of \<^verbatim>\<open>_dl_fixup\<close> and of \<^verbatim>\<open>isFunctionProfiled\<close>, the shared segments, the
  memory of the redirectors, and the table of PLT targets.\<close>

record fixup_state =
  elfperfFuncs :: "ElfperfFunctions option"
  errorDuringElfperfFunctionLoad :: bool
  fx_context :: RedirectorContext
  fx_infos :: u64
  initialized :: bool
  functionStorageInited :: bool
  elfperfInitSpinlock :: u32
  fx_profiled :: profiled_cache
  fx_shared :: shared_state
  fx_vm :: vm
  fx_got :: "u64 \<Rightarrow> u64"

text \<open>The segment for the statistics is created once.\<close>

definition fixup_storage :: "arch \<Rightarrow> environ \<Rightarrow> fixup_os \<Rightarrow> fixup_state \<Rightarrow> fixup_state" where
  "fixup_storage A env os st =
     (if isElfPerfEnabled A env \<and> \<not> (initialized st \<or> functionStorageInited st)
      then st\<lparr>fx_shared := snd (initFunctionStatisticsStorage (fx_ipc os) (fx_shared st)),
              functionStorageInited := True\<rparr>
      else st)"

text \<open>Whether the function is to be handled. The tests are made in the order of the code, and the
  list of functions is fetched only when profiling is enabled.\<close>

definition fixup_wanted ::
  "arch \<Rightarrow> environ \<Rightarrow> link_map list \<Rightarrow> nat \<Rightarrow> string \<Rightarrow> fixup_state \<Rightarrow> bool \<times> fixup_state" where
  "fixup_wanted A env maps l name st =
     (if \<not> isElfPerfEnabled A env then (False, st)
      else let (prof, cache) = isFunctionProfiled A env name (fx_profiled st)
           in ((prof \<or> name = ''dlopen'') \<and> getLibMap ELFPERF_LIB_NAME maps l \<noteq> None
               \<and> \<not> errorDuringElfperfFunctionLoad st
               \<and> \<not> has_name ELFPERF_LIBC_NAME (maps ! l) \<and> \<not> has_name ELFPERF_LIB_NAME (maps ! l)
               \<and> \<not> has_name ELFPERF_LIBDL_NAME (maps ! l),
               st\<lparr>fx_profiled := cache\<rparr>))"

text \<open>The initialisation of the redirectors, between the two operations on the spinlock.\<close>

definition fixup_init :: "arch \<Rightarrow> environ \<Rightarrow> fixup_os \<Rightarrow> ElfperfFunctions \<Rightarrow> fixup_state \<Rightarrow> fixup_state result" where
  "fixup_init A env os funcs st0 =
     (if initialized st0 then Inr st0
      else let st = st0\<lparr>elfperfInitSpinlock := spin_lock (elfperfInitSpinlock st0)\<rparr>
           in if initialized st then Inr (st\<lparr>elfperfInitSpinlock := 0\<rparr>)
              else let (ns, cnt) = get_fn_list A env ELFPERF_PROFILE_FUNCTION_ENV_VARIABLE
                   in bind_result
                        (initWrapperRedirectors A env (fx_ipc os) (fx_info_area os) (fx_pagesize os)
                           (fx_area os) (fx_mprotect os)
                           ((fx_context st)\<lparr>names := ns, count := cnt\<rparr>) (fx_shared st) (fx_vm st))
                        (\<lambda>(ctx, sh, v).
                           let inf = getFunctionInfoStorage (fx_ipc os) sh;
                               (ok, sh1) = initElfperfContextStorage (fx_ipc os)
                                             \<lparr>addresses = funcs, rcontext = ctx, infos = inf\<rparr> sh
                           in Inr (st\<lparr>fx_context := ctx, fx_infos := inf, fx_shared := sh1, fx_vm := v,
                                     initialized := True, elfperfInitSpinlock := 0\<rparr>)))"

text \<open>The redirector of a profiled function: registered at the first resolution.\<close>

definition fixup_register :: "arch \<Rightarrow> fixup_os \<Rightarrow> string \<Rightarrow> u64 \<Rightarrow> fixup_state \<Rightarrow> fixup_state result" where
  "fixup_register A os name value st =
     (if isFunctionRedirectorRegistered A (vm_mem (fx_vm st)) name (fx_context st) then Inr st
      else bind_result (getInfoByName name (fx_infos st) (count (fx_context st)) (fx_shared st)) (\<lambda>tmp.
           Inr (st\<lparr>fx_shared := (case tmp of None \<Rightarrow> fx_shared st
                                  | Some i \<Rightarrow> setInfoAddr (fx_infos st) i value (fx_shared st)),
                   fx_vm := (fx_vm st)\<lparr>vm_mem :=
                     addNewFunction A (fx_wrapper os) (vm_mem (fx_vm st)) name value (fx_context st)\<rparr>\<rparr>)))"

definition fixup_elfperf ::
  "arch \<Rightarrow> environ \<Rightarrow> fixup_os \<Rightarrow> link_map list \<Rightarrow> nat \<Rightarrow> string option \<Rightarrow> u64 \<Rightarrow> fixup_state \<Rightarrow>
   (u64 \<times> fixup_state) result" where
  "fixup_elfperf A env os maps l nm value st0 =
     (let st1 = fixup_storage A env os st0
      in case nm of
           None \<Rightarrow> Inl SegFault
         | Some name \<Rightarrow>
             (let (wanted, st2) = fixup_wanted A env maps l name st1
              in if \<not> wanted then Inr (value, st2)
                 else bind_result (case elfperfFuncs st2 of None \<Rightarrow> getElfperfFunctions A os maps l | Some f \<Rightarrow> Inr (Some f)) (\<lambda>found.
                      case found of
                        None \<Rightarrow> Inr (value, st2\<lparr>errorDuringElfperfFunctionLoad := True\<rparr>)
                      | Some funcs \<Rightarrow>
                          bind_result (fixup_init A env os funcs (st2\<lparr>elfperfFuncs := Some funcs\<rparr>)) (\<lambda>st3.
                            let (prof, cache) = isFunctionProfiled A env name (fx_profiled st3);
                                st4 = st3\<lparr>fx_profiled := cache\<rparr>
                            in if \<not> prof then Inr (value, st4)
                               else bind_result (fixup_register A os name value st4) (\<lambda>st5.
                                      Inr (getRedirectorAddressForName A name (fx_context st5), st5))))))"

text \<open>
  A PLT relocation with its symbol: the type, the address of the entry, the name and the symbol.
  \<^verbatim>\<open>elf_machine_plt_value\<close> returns the value on x86 and x86-64, and \<^verbatim>\<open>elf_machine_fixup_plt\<close> stores
  and returns it. The name stays null when the symbol does not have the default visibility.
\<close>

record plt_reloc =
  r_jmp_slot :: bool
  r_addr :: u64
  r_name :: string
  r_symbol :: elf_sym

definition dl_fixup ::
  "arch \<Rightarrow> environ \<Rightarrow> fixup_os \<Rightarrow> link_map list \<Rightarrow> nat \<Rightarrow> plt_reloc \<Rightarrow> fixup_state \<Rightarrow>
   (u64 \<times> fixup_state) result" where
  "dl_fixup A env os maps l reloc st =
     (if \<not> r_jmp_slot reloc then Inl AssertFailed
      else let vis = st_visibility (r_symbol reloc) = 0;
               nm = (if vis then Some (r_name reloc) else None)
           in bind_result
                (symbol_value A os
                   (if vis then fx_lookup os (r_name reloc) l else Inr (Some (l_addr (maps ! l), r_symbol reloc)))) (\<lambda>value.
              if dl_bind_not os then Inr (value, st)
              else bind_result (fixup_elfperf A env os maps l nm value st) (\<lambda>(v, st1).
                     Inr (v, st1\<lparr>fx_got := (fx_got st1)(r_addr reloc := v)\<rparr>))))"


section \<open>Search for a library\<close>

lemma prev_loop_spec:
  "prev_loop libname maps i = Some j \<Longrightarrow> 0 < j \<and> j \<le> i \<and> has_name libname (maps ! j)"
  "prev_loop libname maps i = None \<longleftrightarrow> (\<forall>j. 0 < j \<and> j \<le> i \<longrightarrow> \<not> has_name libname (maps ! j))"
  by (induction i) (auto split: if_splits simp: le_Suc_eq)

lemma next_loop_spec:
  "next_loop libname maps i = Some j \<Longrightarrow> i \<le> j \<and> Suc j < length maps \<and> has_name libname (maps ! j)"
  "next_loop libname maps i = None \<longleftrightarrow> (\<forall>j. i \<le> j \<and> Suc j < length maps \<longrightarrow> \<not> has_name libname (maps ! j))"
proof (induction libname maps i rule: next_loop.induct)
  case (1 libname maps i)
  have split: "(\<forall>j. i \<le> j \<and> Suc j < length maps \<longrightarrow> P j) \<longleftrightarrow>
      (Suc i < length maps \<longrightarrow> P i) \<and> (\<forall>j. Suc i \<le> j \<and> Suc j < length maps \<longrightarrow> P j)" for P
    by (metis Suc_le_eq Suc_leD le_eq_less_or_eq)
  {
    case 1
    then show ?case using "1.IH"(1) by (auto simp: next_loop.simps [of libname maps i] split: if_splits)
  next
    case 2
    show ?case
      using "1.IH"(2) unfolding split [of "\<lambda>j. \<not> has_name libname (maps ! j)"]
      by (auto simp: next_loop.simps [of libname maps i])
  }
qed

text \<open>What \<^verbatim>\<open>getLibMap\<close> finds carries the name; from any object but the first it looks at the
  object itself and at those before it except the first, from the first at all but the last.\<close>

lemma getLibMap_exact:
  assumes "l < length maps"
  shows "(\<forall>j. getLibMap libname maps l = Some j \<longrightarrow> j < length maps \<and> has_name libname (maps ! j)) \<and>
         (getLibMap libname maps l \<noteq> None \<longleftrightarrow>
            has_name libname (maps ! l) \<or>
            (\<exists>j < length maps. has_name libname (maps ! j) \<and>
               (if 0 < l then 0 < j \<and> j < l else Suc j < length maps)))"
proof (cases "has_name libname (maps ! l)")
  case True
  then show ?thesis using assms by (simp add: getLibMap_def)
next
  case False
  then have ne: "j \<noteq> l" if "has_name libname (maps ! j)" for j
    using that by auto
  show ?thesis
  proof (cases "0 < l")
    case True
    then have eq: "getLibMap libname maps l = prev_loop libname maps l"
      using False by (simp add: getLibMap_def)
    have "(\<exists>j < length maps. has_name libname (maps ! j) \<and> 0 < j \<and> j < l) \<longleftrightarrow>
        (\<exists>j. 0 < j \<and> j \<le> l \<and> has_name libname (maps ! j))"
      using ne assms by (meson le_less_trans le_neq_implies_less less_imp_le)
    then have "prev_loop libname maps l \<noteq> None \<longleftrightarrow>
        (\<exists>j < length maps. has_name libname (maps ! j) \<and> 0 < j \<and> j < l)"
      unfolding prev_loop_spec(2) by blast
    moreover have "j < length maps \<and> has_name libname (maps ! j)" if "prev_loop libname maps l = Some j" for j
      using prev_loop_spec(1) [OF that] assms by simp
    ultimately show ?thesis using True False unfolding eq by simp
  next
    case nl: False
    then have eq: "getLibMap libname maps l = next_loop libname maps l"
      using False by (simp add: getLibMap_def next_loop.simps [of libname maps 0])
    have "next_loop libname maps l \<noteq> None \<longleftrightarrow>
        (\<exists>j < length maps. has_name libname (maps ! j) \<and> Suc j < length maps)"
      unfolding next_loop_spec(2) using nl by (metis Suc_lessD gr0I le0)
    moreover have "j < length maps \<and> has_name libname (maps ! j)" if "next_loop libname maps l = Some j" for j
      using next_loop_spec(1) [OF that] by simp
    ultimately show ?thesis using nl False unfolding eq by simp
  qed
qed

section \<open>Resolution without redirection\<close>


text \<open>A PLT entry whose symbol does not have the default visibility makes the loader fault, whether
  or not profiling is enabled: its name stays null and is compared with \<^verbatim>\<open>dlopen\<close> all the same.\<close>

lemma dl_fixup_hidden_symbol_faults:
  assumes "r_jmp_slot reloc" "st_visibility (r_symbol reloc) \<noteq> 0" "\<not> dl_bind_not os"
  shows "dl_fixup A env os maps l reloc st = Inl SegFault"
  using assms by (simp add: dl_fixup_def fixup_elfperf_def symbol_value_def Let_def)

section \<open>Redirection\<close>

text \<open>The table of names and addresses, and the address recorded for a name.\<close>

definition info_tab :: "fixup_state \<Rightarrow> FunctionInfo list" where
  "info_tab st = the (info_heap (fx_shared st) (fx_infos st))"

definition recorded :: "fixup_state \<Rightarrow> string \<Rightarrow> u64" where
  "recorded st n = (case first_index (\<lambda>x. fi_name x = n) (info_tab st) of
     None \<Rightarrow> 0 | Some i \<Rightarrow> fi_addr (info_tab st ! i))"

abbreviation registered :: "arch \<Rightarrow> fixup_state \<Rightarrow> string \<Rightarrow> bool" where
  "registered A st n \<equiv> isFunctionRedirectorRegistered A (vm_mem (fx_vm st)) n (fx_context st)"

abbreviation slot_of :: "arch \<Rightarrow> fixup_state \<Rightarrow> string \<Rightarrow> u64" where
  "slot_of A st n \<equiv> getRedirectorAddressForName A n (fx_context st)"

text \<open>An initialised state: the context lists the configured functions, the table has their names in
  the same order, and the slot of every registered function holds the code for the address
  recorded for it.\<close>

definition fixup_ready :: "arch \<Rightarrow> environ \<Rightarrow> string \<Rightarrow> fixup_os \<Rightarrow> fixup_state \<Rightarrow> bool" where
  "fixup_ready A env v os st \<longleftrightarrow>
     ctx_ok A (fx_context st) \<and> names (fx_context st) = fn_words v \<and> elfperfFuncs st \<noteq> None
     \<and> table_ok A env (fx_infos st) (count (fx_context st)) (fx_shared st)
     \<and> map fi_name (info_tab st) = fn_words v
     \<and> (\<forall>n \<in> set (fn_words v). registered A st n \<longrightarrow>
          unat (recorded st n) < address_limit A \<and>
          load (vm_mem (fx_vm st)) (slot_of A st n)
            (length (redirector_code A (fx_wrapper os) (slot_of A st n) (recorded st n))) =
          redirector_code A (fx_wrapper os) (slot_of A st n) (recorded st n))"

definition fixup_inv :: "arch \<Rightarrow> environ \<Rightarrow> string \<Rightarrow> fixup_os \<Rightarrow> fixup_state \<Rightarrow> bool" where
  "fixup_inv A env v os st \<longleftrightarrow>
     profiled_ok v (fx_profiled st) \<and> (initialized st \<longrightarrow> fixup_ready A env v os st)"

text \<open>What the redirection relies on: the environment, and a kernel that grants the requests.\<close>

definition fixup_env_ok :: "arch \<Rightarrow> environ \<Rightarrow> string \<Rightarrow> fixup_os \<Rightarrow> bool" where
  "fixup_env_ok A env v os \<longleftrightarrow>
     isElfPerfEnabled A env \<and> getenv A env ELFPERF_PROFILE_FUNCTION_ENV_VARIABLE = Some v \<and> c_string v
     \<and> attach (fx_ipc os) ELFPERF_SHARED_MEMORY_ID_INFO True \<noteq> None
     \<and> fx_info_area os \<noteq> 0 \<and> fx_info_area os \<noteq> - 1 \<and> fx_pagesize os = 4096
     \<and> 4096 dvd unat (fx_area os)
     \<and> unat (fx_area os) + unat (REDIRECTOR_SIZE A) * (length (fn_words v) + 2) + 4096 \<le> address_limit A
     \<and> unat (REDIRECTOR_SIZE A) * (length (fn_words v) + 2) + 4096 < 2 ^ 32
     \<and> (\<forall>p. fx_mprotect os p = 0) \<and> unat (fx_wrapper os) < address_limit A"

lemma fixup_init_ready:
  assumes "fixup_env_ok A env v os" "fixup_inv A env v os st" "elfperfFuncs st = Some funcs"
  shows "\<exists>st'. fixup_init A env os funcs st = Inr st' \<and> fixup_ready A env v os st' \<and>
           initialized st' \<and> fx_profiled st' = fx_profiled st \<and> fx_got st' = fx_got st \<and>
           (initialized st \<longrightarrow> st' = st) \<and>
           (\<not> initialized st \<longrightarrow> (\<forall>n \<in> set (fn_words v). \<not> registered A st' n))"
proof (cases "initialized st")
  case True
  then show ?thesis using assms by (simp add: fixup_init_def fixup_inv_def)
next
  case False
  have env: "getenv A env ELFPERF_PROFILE_FUNCTION_ENV_VARIABLE = Some v" "c_string v"
    using assms(1) by (simp_all add: fixup_env_ok_def)
  obtain shm where shm: "attach (fx_ipc os) ELFPERF_SHARED_MEMORY_ID_INFO True = Some shm"
    using assms(1) by (auto simp: fixup_env_ok_def)
  define c where "c = (fx_context st)\<lparr>names := fn_words v, count := word_of_nat (length (fn_words v)), redirectors := fx_area os\<rparr>"
  have ok: "ctx_ok A c"
    using assms(1) c_string_count [OF env(2)] by (simp add: c_def ctx_ok_def fixup_env_ok_def)
  let ?sh = "(fx_shared st)\<lparr>info_heap := (info_heap (fx_shared st))(fx_info_area os :=
      Some (map (\<lambda>n. \<lparr>fi_name = n, fi_addr = 0\<rparr>) (fn_words v))), seg_info := fx_info_area os\<rparr>"
  obtain w where w: "initWrapperRedirectors A env (fx_ipc os) (fx_info_area os) 4096 (fx_area os) (fx_mprotect os)
      ((fx_context st)\<lparr>names := fn_words v, count := word_of_nat (length (fn_words v))\<rparr>) (fx_shared st) (fx_vm st) =
        Inr (c, ?sh, w)"
      "vm_mem w = zero_loop A (redirectors c) (unat (REDIRECTOR_SIZE A) * 0)
        (unat (REDIRECTOR_SIZE A) * length (names c)) (vm_mem (fx_vm st))"
    using initWrapperRedirectors_eq [OF env shm, of "fx_info_area os"
        "(fx_context st)\<lparr>names := fn_words v, count := word_of_nat (length (fn_words v))\<rparr>" "fx_area os"
        "fx_mprotect os" "fx_shared st" "fx_vm st"] assms(1)
    by (simp add: fixup_env_ok_def c_def)
  define st' where "st' = st\<lparr>elfperfInitSpinlock := 0, fx_context := c, fx_infos := fx_info_area os,
      fx_shared := snd (initElfperfContextStorage (fx_ipc os)
         \<lparr>addresses = funcs, rcontext = c, infos = fx_info_area os\<rparr> ?sh), fx_vm := w, initialized := True\<rparr>"
  have heap: "info_heap (fx_shared st') (fx_infos st') = Some (map (\<lambda>n. \<lparr>fi_name = n, fi_addr = 0\<rparr>) (fn_words v))"
    by (simp add: st'_def initElfperfContextStorage_def split: option.split)
  have un: "\<not> registered A st' n" if "n \<in> set (fn_words v)" for n
    using zeroed_unregistered [OF ok, of n "vm_mem (fx_vm st)"] that w(2) by (simp add: st'_def c_def)
  have "fixup_ready A env v os st'"
    using ok un assms(1,3) table_ok_init [OF env, of "fx_info_area os" "fx_shared st'"] heap
    by (auto simp: fixup_ready_def info_tab_def fixup_env_ok_def comp_def) (simp_all add: st'_def c_def)
  moreover have "fixup_init A env os funcs st = Inr st'"
    using False w(1) shm assms(1) get_fn_list_words [OF env]
    by (simp add: fixup_init_def Let_def fixup_env_ok_def getFunctionInfoStorage_def st'_def
        split: prod.split)
  ultimately show ?thesis
    using False un by (auto simp: st'_def)
qed


lemma recorded_set:
  assumes "fixup_ready A env v os st" "first_index (\<lambda>x. fi_name x = n) (info_tab st) = Some i"
    and "st' = st\<lparr>fx_shared := setInfoAddr (fx_infos st) i a (fx_shared st), fx_vm := w\<rparr>"
  shows "info_tab st' = (info_tab st)[i := (info_tab st ! i)\<lparr>fi_addr := a\<rparr>]"
    "map fi_name (info_tab st') = map fi_name (info_tab st)"
    "recorded st' n = a" "m \<noteq> n \<Longrightarrow> recorded st' m = recorded st m"
proof -
  have ok: "table_ok A env (fx_infos st) (count (fx_context st)) (fx_shared st)"
    using assms(1) by (simp add: fixup_ready_def)
  have i: "i < length (info_tab st)" "fi_name (info_tab st ! i) = n"
    using assms(2) by (simp_all add: first_index_Some_iff)
  show tab: "info_tab st' = (info_tab st)[i := (info_tab st ! i)\<lparr>fi_addr := a\<rparr>]"
    using shm_table.tab_set [OF ok, of i a] i(1) by (simp add: assms(3) info_tab_def)
  then show nm: "map fi_name (info_tab st') = map fi_name (info_tab st)"
    using i(1) by (simp add: map_update list_update_same_conv)
  have ix: "first_index (\<lambda>x. fi_name x = k) (info_tab st') = first_index (\<lambda>x. fi_name x = k) (info_tab st)" for k
    using nm by (metis first_index_cong_map [of "\<lambda>x. x = k" fi_name, unfolded comp_def])
  show "recorded st' n = a"
    unfolding recorded_def ix using assms(2) i(1) by (simp add: tab)
  show "recorded st' m = recorded st m" if "m \<noteq> n"
  proof (cases "first_index (\<lambda>x. fi_name x = m) (info_tab st)")
    case (Some j)
    then have "j \<noteq> i" using that i(2) by (auto simp: first_index_Some_iff)
    then show ?thesis unfolding recorded_def ix Some by (simp add: tab)
  qed (simp add: recorded_def ix)
qed

lemma fixup_register_ready:
  assumes "fixup_ready A env v os st" "n \<in> set (fn_words v)" "unat value < address_limit A"
  shows "\<exists>st'. fixup_register A os n value st = Inr st' \<and> fixup_ready A env v os st' \<and> registered A st' n \<and>
           recorded st' n = (if registered A st n then recorded st n else value) \<and>
           (\<forall>m \<in> set (fn_words v). m \<noteq> n \<longrightarrow> registered A st' m = registered A st m \<and> recorded st' m = recorded st m) \<and>
           fx_context st' = fx_context st \<and> fx_got st' = fx_got st \<and> fx_profiled st' = fx_profiled st \<and>
           initialized st' = initialized st"
proof (cases "registered A st n")
  case True
  then show ?thesis using assms by (simp add: fixup_register_def)
next
  case False
  note r = assms(1) [unfolded fixup_ready_def]
  have ok: "ctx_ok A (fx_context st)" "table_ok A env (fx_infos st) (count (fx_context st)) (fx_shared st)"
    using r by blast+
  have nms: "names (fx_context st) = fn_words v" "map fi_name (info_tab st) = fn_words v"
    using r by blast+
  have li: "isFunctionInFunctionList m (fx_context st) \<longleftrightarrow> m \<in> set (fn_words v)" for m
    using isFunctionInFunctionList_listed [OF ok(1)] nms(1) by simp
  have "n \<in> fi_name ` set (info_tab st)"
    using assms(2) nms(2) by (metis set_map)
  then obtain i where i: "first_index (\<lambda>x. fi_name x = n) (info_tab st) = Some i"
    using first_index_None_iff [of "\<lambda>x. fi_name x = n" "info_tab st"] by (cases "first_index (\<lambda>x. fi_name x = n) (info_tab st)") auto
  define w where "w = (fx_vm st)\<lparr>vm_mem := addNewFunction A (fx_wrapper os) (vm_mem (fx_vm st)) n value (fx_context st)\<rparr>"
  define st' where "st' = st\<lparr>fx_shared := setInfoAddr (fx_infos st) i value (fx_shared st), fx_vm := w\<rparr>"
  note rec = recorded_set [OF assms(1) i st'_def]
  have mem: "vm_mem (fx_vm st') = addNewFunction A (fx_wrapper os) (vm_mem (fx_vm st)) n value (fx_context st)"
      and ctx: "fx_context st' = fx_context st" and inf: "fx_infos st' = fx_infos st"
    by (simp_all add: st'_def w_def)
  have same: "registered A st' m = registered A st m"
      "k \<le> unat (REDIRECTOR_SIZE A) \<Longrightarrow>
       load (vm_mem (fx_vm st')) (slot_of A st m) k = load (vm_mem (fx_vm st)) (slot_of A st m) k"
    if "m \<in> set (fn_words v)" "m \<noteq> n" for m k
  proof -
    have l: "isFunctionInFunctionList n (fx_context st)" "isFunctionInFunctionList m (fx_context st)" "n \<noteq> m"
      using that assms(2) li by auto
    show "registered A st' m = registered A st m"
      unfolding mem ctx by (rule rt.registered_add_other [OF ok(1) l])
    show "k \<le> unat (REDIRECTOR_SIZE A) \<Longrightarrow>
       load (vm_mem (fx_vm st')) (slot_of A st m) k = load (vm_mem (fx_vm st)) (slot_of A st m) k"
      by (simp only: mem load_take [of k "unat (REDIRECTOR_SIZE A)"] rt.frame_add [OF ok(1) l])
  qed
  have reg: "registered A st' n"
    using rt.registered_add [OF ok(1)] assms(2) li by (simp add: mem ctx)
  have code: "load (vm_mem (fx_vm st')) (slot_of A st n) (length (redirector_code A (fx_wrapper os) (slot_of A st n) value)) =
      redirector_code A (fx_wrapper os) (slot_of A st n) value"
    using rt.code_add [OF ok(1)] assms(2) li by (simp add: mem)
  have "table_ok A env (fx_infos st') (count (fx_context st')) (fx_shared st')"
    using shm_table.ok_set [OF ok(2), of i "value"] i
    by (simp add: st'_def info_tab_def first_index_Some_iff)
  moreover have "unat (recorded st' m) < address_limit A \<and>
      load (vm_mem (fx_vm st')) (slot_of A st' m)
        (length (redirector_code A (fx_wrapper os) (slot_of A st' m) (recorded st' m))) =
      redirector_code A (fx_wrapper os) (slot_of A st' m) (recorded st' m)"
    if "m \<in> set (fn_words v)" "registered A st' m" for m
  proof (cases "m = n")
    case True
    then show ?thesis using rec(3) code assms(3) by (simp add: ctx)
  next
    case False
    have "registered A st m"
      using same(1) [OF that(1) False] that(2) by simp
    then show ?thesis
      using r that(1) same(2) [OF that(1) False redirector_code_le] unfolding rec(4) [OF False] ctx by simp
  qed
  ultimately have "fixup_ready A env v os st'"
    using r rec(2) unfolding fixup_ready_def by (simp add: ctx) (simp add: st'_def)
  moreover have "fixup_register A os n value st = Inr st'"
    using False shm_table.by_name_first [OF ok(2), of n] i
    by (simp add: fixup_register_def st'_def w_def info_tab_def)
  moreover have "fx_got st' = fx_got st" "fx_profiled st' = fx_profiled st" "initialized st' = initialized st"
    by (simp_all add: st'_def)
  ultimately show ?thesis
    using False reg rec(3,4) same(1) ctx by (intro exI [of _ st'] conjI) simp_all
qed


lemma info_tab_upd [simp]:
  "info_tab (st\<lparr>fx_got := g\<rparr>) = info_tab st"
  "info_tab (st\<lparr>fx_profiled := c, elfperfFuncs := e\<rparr>) = info_tab st"
  by (simp_all add: info_tab_def)

lemma recorded_upd [simp]:
  "recorded (st\<lparr>fx_got := g\<rparr>) n = recorded st n"
  "recorded (st\<lparr>fx_profiled := c, elfperfFuncs := e\<rparr>) n = recorded st n"
  by (simp_all add: recorded_def split: option.split)


lemma fixup_elfperf_redirects:
  assumes "fixup_env_ok A env v os" "fixup_inv A env v os st" "n \<in> set (fn_words v)"
    and "getLibMap ELFPERF_LIB_NAME maps l \<noteq> None" "\<not> errorDuringElfperfFunctionLoad st"
    and "\<not> has_name ELFPERF_LIBC_NAME (maps ! l)" "\<not> has_name ELFPERF_LIB_NAME (maps ! l)"
      "\<not> has_name ELFPERF_LIBDL_NAME (maps ! l)"
    and "elfperfFuncs st \<noteq> None \<or> (\<exists>fs. getElfperfFunctions A os maps l = Inr (Some fs))"
    and "unat value < address_limit A"
  shows "\<exists>st'. fixup_elfperf A env os maps l (Some n) value st = Inr (slot_of A st' n, st') \<and>
           fixup_inv A env v os st' \<and> initialized st' \<and> fx_got st' = fx_got st \<and> registered A st' n \<and>
           recorded st' n = (if initialized st \<and> registered A st n then recorded st n else value) \<and>
           (\<forall>m \<in> set (fn_words v). m \<noteq> n \<longrightarrow> registered A st' m = (initialized st \<and> registered A st m) \<and>
              (initialized st \<longrightarrow> recorded st' m = recorded st m \<and> slot_of A st' m = slot_of A st m))"
proof -
  define st1 where "st1 = fixup_storage A env os st"
  let ?c = "\<lparr>pc_count = of_nat (length (fn_words v)), pc_functions = fn_words v\<rparr>"
  obtain funcs where funcs: "(case elfperfFuncs st of None \<Rightarrow> getElfperfFunctions A os maps l | Some f \<Rightarrow> Inr (Some f)) = Inr (Some funcs)"
    using assms(9) by (cases "elfperfFuncs st") auto
  define st2 where "st2 = st1\<lparr>fx_profiled := ?c, elfperfFuncs := Some funcs\<rparr>"
  have prof: "isFunctionProfiled A env n (fx_profiled st) = (True, ?c)" "isFunctionProfiled A env n ?c = (True, ?c)"
    using assms(1-3) isFunctionProfiled_cached [of A env v] by (simp_all add: fixup_env_ok_def fixup_inv_def profiled_ok_def)
  have st1: "initialized st \<Longrightarrow> st1 = st" "initialized st1 = initialized st" "fx_profiled st1 = fx_profiled st"
      "elfperfFuncs st1 = elfperfFuncs st" "errorDuringElfperfFunctionLoad st1 = errorDuringElfperfFunctionLoad st"
      "fx_got st1 = fx_got st"
    by (simp_all add: st1_def fixup_storage_def)
  have "fixup_inv A env v os st2"
    using assms(2) st1 by (auto simp: fixup_inv_def st2_def profiled_ok_def fixup_ready_def)
  then obtain st3 where st3: "fixup_init A env os funcs st2 = Inr st3" "fixup_ready A env v os st3"
      "initialized st3" "fx_profiled st3 = ?c" "fx_got st3 = fx_got st" "initialized st \<Longrightarrow> st3 = st2"
      "\<not> initialized st \<Longrightarrow> \<forall>n \<in> set (fn_words v). \<not> registered A st3 n"
    using fixup_init_ready [OF assms(1), of st2 funcs] st1 by (auto simp: st2_def)
  obtain st4 where st4: "fixup_register A os n value st3 = Inr st4" "fixup_ready A env v os st4" "registered A st4 n"
      "recorded st4 n = (if registered A st3 n then recorded st3 n else value)"
      "\<forall>m \<in> set (fn_words v). m \<noteq> n \<longrightarrow> registered A st4 m = registered A st3 m \<and> recorded st4 m = recorded st3 m"
      "fx_context st4 = fx_context st3" "fx_got st4 = fx_got st3" "fx_profiled st4 = fx_profiled st3"
      "initialized st4 = initialized st3"
    using fixup_register_ready [OF st3(2) assms(3,10)] by blast
  have "st3\<lparr>fx_profiled := ?c\<rparr> = st3"
    using st3(4) by (cases st3) simp
  with st4(1) have "fixup_register A os n value (st3\<lparr>fx_profiled := ?c\<rparr>) = Inr st4"
    by (simp only:)
  then have "fixup_elfperf A env os maps l (Some n) value st = Inr (slot_of A st4 n, st4)"
    using assms(1,4-8) st1(3-5) funcs st3(1,4) prof
    by (simp add: fixup_elfperf_def Let_def fixup_wanted_def fixup_env_ok_def st1_def [symmetric] st2_def [symmetric])
  moreover have "fixup_inv A env v os st4"
    using st4 st3 by (simp add: fixup_inv_def profiled_ok_def)
  moreover have "recorded st3 m = recorded st m" "registered A st3 m = registered A st m" "slot_of A st3 m = slot_of A st m"
    if "initialized st" for m
    using st3(6) [OF that] st1(1) [OF that] by (simp_all add: st2_def)
  ultimately show ?thesis
    using st3 st4 assms(3) by (intro exI [of _ st4]) auto
qed

lemma fixup_redirected:
  assumes "fixup_env_ok A env v os" "fixup_inv A env v os st" "r_name reloc \<in> set (fn_words v)"
    and "r_jmp_slot reloc" "st_visibility (r_symbol reloc) = 0" "\<not> dl_bind_not os"
    and "getLibMap ELFPERF_LIB_NAME maps l \<noteq> None" "\<not> errorDuringElfperfFunctionLoad st"
    and "\<not> has_name ELFPERF_LIBC_NAME (maps ! l)" "\<not> has_name ELFPERF_LIB_NAME (maps ! l)"
      "\<not> has_name ELFPERF_LIBDL_NAME (maps ! l)"
    and "elfperfFuncs st \<noteq> None \<or> (\<exists>fs. getElfperfFunctions A os maps l = Inr (Some fs))"
    and "symbol_value A os (fx_lookup os (r_name reloc) l) = Inr a" "unat a < address_limit A"
    and "f = (if initialized st \<and> registered A st (r_name reloc) then recorded st (r_name reloc) else a)"
  shows "\<exists>st' r. dl_fixup A env os maps l reloc st = Inr (r, st') \<and> fx_got st' = (fx_got st)(r_addr reloc := r) \<and>
           fixup_inv A env v os st' \<and> registered A st' (r_name reloc) \<and> recorded st' (r_name reloc) = f \<and>
           rrun A (vm_mem (fx_vm st')) (case A of ARCH_32 \<Rightarrow> 2 | ARCH_64 \<Rightarrow> 5) \<lparr>ip = r, ax = x, stk = s\<rparr> =
             Some (case A of ARCH_32 \<Rightarrow> \<lparr>ip = fx_wrapper os, ax = x, stk = f # s\<rparr>
                           | ARCH_64 \<Rightarrow> \<lparr>ip = fx_wrapper os, ax = fx_wrapper os, stk = f # x # s\<rparr>) \<and>
           (\<forall>m. m \<in> set (fn_words v) \<and> m \<noteq> r_name reloc \<and> initialized st \<and> registered A st m \<longrightarrow>
              registered A st' m \<and> recorded st' m = recorded st m \<and> slot_of A st' m = slot_of A st m)"
proof -
  let ?n = "r_name reloc"
  obtain st1 where st1: "fixup_elfperf A env os maps l (Some ?n) a st = Inr (slot_of A st1 ?n, st1)"
      "fixup_inv A env v os st1" "initialized st1" "fx_got st1 = fx_got st" "registered A st1 ?n"
      "recorded st1 ?n = f"
      "\<forall>m. m \<in> set (fn_words v) \<and> m \<noteq> ?n \<and> initialized st \<and> registered A st m \<longrightarrow>
              registered A st1 m \<and> recorded st1 m = recorded st m \<and> slot_of A st1 m = slot_of A st m"
    using fixup_elfperf_redirects [OF assms(1-3,7-12,14)] unfolding assms(15) by blast
  let ?st = "st1\<lparr>fx_got := (fx_got st1)(r_addr reloc := slot_of A st1 ?n)\<rparr>"
  have "dl_fixup A env os maps l reloc st = Inr (slot_of A st1 ?n, ?st)"
    using assms(4-6,13) st1(1) by (simp add: dl_fixup_def)
  moreover have "fixup_ready A env v os st1"
    using st1(2,3) by (simp add: fixup_inv_def)
  then have "rrun A (vm_mem (fx_vm st1)) (case A of ARCH_32 \<Rightarrow> 2 | ARCH_64 \<Rightarrow> 5) \<lparr>ip = slot_of A st1 ?n, ax = x, stk = s\<rparr> =
             Some (case A of ARCH_32 \<Rightarrow> \<lparr>ip = fx_wrapper os, ax = x, stk = f # s\<rparr>
                           | ARCH_64 \<Rightarrow> \<lparr>ip = fx_wrapper os, ax = fx_wrapper os, stk = f # x # s\<rparr>)"
    using assms(1,3) st1(5,6) unfolding fixup_ready_def
    by (intro slot_runs) (auto simp: fixup_env_ok_def)
  moreover have "fixup_inv A env v os ?st"
    using st1(2) by (simp add: fixup_inv_def fixup_ready_def)
  ultimately show ?thesis
    using st1(4-7) by (intro exI [of _ ?st] exI [of _ "slot_of A st1 ?n"]) simp
qed

text \<open>C3. Resolution of a profiled function. The caller gets, and the PLT entry keeps, the address
  of the function's redirector, and executing it arrives at the wrapper with the function's address on
  the stack: the address that its symbol has now, or, when the function was registered before, the
  one recorded then, whatever the symbol says now. The functions registered before keep their slots
  and addresses, and the invariant of the resolver holds again.\<close>

theorem dl_fixup_redirects:
  assumes "fixup_env_ok A env v os" "fixup_inv A env v os st" "r_name reloc \<in> set (fn_words v)"
    and "r_jmp_slot reloc" "st_visibility (r_symbol reloc) = 0" "\<not> dl_bind_not os"
    and "getLibMap ELFPERF_LIB_NAME maps l \<noteq> None" "\<not> errorDuringElfperfFunctionLoad st"
    and "\<not> has_name ELFPERF_LIBC_NAME (maps ! l)" "\<not> has_name ELFPERF_LIB_NAME (maps ! l)"
      "\<not> has_name ELFPERF_LIBDL_NAME (maps ! l)"
    and "elfperfFuncs st \<noteq> None \<or> (\<exists>fs. getElfperfFunctions A os maps l = Inr (Some fs))"
    and "symbol_value A os (fx_lookup os (r_name reloc) l) = Inr a" "unat a < address_limit A"
    and "f = (if initialized st \<and> registered A st (r_name reloc) then recorded st (r_name reloc) else a)"
  shows "\<exists>st' r. dl_fixup A env os maps l reloc st = Inr (r, st') \<and> fx_got st' = (fx_got st)(r_addr reloc := r) \<and>
           fixup_inv A env v os st' \<and> registered A st' (r_name reloc) \<and> recorded st' (r_name reloc) = f \<and>
           rrun A (vm_mem (fx_vm st')) (case A of ARCH_32 \<Rightarrow> 2 | ARCH_64 \<Rightarrow> 5) \<lparr>ip = r, ax = x, stk = s\<rparr> =
             Some (case A of ARCH_32 \<Rightarrow> \<lparr>ip = fx_wrapper os, ax = x, stk = f # s\<rparr>
                           | ARCH_64 \<Rightarrow> \<lparr>ip = fx_wrapper os, ax = fx_wrapper os, stk = f # x # s\<rparr>) \<and>
           (\<forall>m. m \<in> set (fn_words v) \<and> m \<noteq> r_name reloc \<and> initialized st \<and> registered A st m \<longrightarrow>
              registered A st' m \<and> recorded st' m = recorded st m \<and> slot_of A st' m = slot_of A st m)"
  using assms by (rule fixup_redirected)

text \<open>A process with three objects and two profiled functions.\<close>

definition example_fixup_os :: fixup_os where
  "example_fixup_os = \<lparr>fx_lookup = (\<lambda>n l. Inr (Some (0x400000, \<lparr>st_value = 0x10, st_visibility = 0, st_ifunc = False\<rparr>))),
     fx_ifunc = (\<lambda>a. a), fx_ipc = (\<lambda>k c. (1, 4096)), fx_info_area = 8192, fx_pagesize = 4096,
     fx_area = 65536, fx_mprotect = (\<lambda>p. 0), fx_wrapper = 0x7000, dl_bind_not = False\<rparr>"

definition example_fixup_state :: fixup_state where
  "example_fixup_state = \<lparr>elfperfFuncs = None, errorDuringElfperfFunctionLoad = False,
     fx_context = \<lparr>names = [], count = 0, redirectors = 0\<rparr>, fx_infos = 0, initialized = False,
     functionStorageInited = False, elfperfInitSpinlock = 0, fx_profiled = empty_profiled_cache,
     fx_shared = \<lparr>seg_stat = 0, seg_info = 0, seg_context = None, info_heap = (\<lambda>_. None)\<rparr>,
     fx_vm = \<lparr>vm_mem = (\<lambda>_. 204), rwx = []\<rparr>, fx_got = (\<lambda>_. 0)\<rparr>"

definition example_maps :: "link_map list" where
  "example_maps = [\<lparr>l_name = [], l_addr = 0\<rparr>, \<lparr>l_name = ''/lib/libelfperf.so'', l_addr = 0x1000\<rparr>,
     \<lparr>l_name = ''/lib/libfoo.so'', l_addr = 0x2000\<rparr>]"

definition example_environ :: environ where
  "example_environ = [''ELFPERF_ENABLE=1'', ''ELFPERF_PROFILE_FUNCTION=f:g'']"

lemma example_fixup_env:
  "fixup_env_ok ARCH_64 example_environ ''f:g'' example_fixup_os"
  "fixup_inv ARCH_64 example_environ ''f:g'' example_fixup_os example_fixup_state"
  "getLibMap ELFPERF_LIB_NAME example_maps 2 = Some 1"
  "\<not> has_name ELFPERF_LIBC_NAME (example_maps ! 2)" "\<not> has_name ELFPERF_LIB_NAME (example_maps ! 2)"
  "\<not> has_name ELFPERF_LIBDL_NAME (example_maps ! 2)"
  "(\<exists>fs. getElfperfFunctions A example_fixup_os example_maps 2 = Inr (Some fs))"
proof -
  have two: "prev_loop x m 2 = (if has_name x (m ! 2) then Some 2 else prev_loop x m 1)" for x m
    by (simp add: numeral_2_eq_2)
  show l: "getLibMap ELFPERF_LIB_NAME example_maps 2 = Some 1"
    by (simp add: getLibMap_def example_maps_def ELFPERF_LIB_NAME_def has_name_def two)
  show "fixup_env_ok ARCH_64 example_environ ''f:g'' example_fixup_os"
    by (simp add: fixup_env_ok_def example_environ_def example_fixup_os_def isElfPerfEnabled_def getenv_def
        ELFPERF_ENABLE_VARIABLE_def ELFPERF_PROFILE_FUNCTION_ENV_VARIABLE_def c_string_def attach_def)
  show "fixup_inv ARCH_64 example_environ ''f:g'' example_fixup_os example_fixup_state"
    by (simp add: fixup_inv_def example_fixup_state_def profiled_ok_def)
  show "\<not> has_name ELFPERF_LIBC_NAME (example_maps ! 2)" "\<not> has_name ELFPERF_LIB_NAME (example_maps ! 2)"
      "\<not> has_name ELFPERF_LIBDL_NAME (example_maps ! 2)"
    by (simp_all add: has_name_def example_maps_def ELFPERF_LIB_NAME_def ELFPERF_LIBC_NAME_def ELFPERF_LIBDL_NAME_def)
  show "(\<exists>fs. getElfperfFunctions A example_fixup_os example_maps 2 = Inr (Some fs))"
    using l by (cases A) (simp_all add: getElfperfFunctions_def getSymbolAddrFromLibrary_def example_fixup_os_def symbol_value_def Let_def)
qed

definition example_reloc :: "string \<Rightarrow> nat \<Rightarrow> plt_reloc" where
  "example_reloc n vis = \<lparr>r_jmp_slot = True, r_addr = 0x9000, r_name = n,
     r_symbol = \<lparr>st_value = 0, st_visibility = vis, st_ifunc = False\<rparr>\<rparr>"

theorem dl_fixup_redirects_witness:
  "\<exists>st' r. dl_fixup ARCH_64 example_environ example_fixup_os example_maps 2 (example_reloc ''g'' 0) example_fixup_state =
       Inr (r, st') \<and> fx_got st' 0x9000 = r \<and>
     rrun ARCH_64 (vm_mem (fx_vm st')) 5 \<lparr>ip = r, ax = 7, stk = [42]\<rparr> = Some \<lparr>ip = 0x7000, ax = 0x7000, stk = [0x400010, 7, 42]\<rparr>"
proof -
  have "r_name (example_reloc ''g'' 0) \<in> set (fn_words ''f:g'')" "r_jmp_slot (example_reloc ''g'' 0)"
      "st_visibility (r_symbol (example_reloc ''g'' 0)) = 0" "\<not> dl_bind_not example_fixup_os"
      "\<not> errorDuringElfperfFunctionLoad example_fixup_state"
      "symbol_value ARCH_64 example_fixup_os (fx_lookup example_fixup_os (r_name (example_reloc ''g'' 0)) 2) = Inr 0x400010"
      "unat (0x400010 :: u64) < address_limit ARCH_64" "\<not> initialized example_fixup_state"
      "fx_wrapper example_fixup_os = 0x7000" "r_addr (example_reloc ''g'' 0) = 0x9000"
    by (simp_all add: example_reloc_def example_fixup_os_def example_fixup_state_def symbol_value_def)
  then show ?thesis
    using dl_fixup_redirects [OF example_fixup_env(1,2), of "example_reloc ''g'' 0" example_maps 2 _
        "0x400010" 7 "[42]"] example_fixup_env(3-7)
    by fastforce
qed


end
