(* ===== verification/Profiled_Call.thy ===== *)
theory Profiled_Call
  imports Wrapped_Call Dl_Runtime
begin

text \<open>
  A profiled call as a whole: the loader resolves the function, the caller jumps to the redirector
  that it gets, the redirector to the wrapper, and the wrapper enters the function and returns to the
  caller.
\<close>

text \<open>The code of a redirector on the machine of the wrapper: it does not read the stack, it only pushes,
  and it changes \<^verbatim>\<open>rax\<close> and the instruction pointer.\<close>

definition run_slot :: "memory \<Rightarrow> nat \<Rightarrow> (u64, 'p) mstate \<Rightarrow> (u64, 'p) mstate option" where
  "run_slot code k s =
     map_option (\<lambda>c. (foldr push (stk c) s)\<lparr>m_ip := ip c, m_regs := (m_regs s)(AX := ax c)\<rparr>)
       (rrun ARCH_64 code k \<lparr>ip = m_ip s, ax = m_regs s AX, stk = []\<rparr>)"

lemma run_slot_wrapper:
  assumes "rrun ARCH_64 code k \<lparr>ip = m_ip s, ax = m_regs s AX, stk = []\<rparr> = Some \<lparr>ip = w, ax = w, stk = [f, m_regs s AX]\<rparr>"
  shows "run_slot code k s = Some ((push f (push (m_regs s AX) s))\<lparr>m_ip := w, m_regs := (m_regs s)(AX := w)\<rparr>)"
  using assms by (simp add: run_slot_def)

text \<open>The two pushes leave the stack of the caller alone.\<close>

lemma pushed_cells:
  fixes s :: "(u64, 'p) mstate"
  shows "m_sp (push f (push x s)) = m_sp s - 16" "m_mem (push f (push x s)) (m_sp s - 16) = f" "m_mem (push f (push x s)) (m_sp s - 8) = x"
    "8 * i + 16 < 2 ^ 64 \<Longrightarrow> m_mem (push f (push x s)) (cell_at (m_sp s) i) = m_mem s (cell_at (m_sp s) i)"
proof -
  have "(m_sp s + of_nat (8 * i) = m_sp s - 8) = (of_nat (8 * i + 8) = (0 :: u64))"
    "(m_sp s + of_nat (8 * i) = m_sp s - 16) = (of_nat (8 * i + 16) = (0 :: u64))"
    by (auto simp: algebra_simps eq_diff_eq add_eq_0_iff)
  moreover have "of_nat (8 * i + 8) \<noteq> (0 :: u64)" "of_nat (8 * i + 16) \<noteq> (0 :: u64)" if "8 * i + 16 < 2 ^ 64"
    using that by (simp_all add: word_of_nat_eq_0_iff nat_dvd_not_less del: of_nat_add of_nat_mult)
  ultimately show "m_sp (push f (push x s)) = m_sp s - 16" "m_mem (push f (push x s)) (m_sp s - 16) = f"
      "m_mem (push f (push x s)) (m_sp s - 8) = x"
      "8 * i + 16 < 2 ^ 64 \<Longrightarrow> m_mem (push f (push x s)) (cell_at (m_sp s) i) = m_mem s (cell_at (m_sp s) i)"
    by (auto simp: push_def cell_def cell_at_def)
qed

text \<open>C1. A profiled call from beginning to end. The loader resolves the call of a profiled function that is not registered yet to
  a redirector. When the caller jumps to it, control reaches the wrapper and then the function, with every register, \<^verbatim>\<open>xmm0\<close> to
  \<^verbatim>\<open>xmm7\<close> and the caller's stack as in a direct call. Whenever the function returns, control goes back to the
  caller's return address with the return address taken from the stack, and with every register, \<^verbatim>\<open>xmm0\<close> to \<^verbatim>\<open>xmm7\<close> and
  the stack as the function left them; the call and the calls nested in it are counted under the address of the definition.\<close>

theorem profiled_call_end_to_end:
  assumes "fixup_env_ok ARCH_64 env v os" "fixup_inv ARCH_64 env v os st" "r_name reloc \<in> set (fn_words v)"
    and "r_jmp_slot reloc" "st_visibility (r_symbol reloc) = 0" "\<not> dl_bind_not os"
    and "getLibMap ELFPERF_LIB_NAME maps l \<noteq> None" "\<not> errorDuringElfperfFunctionLoad st"
    and "\<not> has_name ELFPERF_LIBC_NAME (maps ! l)" "\<not> has_name ELFPERF_LIB_NAME (maps ! l)"
      "\<not> has_name ELFPERF_LIBDL_NAME (maps ! l)"
    and "elfperfFuncs st \<noteq> None \<or> (\<exists>fs. getElfperfFunctions ARCH_64 os maps l = Inr (Some fs))"
    and "symbol_value ARCH_64 os (fx_lookup os (r_name reloc) l) = Inr f" "\<not> (initialized st \<and> registered ARCH_64 st (r_name reloc))"
    and "e_arch E = ARCH_64" "e_pre E = hook_pre pos" "e_post E = hook_post ARCH_64 env pos"
    and "8 * e_frame E < 2 ^ 64" "n + 32 \<le> e_frame E"
    and "m_mem s (m_sp s) = ret" "m_prof s = Inr p" "can_profile ARCH_64 env pos d f cs fs p"
    and "unat f < address_limit ARCH_64"
  shows "\<exists>st' r s0. dl_fixup ARCH_64 env os maps l reloc st = Inr (r, st') \<and> fx_got st' (r_addr reloc) = r \<and>
    run_slot (vm_mem (fx_vm st')) 5 (s\<lparr>m_ip := r\<rparr>) = Some s0 \<and> m_ip s0 = fx_wrapper os \<and>
    (let s1 = exec E wrapper64_entry s0 in
      m_ip s1 = f \<and> m_regs s1 = m_regs s \<and> (\<forall>k < 8. m_xmm s1 k = m_xmm s k) \<and>
      (\<forall>i < n. m_mem s1 (cell_at (m_sp s + 8) i) = m_mem s (cell_at (m_sp s + 8) i)) \<and>
      (\<forall>t. returned ARCH_64 env pos cs s1 t \<longrightarrow>
        (let s2 = exec E wrapper64_rp t in
          m_ip s2 = ret \<and> m_sp s2 = m_sp s + 8 \<and> m_regs s2 = m_regs t \<and> (\<forall>k < 8. m_xmm s2 k = m_xmm t k) \<and>
          (\<forall>i < n. m_mem s2 (cell_at (m_sp s + 8) i) = m_mem t (cell_at (m_sp s + 8) i)) \<and>
          (\<exists>p' es u. m_prof s2 = Inr p' \<and> prof_rel ARCH_64 env pos p' fs \<and> map fst es = returns_all cs \<and>
             table_of (prof_stats p') = bump f u (bumps es (table_of (prof_stats p)))))))"
proof -
  obtain st' r where fx: "dl_fixup ARCH_64 env os maps l reloc st = Inr (r, st')" "fx_got st' = (fx_got st)(r_addr reloc := r)"
      "rrun ARCH_64 (vm_mem (fx_vm st')) 5 \<lparr>ip = r, ax = m_regs s AX, stk = []\<rparr> =
         Some \<lparr>ip = fx_wrapper os, ax = fx_wrapper os, stk = [f, m_regs s AX]\<rparr>"
    using fixup_redirected [OF assms(1-13,23) refl, of "m_regs s AX" "[]"] unfolding if_not_P [OF assms(14)] by auto
  define s0 where "s0 = (push f (push (m_regs s AX) (s\<lparr>m_ip := r\<rparr>)))\<lparr>m_ip := fx_wrapper os, m_regs := (m_regs s)(AX := fx_wrapper os)\<rparr>"
  have slot: "run_slot (vm_mem (fx_vm st')) 5 (s\<lparr>m_ip := r\<rparr>) = Some s0"
    using fx(3) by (subst run_slot_wrapper [of _ _ _ "fx_wrapper os" f]) (simp_all add: s0_def)
  have sp: "m_sp s0 = m_sp s - 16" "m_mem s0 (m_sp s0) = f" "m_mem s0 (m_sp s0 + 8) = m_regs s AX" "m_xmm s0 = m_xmm s"
    "m_regs s0 = (m_regs s)(AX := fx_wrapper os)" "m_prof s0 = Inr p" "m_ip s0 = fx_wrapper os"
    using pushed_cells(1-3) [of f "m_regs s AX" "s\<lparr>m_ip := r\<rparr>"] assms(21) by (simp_all add: s0_def push_def)
  have cells: "m_mem s0 (cell_at (m_sp s) i) = m_mem s (cell_at (m_sp s) i)" if "i \<le> n" for i
  proof -
    have "8 * i + 16 < 2 ^ 64" using that assms(18,19) by linarith
    from pushed_cells(4) [OF this, of f "m_regs s AX" "s\<lparr>m_ip := r\<rparr>"] show ?thesis by (simp add: s0_def)
  qed
  have ret: "m_mem s0 (m_sp s0 + 16) = ret" using cells [of 0] assms(20) by (simp add: sp(1) cell_at_def)
  have above: "m_mem s0 (cell_at (m_sp s + 8) i) = m_mem s (cell_at (m_sp s + 8) i)" if "i < n" for i
    using cells [of "Suc i"] that by (simp add: cell_at_def cell_def algebra_simps)
  note w = wrapped_call_64 [OF assms(15-19) sp(2) ret sp(6) assms(22), unfolded Let_def]
  let ?s1 = "exec E wrapper64_entry s0"
  have sp24: "m_sp s0 + 24 = m_sp s + 8" by (simp add: sp(1))
  obtain t0 where t0: "returned ARCH_64 env pos cs ?s1 t0"
    by (rule that [of "?s1\<lparr>m_ip := m_mem ?s1 (m_sp ?s1), m_sp := m_sp ?s1 + 8,
        m_prof := bind_result (m_prof ?s1) (run_calls (preProfile pos) (postProfile ARCH_64 env pos) cs)\<rparr>"])
      (simp add: returned_def cell_def)
  have regs: "m_regs ?s1 = m_regs s" using w [OF t0] by (simp add: sp(3,5))
  show ?thesis
    using fx(1,2) slot sp(7) regs w [OF t0] w above unfolding Let_def sp24 sp(4) by (intro exI [of _ st'] exI [of _ r] exI [of _ s0]) auto
qed

definition example_call_env :: "(u64, prof_state result) cenv" where
  "example_call_env = (example_env ARCH_64)\<lparr>e_post := hook_post ARCH_64 example_environ example_prof_os\<rparr>"

theorem profiled_call_end_to_end_witness:
  "\<exists>st' r s0. dl_fixup ARCH_64 example_environ example_fixup_os example_maps 2 (example_reloc ''g'' 0) example_fixup_state = Inr (r, st') \<and>
    run_slot (vm_mem (fx_vm st')) 5 (example_state\<lparr>m_ip := r\<rparr>) = Some s0 \<and>
    (let s1 = exec example_call_env wrapper64_entry s0; s2 = exec example_call_env wrapper64_rp (return_at_once s1) in
      m_ip s1 = 0x400010 \<and> m_regs s1 DI = 5 \<and> m_ip s2 = 0x1001 \<and> m_sp s2 = 0x1008)"
proof -
  have r: "r_name (example_reloc ''g'' 0) \<in> set (fn_words ''f:g'')" "r_jmp_slot (example_reloc ''g'' 0)"
      "st_visibility (r_symbol (example_reloc ''g'' 0)) = 0" "\<not> dl_bind_not example_fixup_os"
      "\<not> errorDuringElfperfFunctionLoad example_fixup_state" "getLibMap ELFPERF_LIB_NAME example_maps 2 \<noteq> None"
      "symbol_value ARCH_64 example_fixup_os (fx_lookup example_fixup_os (r_name (example_reloc ''g'' 0)) 2) = Inr 0x400010"
      "unat (0x400010 :: u64) < address_limit ARCH_64" "\<not> initialized example_fixup_state"
    using example_fixup_env(3) by (simp_all add: example_reloc_def example_fixup_os_def symbol_value_def example_fixup_state_def)
  have E: "e_arch example_call_env = ARCH_64" "e_pre example_call_env = hook_pre example_prof_os"
      "e_post example_call_env = hook_post ARCH_64 example_environ example_prof_os" "8 * e_frame example_call_env < 2 ^ 64"
      "8 + 32 \<le> e_frame example_call_env"
    by (simp_all add: example_call_env_def example_env_def)
  have s: "m_mem example_state (m_sp example_state) = (0x1001 :: u64)" "m_prof (example_state :: (u64, _) mstate) = Inr example_prof"
      "m_regs (example_state :: (u64, _) mstate) DI = 5" "m_sp (example_state :: (u64, _) mstate) = 0x1000"
    by (simp_all add: example_state_def)
  have c: "can_profile ARCH_64 example_environ example_prof_os 100 0x400010 [] [] example_prof"
    using example_fixup_env(1) by (intro fresh_can_profile [of _ _ "''f:g''"]) (simp_all add: fixup_env_ok_def)
  obtain st' r0 s0 where w: "dl_fixup ARCH_64 example_environ example_fixup_os example_maps 2 (example_reloc ''g'' 0) example_fixup_state = Inr (r0, st')"
      "run_slot (vm_mem (fx_vm st')) 5 (example_state\<lparr>m_ip := r0\<rparr>) = Some s0"
      "m_ip (exec example_call_env wrapper64_entry s0) = 0x400010" "m_regs (exec example_call_env wrapper64_entry s0) = m_regs example_state"
      "\<forall>t. returned ARCH_64 example_environ example_prof_os [] (exec example_call_env wrapper64_entry s0) t \<longrightarrow>
        m_ip (exec example_call_env wrapper64_rp t) = 0x1001 \<and> m_sp (exec example_call_env wrapper64_rp t) = m_sp example_state + 8"
    using profiled_call_end_to_end [OF example_fixup_env(1,2) r(1-4,6,5) example_fixup_env(4-6) _ r(7) _ E s(1,2) c r(8)]
      example_fixup_env(7) r(9) unfolding Let_def by blast
  then show ?thesis
    using w(5) [rule_format, OF return_at_once] by (intro exI [of _ st'] exI [of _ r0] exI [of _ s0]) (simp add: Let_def s(3,4))
qed

section \<open>The same on x86\<close>

text \<open>The machine has 32-bit cells, the addresses of the loader are given with 64 bits.\<close>

definition run_slot32 :: "memory \<Rightarrow> nat \<Rightarrow> u64 \<Rightarrow> (u32, 'p) mstate \<Rightarrow> (u32, 'p) mstate option" where
  "run_slot32 code k r s =
     map_option (\<lambda>c. (foldr (\<lambda>v. push (ucast v)) (stk c) s)\<lparr>m_ip := ucast (ip c)\<rparr>) (rrun ARCH_32 code k \<lparr>ip = r, ax = 0, stk = []\<rparr>)"

lemma pushed_cells32:
  fixes s :: "(u32, 'p) mstate"
  shows "m_sp (push f s) = m_sp s - 4" "m_mem (push f s) (m_sp s - 4) = f"
    "4 * i + 4 < 2 ^ 32 \<Longrightarrow> m_mem (push f s) (cell_at (m_sp s) i) = m_mem s (cell_at (m_sp s) i)"
proof -
  have "(m_sp s + of_nat (4 * i) = m_sp s - 4) = (of_nat (4 * i + 4) = (0 :: u32))"
    by (auto simp: algebra_simps eq_diff_eq add_eq_0_iff)
  moreover have "of_nat (4 * i + 4) \<noteq> (0 :: u32)" if "4 * i + 4 < 2 ^ 32"
    using that by (simp add: word_of_nat_eq_0_iff nat_dvd_not_less del: of_nat_add of_nat_mult)
  ultimately show "m_sp (push f s) = m_sp s - 4" "m_mem (push f s) (m_sp s - 4) = f"
      "4 * i + 4 < 2 ^ 32 \<Longrightarrow> m_mem (push f s) (cell_at (m_sp s) i) = m_mem s (cell_at (m_sp s) i)"
    by (auto simp: push_def cell_def cell_at_def)
qed

text \<open>C10. A profiled call on x86 from beginning to end: the loader resolves it to a redirector, from which control reaches
  the wrapper and then the function with the general-purpose registers and the caller's stack as in a
  direct call, and goes back to the caller's return address with them as the function left them; the call and those nested
  in it are counted.\<close>

theorem profiled_call_end_to_end_32:
  assumes "fixup_env_ok ARCH_32 env v os" "fixup_inv ARCH_32 env v os st" "r_name reloc \<in> set (fn_words v)"
    and "r_jmp_slot reloc" "st_visibility (r_symbol reloc) = 0" "\<not> dl_bind_not os"
    and "getLibMap ELFPERF_LIB_NAME maps l \<noteq> None" "\<not> errorDuringElfperfFunctionLoad st"
    and "\<not> has_name ELFPERF_LIBC_NAME (maps ! l)" "\<not> has_name ELFPERF_LIB_NAME (maps ! l)"
      "\<not> has_name ELFPERF_LIBDL_NAME (maps ! l)"
    and "elfperfFuncs st \<noteq> None \<or> (\<exists>fs. getElfperfFunctions ARCH_32 os maps l = Inr (Some fs))"
    and "symbol_value ARCH_32 os (fx_lookup os (r_name reloc) l) = Inr f" "\<not> (initialized st \<and> registered ARCH_32 st (r_name reloc))"
    and "e_arch E = ARCH_32" "e_pre E = hook_pre pos" "e_post E = hook_post ARCH_32 env pos"
    and "4 * e_frame E < 2 ^ 32" "n + 14 \<le> e_frame E"
    and "m_mem s (m_sp s) = ret" "m_prof s = Inr p" "can_profile ARCH_32 env pos d f cs fs p"
    and "unat f < address_limit ARCH_32"
  shows "\<exists>st' r s0. dl_fixup ARCH_32 env os maps l reloc st = Inr (r, st') \<and> fx_got st' (r_addr reloc) = r \<and>
    run_slot32 (vm_mem (fx_vm st')) 2 r s = Some s0 \<and> m_ip s0 = ucast (fx_wrapper os) \<and>
    (let s1 = exec E wrapper32_entry s0 in
      m_ip s1 = ucast f \<and> (\<forall>g \<in> set gpr32. m_regs s1 g = m_regs s g) \<and>
      (\<forall>i < n. m_mem s1 (cell_at (m_sp s + 4) i) = m_mem s (cell_at (m_sp s + 4) i)) \<and>
      (\<forall>t. returned ARCH_32 env pos cs s1 t \<longrightarrow>
        (let s2 = exec E wrapper32_rp t in
          m_ip s2 = ret \<and> m_sp s2 = m_sp s + 4 \<and> (\<forall>g \<in> set gpr32. m_regs s2 g = m_regs t g) \<and>
          (\<forall>i < n. m_mem s2 (cell_at (m_sp s + 4) i) = m_mem t (cell_at (m_sp s + 4) i)) \<and>
          (\<exists>p' es u. m_prof s2 = Inr p' \<and> prof_rel ARCH_32 env pos p' fs \<and> map fst es = returns_all cs \<and>
             table_of (prof_stats p') = bump f u (bumps es (table_of (prof_stats p)))))))"
proof -
  have f: "ucast (ucast f :: u32) = f"
    using to_ptr_id [OF assms(23)] by simp
  obtain st' r where fx: "dl_fixup ARCH_32 env os maps l reloc st = Inr (r, st')" "fx_got st' = (fx_got st)(r_addr reloc := r)"
      "rrun ARCH_32 (vm_mem (fx_vm st')) 2 \<lparr>ip = r, ax = 0, stk = []\<rparr> = Some \<lparr>ip = fx_wrapper os, ax = 0, stk = [f]\<rparr>"
    using fixup_redirected [OF assms(1-13,23) refl, of 0 "[]"] unfolding if_not_P [OF assms(14)] by auto
  define s0 where "s0 = (push (ucast f) s)\<lparr>m_ip := ucast (fx_wrapper os)\<rparr>"
  have slot: "run_slot32 (vm_mem (fx_vm st')) 2 r s = Some s0"
    using fx(3) by (simp add: run_slot32_def s0_def)
  have sp: "m_sp s0 = m_sp s - 4" "m_mem s0 (m_sp s0) = ucast f" "m_regs s0 = m_regs s" "m_prof s0 = Inr p"
      "m_ip s0 = ucast (fx_wrapper os)"
    using pushed_cells32(1,2) [of "ucast f" s] assms(21) by (simp_all add: s0_def push_def)
  have cells: "m_mem s0 (cell_at (m_sp s) i) = m_mem s (cell_at (m_sp s) i)" if "i \<le> n" for i
  proof -
    have "4 * i + 4 < 2 ^ 32" using that assms(18,19) by linarith
    from pushed_cells32(3) [OF this, of "ucast f" s] show ?thesis by (simp add: s0_def)
  qed
  have ret: "m_mem s0 (m_sp s0 + 4) = ret" using cells [of 0] assms(20) by (simp add: sp(1) cell_at_def)
  have above: "m_mem s0 (cell_at (m_sp s + 4) i) = m_mem s (cell_at (m_sp s + 4) i)" if "i < n" for i
    using cells [of "Suc i"] that by (simp add: cell_at_def cell_def algebra_simps)
  have "can_profile ARCH_32 env pos d (ucast (ucast f :: u32)) cs fs p" using assms(22) f by simp
  note w = wrapped_call_32 [OF assms(15-19) sp(2) ret sp(4) this, unfolded Let_def]
  let ?s1 = "exec E wrapper32_entry s0"
  have sp8: "m_sp s0 + 8 = m_sp s + 4" by (simp add: sp(1))
  obtain t0 where t0: "returned ARCH_32 env pos cs ?s1 t0"
    by (rule that [of "?s1\<lparr>m_ip := m_mem ?s1 (m_sp ?s1), m_sp := m_sp ?s1 + 4,
        m_prof := bind_result (m_prof ?s1) (run_calls (preProfile pos) (postProfile ARCH_32 env pos) cs)\<rparr>"])
      (simp add: returned_def cell_def)
  show ?thesis
    using fx(1,2) slot sp(5) w [OF t0] w above unfolding Let_def sp8 sp(3) f by (intro exI [of _ st'] exI [of _ r] exI [of _ s0]) auto
qed

definition example_call_env32 :: "(u32, prof_state result) cenv" where
  "example_call_env32 = (example_env ARCH_32)\<lparr>e_post := hook_post ARCH_32 example_environ example_prof_os\<rparr>"

lemma example_fixup_env32:
  "fixup_env_ok ARCH_32 example_environ ''f:g'' example_fixup_os"
  "fixup_inv ARCH_32 example_environ ''f:g'' example_fixup_os example_fixup_state"
  by (simp add: fixup_env_ok_def example_environ_def example_fixup_os_def isElfPerfEnabled_def getenv_def
      ELFPERF_ENABLE_VARIABLE_def ELFPERF_PROFILE_FUNCTION_ENV_VARIABLE_def c_string_def attach_def)
    (simp add: fixup_inv_def example_fixup_state_def profiled_ok_def)

theorem profiled_call_end_to_end_32_witness:
  "\<exists>st' r s0. dl_fixup ARCH_32 example_environ example_fixup_os example_maps 2 (example_reloc ''g'' 0) example_fixup_state = Inr (r, st') \<and>
    run_slot32 (vm_mem (fx_vm st')) 2 r example_state = Some s0 \<and>
    (let s1 = exec example_call_env32 wrapper32_entry s0; s2 = exec example_call_env32 wrapper32_rp (return_at_once s1) in
      m_ip s1 = 0x400010 \<and> m_regs s1 BX = 5 \<and> m_ip s2 = 0x1001 \<and> m_sp s2 = 0x1004)"
proof -
  have r: "r_name (example_reloc ''g'' 0) \<in> set (fn_words ''f:g'')" "r_jmp_slot (example_reloc ''g'' 0)"
      "st_visibility (r_symbol (example_reloc ''g'' 0)) = 0" "\<not> dl_bind_not example_fixup_os"
      "\<not> errorDuringElfperfFunctionLoad example_fixup_state" "getLibMap ELFPERF_LIB_NAME example_maps 2 \<noteq> None"
      "symbol_value ARCH_32 example_fixup_os (fx_lookup example_fixup_os (r_name (example_reloc ''g'' 0)) 2) = Inr 0x400010"
      "unat (0x400010 :: u64) < address_limit ARCH_32" "\<not> initialized example_fixup_state"
    using example_fixup_env(3) by (simp_all add: example_reloc_def example_fixup_os_def symbol_value_def example_fixup_state_def)
  have E: "e_arch example_call_env32 = ARCH_32" "e_pre example_call_env32 = hook_pre example_prof_os"
      "e_post example_call_env32 = hook_post ARCH_32 example_environ example_prof_os" "4 * e_frame example_call_env32 < 2 ^ 32"
      "8 + 14 \<le> e_frame example_call_env32"
    by (simp_all add: example_call_env32_def example_env_def)
  have s: "m_mem example_state (m_sp example_state) = (0x1001 :: u32)" "m_prof (example_state :: (u32, _) mstate) = Inr example_prof"
      "m_regs (example_state :: (u32, _) mstate) BX = 5" "m_sp (example_state :: (u32, _) mstate) = 0x1000" "BX \<in> set gpr32"
    by (simp_all add: example_state_def gpr32_def)
  have c: "can_profile ARCH_32 example_environ example_prof_os 100 0x400010 [] [] example_prof"
    using example_fixup_env32(1) by (intro fresh_can_profile [of _ _ "''f:g''"]) (simp_all add: fixup_env_ok_def)
  obtain st' r0 s0 where w: "dl_fixup ARCH_32 example_environ example_fixup_os example_maps 2 (example_reloc ''g'' 0) example_fixup_state = Inr (r0, st')"
      "run_slot32 (vm_mem (fx_vm st')) 2 r0 example_state = Some s0"
      "m_ip (exec example_call_env32 wrapper32_entry s0) = ucast (0x400010 :: u64)"
      "\<forall>g \<in> set gpr32. m_regs (exec example_call_env32 wrapper32_entry s0) g = m_regs example_state g"
      "\<forall>t. returned ARCH_32 example_environ example_prof_os [] (exec example_call_env32 wrapper32_entry s0) t \<longrightarrow>
        m_ip (exec example_call_env32 wrapper32_rp t) = 0x1001 \<and> m_sp (exec example_call_env32 wrapper32_rp t) = m_sp example_state + 4"
    using profiled_call_end_to_end_32 [OF example_fixup_env32 r(1-4,6,5) example_fixup_env(4-6) _ r(7) _ E s(1,2) c r(8)]
      example_fixup_env(7) r(9) unfolding Let_def by blast
  then show ?thesis
    using w(5) [rule_format, OF return_at_once] s(5)
    by (intro exI [of _ st'] exI [of _ r0] exI [of _ s0]) (simp add: Let_def s(3,4))
qed

end
