(* ===== verification/Spinlock.thy ===== *)
theory Spinlock
  imports Global_Stats
begin

text \<open>
  The spinlock of \<^verbatim>\<open>updateStat\<close> in \<^verbatim>\<open>libelfperf/global_stats.c\<close> with any number of threads. A
  thread that wants to record a call adds one to the lock word until it reads zero, reads the
  statistics, writes them back changed, and clears the word.
\<close>

section \<open>Threads and steps\<close>

text \<open>Where a thread is: not in \<^verbatim>\<open>updateStat\<close>; in the loop; past the loop; past the search for the
  record, with the statistics as it has read them; past the update.\<close>

datatype spin_pc =
    Outside
  | Spinning "u64 \<times> u64"
  | Entered "u64 \<times> u64"
  | Searched "u64 \<times> u64" stat_table
  | Updated

text \<open>
  The lock word, the statistics, the threads, and for the proofs the number of failed attempts
  since the word was last zero and the calls recorded so far, the latest last.
\<close>

record spin_state =
  sl_word :: u32
  sl_table :: stat_table
  sl_pc :: "nat \<Rightarrow> spin_pc"
  sl_fails :: nat
  sl_log :: "(u64 \<times> u64) list"

fun holds_lock :: "spin_pc \<Rightarrow> bool" where
  "holds_lock (Entered e) = True"
| "holds_lock (Searched e tab) = True"
| "holds_lock Updated = True"
| "holds_lock _ = False"

text \<open>One attempt: \<^verbatim>\<open>__sync_fetch_and_add\<close> adds one, and the old value decides.\<close>

definition attempt :: "nat \<Rightarrow> u64 \<times> u64 \<Rightarrow> spin_state \<Rightarrow> spin_state" where
  "attempt t e s =
     (if sl_word s = 0
      then s\<lparr>sl_word := sl_word s + 1, sl_pc := (sl_pc s)(t := Entered e), sl_fails := 0\<rparr>
      else s\<lparr>sl_word := sl_word s + 1, sl_fails := sl_fails s + 1\<rparr>)"

inductive spin_step :: "spin_state \<Rightarrow> spin_state \<Rightarrow> bool" where
  call: "sl_pc s t = Outside \<Longrightarrow> spin_step s (s\<lparr>sl_pc := (sl_pc s)(t := Spinning e)\<rparr>)"
| spin: "sl_pc s t = Spinning e \<Longrightarrow> spin_step s (attempt t e s)"
| search: "sl_pc s t = Entered e \<Longrightarrow> spin_step s (s\<lparr>sl_pc := (sl_pc s)(t := Searched e (sl_table s))\<rparr>)"
| update: "sl_pc s t = Searched (a, d) tab \<Longrightarrow>
    spin_step s (s\<lparr>sl_table := bump a d tab, sl_pc := (sl_pc s)(t := Updated), sl_log := sl_log s @ [(a, d)]\<rparr>)"
| unlock: "sl_pc s t = Updated \<Longrightarrow>
    spin_step s (s\<lparr>sl_word := 0, sl_pc := (sl_pc s)(t := Outside), sl_fails := 0\<rparr>)"

inductive_cases spin_stepE: "spin_step s s'"

definition spin_init :: spin_state where
  "spin_init = \<lparr>sl_word = 0, sl_table = [], sl_pc = (\<lambda>_. Outside), sl_fails = 0, sl_log = []\<rparr>"

text \<open>The states that can be reached with at most \<open>B\<close> failed attempts while the lock is held.\<close>

inductive spin_reach :: "nat \<Rightarrow> spin_state \<Rightarrow> bool" for B where
  init: "spin_reach B spin_init"
| step: "spin_reach B s \<Longrightarrow> spin_step s s' \<Longrightarrow> sl_fails s' \<le> B \<Longrightarrow> spin_reach B s'"

section \<open>Invariant\<close>

definition spin_inv :: "spin_state \<Rightarrow> bool" where
  "spin_inv s \<longleftrightarrow>
     (\<forall>t u. holds_lock (sl_pc s t) \<longrightarrow> holds_lock (sl_pc s u) \<longrightarrow> t = u)
     \<and> (\<forall>t e tab. sl_pc s t = Searched e tab \<longrightarrow> tab = sl_table s)
     \<and> sl_table s = stat_rows (sl_log s)
     \<and> sl_word s = (if \<exists>t. holds_lock (sl_pc s t) then of_nat (Suc (sl_fails s)) else 0)"

lemma word_pos: "Suc n < 2 ^ 32 \<Longrightarrow> (of_nat (Suc n) :: u32) \<noteq> 0"
  by (simp only: word_unat_eq_iff unat_of_nat) simp

lemma spin_inv_init: "spin_inv spin_init"
  by (simp add: spin_inv_def spin_init_def stat_rows_def)

lemma spin_inv_step:
  assumes "spin_inv s" "spin_step s s'" "Suc (sl_fails s) < 2 ^ 32"
  shows "spin_inv s'"
  using assms(2)
proof cases
  case (call t e)
  have "holds_lock (sl_pc s' u) = holds_lock (sl_pc s u)" for u
    using call by simp
  then show ?thesis using assms(1) call by (auto simp: spin_inv_def)
next
  case (spin t e)
  have "(\<exists>t. holds_lock (sl_pc s t)) \<longleftrightarrow> sl_word s \<noteq> 0"
    using assms(1,3) word_pos [of "sl_fails s"] by (auto simp: spin_inv_def)
  then show ?thesis using assms(1) spin by (auto simp: spin_inv_def attempt_def)
next
  case (search t e)
  have "holds_lock (sl_pc s' u) = holds_lock (sl_pc s u)" for u
    using search by simp
  moreover have "\<exists>u. holds_lock (sl_pc s u)" using search by (intro exI [of _ t]) simp
  ultimately show ?thesis using assms(1) search by (auto simp: spin_inv_def)
next
  case (update t a d tab)
  have h: "holds_lock (sl_pc s' u) = holds_lock (sl_pc s u)" for u
    using update by simp
  have "sl_pc s u \<noteq> Searched e' tab'" if "u \<noteq> t" for u e' tab'
    using assms(1) update(2) that by (force simp: spin_inv_def)
  moreover have "tab = stat_rows (sl_log s)"
    using assms(1) update(2) by (force simp: spin_inv_def)
  ultimately show ?thesis
    using assms(1) update h by (auto simp: spin_inv_def stat_rows_snoc)
next
  case (unlock t)
  have "holds_lock (sl_pc s t)" using unlock by simp
  then have "\<not> holds_lock (sl_pc s u)" if "u \<noteq> t" for u
    using assms(1) that unfolding spin_inv_def by blast
  then have "\<not> holds_lock (sl_pc s' u)" for u
    using unlock by simp
  then show ?thesis using assms(1) unlock by (auto simp: spin_inv_def)
qed

lemma spin_reach_inv:
  assumes "spin_reach B s" "Suc B < 2 ^ 32"
  shows "spin_inv s \<and> sl_fails s \<le> B"
  using assms(1)
proof induction
  case init
  then show ?case by (simp add: spin_inv_init) (simp add: spin_init_def)
next
  case (step s s')
  then show ?case using spin_inv_step [of s s'] assms(2) by simp
qed


section \<open>Progress\<close>

text \<open>The call that a thread has still to record.\<close>

fun pending :: "spin_pc \<Rightarrow> (u64 \<times> u64) option" where
  "pending (Spinning e) = Some e"
| "pending (Entered e) = Some e"
| "pending (Searched e tab) = Some e"
| "pending _ = None"

definition finishes :: "nat \<Rightarrow> spin_state \<Rightarrow> spin_state \<Rightarrow> bool" where
  "finishes t s s' \<longleftrightarrow> spin_step\<^sup>*\<^sup>* s s' \<and> sl_pc s' t = Outside \<and>
     (\<exists>es. sl_log s' = sl_log s @ es \<and> (\<forall>e. pending (sl_pc s t) = Some e \<longrightarrow> e \<in> set es))"

lemma finish_Updated:
  assumes "sl_pc s t = Updated"
  shows "\<exists>s'. finishes t s s' \<and> sl_word s' = 0 \<and> sl_pc s' = (sl_pc s)(t := Outside)"
  using spin_step.unlock [OF assms] assms
  by (intro exI [of _ "s\<lparr>sl_word := 0, sl_pc := (sl_pc s)(t := Outside), sl_fails := 0\<rparr>"]) (auto simp: finishes_def)

lemma finish_Searched:
  assumes "sl_pc s t = Searched e tab"
  shows "\<exists>s'. finishes t s s' \<and> sl_word s' = 0 \<and> sl_pc s' = (sl_pc s)(t := Outside)"
proof -
  obtain a d where e: "e = (a, d)" by (cases e)
  let ?s = "s\<lparr>sl_table := bump a d tab, sl_pc := (sl_pc s)(t := Updated), sl_log := sl_log s @ [(a, d)]\<rparr>"
  have "spin_step s ?s" using spin_step.update assms e by blast
  moreover obtain s' where "finishes t ?s s'" "sl_word s' = 0" "sl_pc s' = (sl_pc ?s)(t := Outside)"
    using finish_Updated [of ?s t] by auto
  ultimately show ?thesis
    using assms e by (intro exI [of _ s']) (auto simp: finishes_def intro: converse_rtranclp_into_rtranclp)
qed

lemma finish_holder:
  assumes "holds_lock (sl_pc s t)"
  shows "\<exists>s'. finishes t s s' \<and> sl_word s' = 0 \<and> sl_pc s' = (sl_pc s)(t := Outside)"
proof (cases "sl_pc s t")
  case (Entered e)
  let ?s = "s\<lparr>sl_pc := (sl_pc s)(t := Searched e (sl_table s))\<rparr>"
  have "spin_step s ?s" using spin_step.search Entered by blast
  moreover obtain s' where "finishes t ?s s'" "sl_word s' = 0" "sl_pc s' = (sl_pc ?s)(t := Outside)"
    using finish_Searched [of ?s t e "sl_table s"] by auto
  ultimately show ?thesis
    using Entered by (intro exI [of _ s']) (auto simp: finishes_def intro: converse_rtranclp_into_rtranclp)
qed (use assms finish_Searched finish_Updated in auto)

lemma finish_free:
  assumes "sl_word s = 0" "sl_pc s t = Spinning e"
  shows "\<exists>s'. finishes t s s'"
proof -
  have "spin_step s (attempt t e s)" using spin_step.spin assms(2) by blast
  moreover have "sl_pc (attempt t e s) t = Entered e" "sl_log (attempt t e s) = sl_log s"
    using assms(1) by (simp_all add: attempt_def)
  moreover from this obtain s' where "finishes t (attempt t e s) s'"
    using finish_holder [of "attempt t e s" t] by auto
  ultimately show ?thesis
    using assms(2) by (intro exI [of _ s']) (auto simp: finishes_def intro: converse_rtranclp_into_rtranclp)
qed

lemma finish_waiting:
  assumes "spin_inv s" "sl_pc s t = Spinning e"
  shows "\<exists>s'. finishes t s s'"
proof (cases "\<exists>u. holds_lock (sl_pc s u)")
  case True
  then obtain u s1 where u: "holds_lock (sl_pc s u)" "finishes u s s1" "sl_word s1 = 0" "sl_pc s1 = (sl_pc s)(u := Outside)"
    using finish_holder by blast
  then have "u \<noteq> t" using assms(2) by auto
  then obtain s' where "finishes t s1 s'" using finish_free [of s1 t e] u(3,4) assms(2) by auto
  then show ?thesis
    using u(2,4) \<open>u \<noteq> t\<close> by (intro exI [of _ s']) (auto simp: finishes_def)
next
  case False
  then have "sl_word s = 0" using assms(1) by (auto simp: spin_inv_def)
  then show ?thesis using finish_free assms(2) by blast
qed

section \<open>Properties\<close>

text \<open>C11. As long as fewer than \<open>2 ^ 32 - 1\<close> attempts fail while the lock is held, at most one
  thread is in the critical section and no update is lost: the statistics are always the rows of
  the calls recorded so far, whatever the interleaving.\<close>

theorem spinlock_mutual_exclusion:
  assumes "spin_reach B s" "Suc B < 2 ^ 32"
  shows "(holds_lock (sl_pc s t) \<and> holds_lock (sl_pc s u) \<longrightarrow> t = u) \<and> sl_table s = stat_rows (sl_log s)"
  using spin_reach_inv [OF assms] by (auto simp: spin_inv_def)

text \<open>Two threads in the loop, the first of which has then entered.\<close>

definition contended :: spin_state where
  "contended = spin_init\<lparr>sl_pc := (\<lambda>_. Outside)(0 := Spinning (0x500, 7), 1 := Spinning (0x400, 5))\<rparr>"

lemma contended_reach: "spin_reach B (attempt 0 (0x500, 7) contended)"
proof -
  let ?s = "spin_init\<lparr>sl_pc := (\<lambda>_. Outside)(0 := Spinning (0x500, 7))\<rparr>"
  have "spin_step spin_init ?s" "spin_step ?s contended"
    using spin_step.call [of spin_init 0 "(0x500, 7)"] spin_step.call [of ?s 1 "(0x400, 5)"]
    by (simp_all add: contended_def spin_init_def)
  moreover have "spin_step contended (attempt 0 (0x500, 7) contended)"
    by (rule spin_step.spin) (simp add: contended_def)
  moreover have "sl_fails ?s \<le> B" "sl_fails contended \<le> B" "sl_fails (attempt 0 (0x500, 7) contended) \<le> B"
    by (simp_all add: attempt_def contended_def spin_init_def)
  ultimately show ?thesis
    by (blast intro: spin_reach.intros)
qed

theorem spinlock_mutual_exclusion_witness:
  "let s = attempt 0 (0x500, 7) contended in
     holds_lock (sl_pc s 0) \<and> \<not> holds_lock (sl_pc s 1) \<and> sl_table s = []"
proof -
  let ?s = "attempt 0 (0x500, 7) contended"
  have "holds_lock (sl_pc ?s 0)" "sl_log ?s = []"
    by (simp_all add: attempt_def contended_def spin_init_def)
  then show ?thesis
    using spinlock_mutual_exclusion [OF contended_reach [of 1], of 0 1] by (auto simp: Let_def stat_rows_def)
qed

text \<open>Attempts of one thread while another one is inside.\<close>

lemma failing_attempts:
  assumes "sl_word s0 = 1" "sl_fails s0 = 0" "sl_pc s0 t = Spinning e" "n < 2 ^ 32"
  shows "(attempt t e ^^ n) s0 = s0\<lparr>sl_word := of_nat (Suc n), sl_fails := n\<rparr> \<and> spin_step\<^sup>*\<^sup>* s0 ((attempt t e ^^ n) s0)"
  using assms(4)
proof (induction n)
  case 0
  then show ?case using assms(1,2) by simp
next
  case (Suc n)
  let ?s = "s0\<lparr>sl_word := of_nat (Suc n), sl_fails := n\<rparr>"
  have s: "(attempt t e ^^ n) s0 = ?s" "spin_step\<^sup>*\<^sup>* s0 ?s" using Suc.IH Suc.prems by auto
  have "attempt t e ?s = s0\<lparr>sl_word := of_nat (Suc (Suc n)), sl_fails := Suc n\<rparr>"
    using word_pos [of n] Suc.prems by (simp add: attempt_def)
  moreover have "spin_step ?s (attempt t e ?s)" using assms(3) by (intro spin_step.spin) simp
  ultimately show ?case using s by (auto intro: rtranclp.rtrancl_into_rtrancl)
qed

lemma word_wraps: "n < 2 ^ 32 \<Longrightarrow> (of_nat (Suc n) :: u32) = 0 \<longleftrightarrow> n = 2 ^ 32 - 1"
proof (cases "n = 2 ^ 32 - 1")
  case True
  have "(of_nat (Suc (2 ^ 32 - 1)) :: u32) = 0"
    by (simp only: word_unat_eq_iff unat_of_nat) simp
  then show ?thesis unfolding True by blast
qed (use word_pos [of n] in simp)

text \<open>C21. The lock word wraps around. A thread has entered, another one waits, and no attempt has failed yet. Whatever
  number \<open>n\<close> up to \<open>2 ^ 32 - 1\<close> of attempts the second one makes, all of them fail, and the lock word is
  zero after exactly \<open>2 ^ 32 - 1\<close> of them, with the first thread still inside; the next attempt lets the second thread in
  beside it.\<close>

theorem spinlock_wraps_around:
  "\<exists>s0. spin_reach 0 s0 \<and> sl_pc s0 0 = Entered e \<and>
     (\<forall>n < 2 ^ 32.
        spin_step\<^sup>*\<^sup>* s0 ((attempt 1 e' ^^ n) s0) \<and>
        sl_pc ((attempt 1 e' ^^ n) s0) 0 = Entered e \<and> sl_pc ((attempt 1 e' ^^ n) s0) 1 = Spinning e' \<and>
        sl_fails ((attempt 1 e' ^^ n) s0) = n \<and>
        (sl_word ((attempt 1 e' ^^ n) s0) = 0 \<longleftrightarrow> n = 2 ^ 32 - 1)) \<and>
     spin_step\<^sup>*\<^sup>* s0 (attempt 1 e' ((attempt 1 e' ^^ (2 ^ 32 - 1)) s0)) \<and>
     sl_pc (attempt 1 e' ((attempt 1 e' ^^ (2 ^ 32 - 1)) s0)) 0 = Entered e \<and>
     sl_pc (attempt 1 e' ((attempt 1 e' ^^ (2 ^ 32 - 1)) s0)) 1 = Entered e'"
proof -
  define s1 where "s1 = spin_init\<lparr>sl_pc := (\<lambda>_. Outside)(0 := Spinning e, 1 := Spinning e')\<rparr>"
  define s0 where "s0 = attempt 0 e s1"
  have "spin_reach 0 (spin_init\<lparr>sl_pc := (\<lambda>_. Outside)(0 := Spinning e)\<rparr>)"
    using spin_reach.step [OF spin_reach.init spin_step.call [of spin_init 0 e], of 0] by (simp add: spin_init_def)
  from spin_reach.step [OF this spin_step.call [of _ 1 e']] have "spin_reach 0 s1"
    by (simp add: s1_def spin_init_def)
  from spin_reach.step [OF this spin_step.spin [of _ 0 e]] have r: "spin_reach 0 s0"
    by (simp add: s0_def s1_def attempt_def spin_init_def)
  have s0: "sl_word s0 = 1" "sl_fails s0 = 0" "sl_pc s0 1 = Spinning e'" "sl_pc s0 0 = Entered e"
    by (simp_all add: s0_def s1_def attempt_def spin_init_def)
  note run = failing_attempts [OF s0(1-3)]
  have steps: "spin_step\<^sup>*\<^sup>* s0 (s0\<lparr>sl_word := of_nat (Suc n), sl_fails := n\<rparr>)" if "n < 2 ^ 32" for n
    using run [OF that] by metis
  define s where "s = (attempt 1 e' ^^ (2 ^ 32 - 1)) s0"
  have "sl_word s = of_nat (Suc (2 ^ 32 - 1))" and s: "sl_pc s = sl_pc s0" "spin_step\<^sup>*\<^sup>* s0 s"
    using run [of "2 ^ 32 - 1"] unfolding s_def [symmetric] by (auto simp del: of_nat_Suc)
  then have "sl_word s = 0" using word_wraps [of "2 ^ 32 - 1"] by (simp del: of_nat_Suc)
  then have a: "attempt 1 e' s = s\<lparr>sl_word := 1, sl_pc := (sl_pc s0)(1 := Entered e'), sl_fails := 0\<rparr>"
    using s(1) by (simp add: attempt_def)
  have "spin_step s (attempt 1 e' s)" using s0(3) s(1) by (intro spin_step.spin) simp
  then have "spin_step\<^sup>*\<^sup>* s0 (attempt 1 e' s)" using s(2) by simp
  moreover have "sl_pc (attempt 1 e' s) 0 = Entered e" "sl_pc (attempt 1 e' s) 1 = Entered e'"
    unfolding a using s0(4) by simp_all
  ultimately show ?thesis
    unfolding s_def using r s0(3,4) run word_wraps steps
    by (intro exI [of _ s0] conjI allI impI) (auto simp del: of_nat_Suc)
qed

text \<open>After three failed attempts the word is not zero.\<close>

theorem spinlock_wraps_around_witness:
  "\<exists>s0. spin_reach 0 s0 \<and> sl_word ((attempt 1 (0x400, 5) ^^ 3) s0) \<noteq> 0 \<and> sl_fails ((attempt 1 (0x400, 5) ^^ 3) s0) = 3"
proof -
  obtain s0 where s0: "spin_reach 0 s0"
      "\<forall>n < 2 ^ 32. sl_fails ((attempt 1 (0x400, 5) ^^ n) s0) = n \<and> (sl_word ((attempt 1 (0x400, 5) ^^ n) s0) = 0 \<longleftrightarrow> n = 2 ^ 32 - 1)"
    using spinlock_wraps_around [of "(0x500, 7)" "(0x400, 5)"] by auto
  have "3 < (2 :: nat) ^ 32" "(3 :: nat) \<noteq> 2 ^ 32 - 1" by simp_all
  then show ?thesis using s0 by blast
qed

text \<open>C12. The lock does not deadlock: from every state that can be reached with fewer than \<open>2 ^ 32 - 1\<close> failed
  attempts, each thread inside \<^verbatim>\<open>updateStat\<close> can get out of it, with its call recorded behind those recorded
  before.\<close>

theorem spinlock_progress:
  assumes "spin_reach B s" "Suc B < 2 ^ 32"
  shows "\<exists>s'. spin_step\<^sup>*\<^sup>* s s' \<and> sl_pc s' t = Outside \<and>
    (\<exists>es. sl_log s' = sl_log s @ es \<and> (\<forall>e. pending (sl_pc s t) = Some e \<longrightarrow> e \<in> set es))"
proof -
  have "\<exists>s'. finishes t s s'"
  proof (cases "sl_pc s t")
    case Outside
    then show ?thesis by (intro exI [of _ s]) (simp add: finishes_def)
  next
    case (Spinning e)
    then show ?thesis using finish_waiting spin_reach_inv [OF assms] by blast
  qed (use finish_holder [of s t] in auto)
  then show ?thesis unfolding finishes_def .
qed

theorem spinlock_progress_witness:
  "\<exists>s'. spin_step\<^sup>*\<^sup>* (attempt 0 (0x500, 7) contended) s' \<and> sl_pc s' 1 = Outside \<and> (0x400, 5) \<in> set (sl_log s')"
proof -
  have "pending (sl_pc (attempt 0 (0x500, 7) contended) 1) = Some (0x400, 5)"
    by (simp add: attempt_def contended_def spin_init_def)
  then show ?thesis
    using spinlock_progress [OF contended_reach [of 1], of 1] by force
qed

end
