(* ===== verification/Dl_Misc.thy ===== *)
theory Dl_Misc
  imports Shared_Storage
begin

text \<open>
  Helpers of the loader in \<^verbatim>\<open>elf/dl-misc.c\<close> and \<^verbatim>\<open>stdio-common/_itoa.h\<close>: the small printf through
  which the report is written, the comparison of object names, and the table of primes that sizes
  the hash table of unique symbols.
\<close>

section \<open>Numbers as text\<close>

definition itoa_lower_digits :: string where
  "itoa_lower_digits = ''0123456789abcdefghijklmnopqrstuvwxyz''"

definition itoa_upper_digits :: string where
  "itoa_upper_digits = ''0123456789ABCDEFGHIJKLMNOPQRSTUVWXYZ''"

text \<open>The digits are written backwards, before what is already there. Base 0 divides by zero and
  base 1 never ends; the callers use 10 and 16.\<close>

function itoa_loop :: "string \<Rightarrow> nat \<Rightarrow> nat \<Rightarrow> string \<Rightarrow> string" where
  "itoa_loop digits base v buf =
     (let buf' = digits ! (v mod base) # buf
      in if v div base \<noteq> 0 \<and> 2 \<le> base then itoa_loop digits base (v div base) buf' else buf')"
  by pat_completeness auto

termination itoa_loop
  by (relation "measure (\<lambda>(_, _, v, _). v)") (auto intro!: div_less_dividend intro: gr0I)

declare itoa_loop.simps [simp del]

definition itoa_word :: "u64 \<Rightarrow> nat \<Rightarrow> bool \<Rightarrow> string" where
  "itoa_word v base upper_case =
     itoa_loop (if upper_case then itoa_upper_digits else itoa_lower_digits) base (unat v) []"

section \<open>The printf of the loader\<close>

text \<open>
  The variable arguments as the words on the stack (32 bits wide) or the argument slots (64 bits
  wide). An \<^verbatim>\<open>int\<close> is the low half of a slot; a string is found by its address. Taking an
  argument that was not passed is a fault.
\<close>

definition va_int :: "u64 \<Rightarrow> u32" where
  "va_int w = ucast w"

definition NIOVMAX :: nat where "NIOVMAX = 64"

fun va_arg :: "u64 list \<Rightarrow> (u64 \<times> u64 list) result" where
  "va_arg [] = Inl OutOfBounds"
| "va_arg (w # ws) = Inr (w, ws)"

fun sizeof_long :: "arch \<Rightarrow> nat" where
  "sizeof_long ARCH_32 = 4"
| "sizeof_long ARCH_64 = 8"

text \<open>The flag, width, precision and length modifier of a format specifier. What remains starts with
  the conversion.\<close>

record spec =
  sp_fill :: char
  sp_width :: int
  sp_prec :: int
  sp_long :: bool

definition parse_fill :: "string \<Rightarrow> char \<times> string" where
  "parse_fill fmt = (case fmt of c # cs \<Rightarrow> if c = CHR ''0'' then (CHR ''0'', cs) else (CHR '' '', fmt) | [] \<Rightarrow> (CHR '' '', fmt))"

definition parse_width :: "string \<Rightarrow> u64 list \<Rightarrow> (int \<times> string \<times> u64 list) result" where
  "parse_width fmt args =
     (if prefix ''*'' fmt
      then bind_result (va_arg args) (\<lambda>(w, args'). Inr (sint (va_int w), drop 1 fmt, args'))
      else Inr (- 1, fmt, args))"

definition parse_prec :: "string \<Rightarrow> u64 list \<Rightarrow> (int \<times> string \<times> u64 list) result" where
  "parse_prec fmt args =
     (if prefix ''.*'' fmt
      then bind_result (va_arg args) (\<lambda>(w, args'). Inr (sint (va_int w), drop 2 fmt, args'))
      else Inr (- 1, fmt, args))"

definition parse_long :: "string \<Rightarrow> bool \<times> string" where
  "parse_long fmt = (if prefix ''l'' fmt \<or> prefix ''Z'' fmt then (True, drop 1 fmt) else (False, fmt))"

text \<open>The conversions. The buffer of a number has \<^verbatim>\<open>3 * sizeof (long)\<close> bytes, and padding it beyond
  that is an overflow of the stack; a precision of -1 is none, and another negative one is a huge
  \<^verbatim>\<open>size_t\<close>.\<close>

definition convert :: "arch \<Rightarrow> (u64 \<Rightarrow> string option) \<Rightarrow> spec \<Rightarrow> string \<Rightarrow> u64 list \<Rightarrow> (string \<times> u64 list) result" where
  "convert A strs sp fmt args =
     (if prefix ''u'' fmt \<or> prefix ''x'' fmt
      then bind_result (va_arg args) (\<lambda>(w, args').
             let num = (if A = ARCH_64 \<and> sp_long sp then w else ucast (va_int w));
                 s = itoa_word num (if prefix ''x'' fmt then 16 else 10) False;
                 pad = (if sp_width sp = - 1 then 0 else nat (sp_width sp) - length s)
             in if 3 * sizeof_long A < pad + length s then Inl OutOfBounds
                else Inr (replicate pad (sp_fill sp) @ s, args'))
      else if prefix ''s'' fmt
      then bind_result (va_arg args) (\<lambda>(w, args').
             case strs w of
               None \<Rightarrow> Inl SegFault
             | Some s \<Rightarrow> Inr (if 0 \<le> sp_prec sp then take (nat (sp_prec sp)) s else s, args'))
      else if prefix ''%'' fmt then Inr (''%'', args)
      else Inl AssertFailed)"

definition format_spec :: "arch \<Rightarrow> (u64 \<Rightarrow> string option) \<Rightarrow> string \<Rightarrow> u64 list \<Rightarrow> (string \<times> string \<times> u64 list) result" where
  "format_spec A strs fmt args =
     (let (fill, fmt1) = parse_fill fmt in
      bind_result (parse_width fmt1 args) (\<lambda>(width, fmt2, args1).
      bind_result (parse_prec fmt2 args1) (\<lambda>(prec, fmt3, args2).
      let (lng, fmt4) = parse_long fmt3 in
      bind_result (convert A strs \<lparr>sp_fill = fill, sp_width = width, sp_prec = prec, sp_long = lng\<rparr> fmt4 args2)
        (\<lambda>(s, args3). Inr (s, drop 1 fmt4, args3)))))"

text \<open>The tag of a line: the process id, right-aligned in ten places, a colon and a tab.\<close>

definition pid_tag :: "u32 \<Rightarrow> string result" where
  "pid_tag pid =
     (if 0 \<le> sint pid
      then let p = itoa_word (ucast pid) 10 False
           in Inr (replicate (10 - length p) (CHR '' '') @ p @ [CHR '':'', CHR 0x09])
      else Inl AssertFailed)"

text \<open>Adding a stripe, with the test that the code makes for some of them and without.\<close>

definition add_stripe :: "fault \<Rightarrow> string \<Rightarrow> string list \<Rightarrow> string list result" where
  "add_stripe f s iov = (if length iov < NIOVMAX then Inr (iov @ [s]) else Inl f)"

definition tag_stripe :: "u32 \<Rightarrow> int \<Rightarrow> string list \<Rightarrow> (int \<times> string list) result" where
  "tag_stripe pid tag_p iov =
     (if 0 < tag_p
      then bind_result (pid_tag pid) (\<lambda>t. bind_result (add_stripe AssertFailed t iov) (\<lambda>iov'. Inr (- 1, iov')))
      else Inr (tag_p, iov))"

definition const_stripe :: "string \<Rightarrow> string list \<Rightarrow> string list result" where
  "const_stripe s iov =
     (if length iov < NIOVMAX then Inr (if s = [] then iov else iov @ [s]) else Inl AssertFailed)"

definition is_const :: "int \<Rightarrow> char \<Rightarrow> bool" where
  "is_const tag_p c \<longleftrightarrow> c \<noteq> CHR ''%'' \<and> (tag_p = 0 \<or> c \<noteq> CHR 0x0A)"

definition newline_stripe :: "string \<Rightarrow> string list \<Rightarrow> string list result" where
  "newline_stripe s iov =
     (if s = [] then add_stripe OutOfBounds [CHR 0x0A] iov
      else Inr (butlast iov @ [last iov @ [CHR 0x0A]]))"

lemma parse_suffix:
  "parse_fill f = (c, f') \<Longrightarrow> suffix f' f"
  "parse_long f = (b, f') \<Longrightarrow> suffix f' f"
  "parse_width f a = Inr (w, f', a') \<Longrightarrow> suffix f' f"
  "parse_prec f a = Inr (w, f', a') \<Longrightarrow> suffix f' f"
  by (cases a, auto simp: parse_fill_def parse_long_def parse_width_def parse_prec_def suffix_drop
      split: if_splits list.splits intro: suffix_ConsI)+

lemma format_spec_suffix:
  assumes "format_spec A strs fmt args = Inr (t, fmt', args')"
  shows "suffix fmt' fmt"
proof -
  obtain c f1 where 1: "parse_fill fmt = (c, f1)" by (cases "parse_fill fmt")
  then obtain w f2 a2 where 2: "parse_width f1 args = Inr (w, f2, a2)"
    using assms by (auto simp: format_spec_def bind_result_Inr_iff)
  then obtain p f3 a3 where 3: "parse_prec f2 a2 = Inr (p, f3, a3)"
    using assms 1 by (auto simp: format_spec_def bind_result_Inr_iff)
  obtain b f4 where 4: "parse_long f3 = (b, f4)" by (cases "parse_long f3")
  have "fmt' = drop 1 f4"
    using assms 1 2 3 4 by (auto simp: format_spec_def bind_result_Inr_iff)
  then have "suffix fmt' f4" by (simp add: suffix_drop)
  then show ?thesis
    using parse_suffix(1) [OF 1] parse_suffix(3) [OF 2] parse_suffix(4) [OF 3] parse_suffix(2) [OF 4]
    by (blast intro: suffix_order.trans)
qed

lemmas format_spec_shorter = suffix_length_le [OF format_spec_suffix]

lemma drop_Cons_shorter: "drop n xs = c # r \<Longrightarrow> length r < length xs"
  using length_drop [of n xs] by (simp del: length_drop)

text \<open>One round of the loop takes the constant text up to the next specifier or, when lines are
  tagged, newline, and then that specifier or newline.\<close>

function vdprintf_loop ::
  "arch \<Rightarrow> (u64 \<Rightarrow> string option) \<Rightarrow> u32 \<Rightarrow> string \<Rightarrow> u64 list \<Rightarrow> int \<Rightarrow> string list \<Rightarrow> string list result" where
  "vdprintf_loop A strs pid fmt args tag_p iov =
     (if fmt = [] then Inr iov
      else case tag_stripe pid tag_p iov of
        Inl e \<Rightarrow> Inl e
      | Inr (tag1, iov1) \<Rightarrow>
          (let s = takeWhile (is_const tag1) fmt in
           case const_stripe s iov1 of
             Inl e \<Rightarrow> Inl e
           | Inr iov2 \<Rightarrow>
               (case drop (length s) fmt of
                  [] \<Rightarrow> Inr iov2
                | c # r \<Rightarrow>
                    if c = CHR ''%''
                    then (case format_spec A strs r args of
                            Inl e \<Rightarrow> Inl e
                          | Inr (t, fmt', args') \<Rightarrow>
                              (case add_stripe OutOfBounds t iov2 of
                                 Inl e \<Rightarrow> Inl e
                               | Inr iov3 \<Rightarrow> vdprintf_loop A strs pid fmt' args' tag1 iov3))
                    else (case newline_stripe s iov2 of
                            Inl e \<Rightarrow> Inl e
                          | Inr iov3 \<Rightarrow> vdprintf_loop A strs pid r args 1 iov3))))"
  by pat_completeness auto

termination vdprintf_loop
  by (relation "measure (\<lambda>(_, _, _, fmt, _). length fmt)")
    (auto dest!: format_spec_shorter drop_Cons_shorter)

declare vdprintf_loop.simps [simp del]

text \<open>The stripes are written one after the other.\<close>

definition dl_debug_vdprintf :: "arch \<Rightarrow> (u64 \<Rightarrow> string option) \<Rightarrow> u32 \<Rightarrow> int \<Rightarrow> string \<Rightarrow> u64 list \<Rightarrow> string result" where
  "dl_debug_vdprintf A strs pid tag_p fmt args =
     bind_result (vdprintf_loop A strs pid fmt args tag_p []) (\<lambda>iov. Inr (concat iov))"

definition dl_debug_printf :: "arch \<Rightarrow> (u64 \<Rightarrow> string option) \<Rightarrow> u32 \<Rightarrow> string \<Rightarrow> u64 list \<Rightarrow> string result" where
  "dl_debug_printf A strs pid fmt args = dl_debug_vdprintf A strs pid 1 fmt args"

definition dl_debug_printf_c :: "arch \<Rightarrow> (u64 \<Rightarrow> string option) \<Rightarrow> u32 \<Rightarrow> string \<Rightarrow> u64 list \<Rightarrow> string result" where
  "dl_debug_printf_c A strs pid fmt args = dl_debug_vdprintf A strs pid (- 1) fmt args"

definition dl_dprintf :: "arch \<Rightarrow> (u64 \<Rightarrow> string option) \<Rightarrow> u32 \<Rightarrow> string \<Rightarrow> u64 list \<Rightarrow> string result" where
  "dl_dprintf A strs pid fmt args = dl_debug_vdprintf A strs pid 0 fmt args"

section \<open>Names and primes\<close>

definition dl_name_match_p :: "string \<Rightarrow> string \<Rightarrow> string list \<Rightarrow> bool" where
  "dl_name_match_p name l_name l_libname \<longleftrightarrow> name = l_name \<or> (\<exists>n \<in> set l_libname. name = n)"

definition primes :: "nat list" where
  "primes = [7, 13, 31, 61, 127, 251, 509, 1021, 2039, 4093, 8191, 16381, 32749, 65521, 131071, 262139,
     524287, 1048573, 2097143, 4194301, 8388593, 16777213, 33554393, 67108859, 134217689, 268435399,
     536870909, 1073741789, 2147483647, 2147483647 + 2147483644]"

text \<open>The pointers \<^verbatim>\<open>low\<close> and \<^verbatim>\<open>high\<close> as indices; \<^verbatim>\<open>low\<close> never passes \<^verbatim>\<open>high\<close>, so the test for equality
  is the one for less.\<close>

function prime_loop :: "nat \<Rightarrow> nat \<Rightarrow> nat \<Rightarrow> nat" where
  "prime_loop n low high =
     (if low < high
      then let mid = low + (high - low) div 2
           in if primes ! mid < n then prime_loop n (mid + 1) high else prime_loop n low mid
      else low)"
  by pat_completeness auto

termination prime_loop
  by (relation "measure (\<lambda>(_, low, high). high - low)") auto

declare prime_loop.simps [simp del]

text \<open>Beyond the last prime the result is read from behind the table.\<close>

definition dl_higher_prime_number :: "nat \<Rightarrow> nat result" where
  "dl_higher_prime_number n =
     (let low = prime_loop n 0 (length primes) in if low < length primes then Inr (primes ! low) else Inl OutOfBounds)"

section \<open>Numbers\<close>

text \<open>The value of a numeral.\<close>

definition digit_value :: "string \<Rightarrow> char \<Rightarrow> nat" where
  "digit_value digits c = the (first_index (\<lambda>d. d = c) digits)"

definition numeral_value :: "string \<Rightarrow> nat \<Rightarrow> string \<Rightarrow> nat" where
  "numeral_value digits base s = foldl (\<lambda>v c. v * base + digit_value digits c) 0 s"

lemma foldl_value:
  "foldl (\<lambda>v c. v * base + f c) a s = a * base ^ length s + foldl (\<lambda>v c. v * base + f c) (0::nat) s"
proof (induction s arbitrary: a)
  case (Cons c s)
  show ?case
    using Cons [of "a * base + f c"] Cons [of "f c"] by (simp add: algebra_simps)
qed simp

lemma numeral_value_Cons:
  "numeral_value digits base (c # s) = digit_value digits c * base ^ length s + numeral_value digits base s"
  unfolding numeral_value_def using foldl_value [of base "digit_value digits" "digit_value digits c" s] by simp

lemma digit_value_nth: "distinct digits \<Longrightarrow> i < length digits \<Longrightarrow> digit_value digits (digits ! i) = i"
proof -
  assume a: "distinct digits" "i < length digits"
  then have "first_index (\<lambda>d. d = digits ! i) digits = Some i"
    by (auto simp: first_index_Some_iff nth_eq_iff_index_eq)
  then show ?thesis by (simp add: digit_value_def)
qed

lemma itoa_loop_value:
  assumes "distinct digits" "2 \<le> base" "base \<le> length digits"
  shows "numeral_value digits base (itoa_loop digits base v buf) = v * base ^ length buf + numeral_value digits base buf"
  using assms
proof (induction digits base v buf rule: itoa_loop.induct)
  case (1 digits base v buf)
  have d: "digit_value digits (digits ! (v mod base)) = v mod base"
    using 1 by (intro digit_value_nth) (auto intro: less_le_trans [OF mod_less_divisor])
  have m: "v = v div base * base + v mod base" by simp
  have e: "v mod base * p + base * (v div base * p) = v * p" for p
    by (metis distrib_right mod_mult_div_eq mult.assoc)
  show ?case
  proof (cases "v div base = 0")
    case True
    then have "v mod base = v" using m by (metis add_0 mult_0)
    then show ?thesis
      using True d by (simp add: itoa_loop.simps [of digits base v] numeral_value_Cons)
  next
    case False
    then show ?thesis
      using 1 d e [of "base ^ length buf"]
      by (simp add: itoa_loop.simps [of digits base v] numeral_value_Cons algebra_simps)
  qed
qed

lemma itoa_loop_length:
  assumes "2 \<le> base" "v < base ^ k" "0 < k"
  shows "length (itoa_loop digits base v buf) \<le> length buf + k"
  using assms
proof (induction digits base v buf arbitrary: k rule: itoa_loop.induct)
  case (1 digits base v buf)
  show ?case
  proof (cases "v div base = 0")
    case False
    then obtain j where k: "k = Suc j" "0 < j"
      using "1.prems" by (cases k; cases "k - 1") auto
    have "v div base < base ^ j"
      using "1.prems" k by (simp add: less_mult_imp_div_less mult.commute)
    then show ?thesis
      using 1 k False by (simp add: itoa_loop.simps [of digits base v])
  qed (use "1.prems" in \<open>simp add: itoa_loop.simps [of digits base v]\<close>)
qed

lemma itoa_word_value: "numeral_value itoa_lower_digits 10 (itoa_word v 10 False) = unat v"
  unfolding itoa_word_def
  by (subst if_False, subst itoa_loop_value) (simp_all add: itoa_lower_digits_def numeral_value_def)

lemma itoa_word_value_16: "numeral_value itoa_lower_digits 16 (itoa_word v 16 False) = unat v"
  unfolding itoa_word_def
  by (subst if_False, subst itoa_loop_value) (simp_all add: itoa_lower_digits_def numeral_value_def)

text \<open>A 32-bit number fits in the buffer of either build.\<close>

lemma itoa_word_u32_fits:
  "length (itoa_word (ucast (w :: u32)) 10 False) \<le> 3 * sizeof_long A"
  "length (itoa_word (ucast (w :: u32)) 16 False) \<le> 3 * sizeof_long A"
proof -
  have w: "unat (ucast w :: u64) < 10 ^ 10" "unat (ucast w :: u64) < 16 ^ 8"
    using unsigned_less [of w, where ?'a = nat] by (simp_all add: unsigned_ucast_eq take_bit_nat_eq_self)
  show "length (itoa_word (ucast w) 10 False) \<le> 3 * sizeof_long A"
    using itoa_loop_length [OF _ w(1), of itoa_lower_digits "[]"] by (cases A) (simp_all add: itoa_word_def)
  show "length (itoa_word (ucast w) 16 False) \<le> 3 * sizeof_long A"
    using itoa_loop_length [OF _ w(2), of itoa_lower_digits "[]"] by (cases A) (simp_all add: itoa_word_def)
qed

section \<open>The text of a format\<close>

text \<open>The loop without its array of stripes: the converted pieces one after the other. What they have to be is
  stated below, without reference to the conversions of the code.\<close>

function render :: "arch \<Rightarrow> (u64 \<Rightarrow> string option) \<Rightarrow> string \<Rightarrow> u64 list \<Rightarrow> string result" where
  "render A strs [] args = Inr []"
| "render A strs (c # r) args =
     (if c = CHR ''%''
      then (case format_spec A strs r args of
              Inl e \<Rightarrow> Inl e
            | Inr (t, fmt', args') \<Rightarrow> bind_result (render A strs fmt' args') (\<lambda>u. Inr (t @ u)))
      else bind_result (render A strs r args) (\<lambda>u. Inr (c # u)))"
  by pat_completeness auto

termination render
  by (relation "measure (\<lambda>(_, _, fmt, _). length fmt)") (auto dest: format_spec_shorter)

lemma render_append:
  "CHR ''%'' \<notin> set s \<Longrightarrow> render A strs (s @ r) args = bind_result (render A strs r args) (\<lambda>u. Inr (s @ u))"
proof (induction s)
  case Nil
  then show ?case by (cases "render A strs r args") simp_all
next
  case (Cons c s)
  then have "c \<noteq> CHR ''%''" by auto
  then show ?case using Cons by (cases "render A strs r args") simp_all
qed

abbreviation percents :: "string \<Rightarrow> nat" where
  "percents fmt \<equiv> length (filter (\<lambda>c. c = CHR ''%'') fmt)"

lemma percents_suffix: "suffix r fmt \<Longrightarrow> percents r \<le> percents fmt"
  by (auto simp: suffix_def)

text \<open>Without tags, and with room for two stripes per specifier, the stripes are that text.\<close>

lemma vdprintf_loop_render:
  assumes "render A strs fmt args = Inr u" "length iov + 2 * percents fmt < NIOVMAX"
  shows "\<exists>iov'. vdprintf_loop A strs pid fmt args 0 iov = Inr iov' \<and> concat iov' = concat iov @ u"
  using assms
proof (induction "length fmt" arbitrary: fmt args iov u rule: less_induct)
  case less
  let ?s = "takeWhile (is_const 0) fmt" and ?r = "drop (length (takeWhile (is_const 0) fmt)) fmt"
  have s: "CHR ''%'' \<notin> set ?s" by (auto simp: is_const_def dest: set_takeWhileD)
  have fmt: "fmt = ?s @ ?r" by (metis dropWhile_eq_drop takeWhile_dropWhile_id)
  then obtain v where v: "render A strs ?r args = Inr v" "u = ?s @ v"
    using less.prems(1) render_append [OF s, of A strs ?r args]
    by (metis (no_types, lifting) bind_result_Inr_iff sum.inject(2))
  have c: "const_stripe ?s iov = Inr (if ?s = [] then iov else iov @ [?s])"
    using less.prems(2) by (simp add: const_stripe_def)
  show ?case
  proof (cases ?r)
    case Nil
    then show ?thesis
      using v c fmt by (subst vdprintf_loop.simps) (auto simp: tag_stripe_def Let_def)
  next
    case (Cons d r)
    then have d: "d = CHR ''%''"
      using dropWhile_eq_drop [of "is_const 0" fmt] hd_dropWhile [of "is_const 0" fmt] by (simp add: is_const_def)
    then obtain t f' a' w where f: "format_spec A strs r args = Inr (t, f', a')"
        and w: "render A strs f' a' = Inr w" "v = t @ w"
      using v(1) Cons by (auto simp: bind_result_Inr_iff split: sum.splits)
    have p: "percents fmt = 1 + percents r"
      using s d arg_cong [OF fmt, of percents] Cons by (simp add: filter_empty_conv) (metis filter_False list.size(3) add_0)
    let ?iov = "(if ?s = [] then iov else iov @ [?s]) @ [t]"
    have l: "length ?iov + 2 * percents f' < NIOVMAX" "add_stripe OutOfBounds t (if ?s = [] then iov else iov @ [?s]) = Inr ?iov"
      using less.prems(2) p percents_suffix [OF format_spec_suffix [OF f]] by (auto simp: add_stripe_def)
    have "length f' < length fmt"
      using format_spec_shorter [OF f] arg_cong [OF Cons, of length] by simp
    then obtain iov' where "vdprintf_loop A strs pid f' a' 0 ?iov = Inr iov'" "concat iov' = concat ?iov @ w"
      using less.hyps [OF _ w(1) l(1)] by blast
    then show ?thesis
      using v w c f l d Cons fmt by (subst vdprintf_loop.simps) (auto simp: tag_stripe_def Let_def)
  qed
qed

section \<open>Properties\<close>

text \<open>The bounds of the binary search.\<close>

lemma sorted_primes: "i < j \<Longrightarrow> j < length primes \<Longrightarrow> primes ! i < primes ! j"
proof -
  have "sorted_wrt (<) primes" by (simp add: primes_def)
  then show "i < j \<Longrightarrow> j < length primes \<Longrightarrow> primes ! i < primes ! j" by (simp add: sorted_wrt_iff_nth_less)
qed

lemma prime_loop_bounds:
  assumes "low \<le> high" "high \<le> length primes" "\<forall>i < low. primes ! i < n"
    and "\<forall>i. high \<le> i \<longrightarrow> i < length primes \<longrightarrow> n \<le> primes ! i"
  shows "prime_loop n low high \<le> length primes \<and> (\<forall>i < prime_loop n low high. primes ! i < n)
    \<and> (\<forall>i. prime_loop n low high \<le> i \<longrightarrow> i < length primes \<longrightarrow> n \<le> primes ! i)"
  using assms
proof (induction n low high rule: prime_loop.induct)
  case (1 n low high)
  show ?case
  proof (cases "low < high")
    case True
    let ?mid = "low + (high - low) div 2"
    have mid: "low \<le> ?mid" "?mid < high" "?mid < length primes" "?mid + 1 \<le> high"
      using True "1.prems"(2) by auto
    show ?thesis
    proof (cases "primes ! ?mid < n")
      case t: True
      have "primes ! i < n" if "i < ?mid + 1" for i
        using sorted_primes [of i ?mid] that t mid(3) by (cases "i = ?mid") auto
      moreover have "prime_loop n low high = prime_loop n (?mid + 1) high"
        using t True by (simp only: prime_loop.simps [of n low high] Let_def if_True)
      ultimately show ?thesis
        using "1.IH"(1) [OF True refl t mid(4) "1.prems"(2)] "1.prems"(4) by simp
    next
      case f: False
      have "n \<le> primes ! i" if "?mid \<le> i" "i < length primes" for i
        using sorted_primes [of ?mid i] that f by (cases "i = ?mid") auto
      moreover have "prime_loop n low high = prime_loop n low ?mid"
        using f True by (simp only: prime_loop.simps [of n low high] Let_def if_True if_False)
      ultimately show ?thesis
        using "1.IH"(2) [OF True refl f mid(1) less_imp_le [OF mid(3)] "1.prems"(3)] by simp
    qed
  next
    case False
    then have "prime_loop n low high = low" by (simp only: prime_loop.simps [of n low high] if_False)
    then show ?thesis using False "1.prems" by auto
  qed
qed

text \<open>
  What a format means. A format is made of plain text and of the directives \<^verbatim>\<open>%%\<close>, \<^verbatim>\<open>%u\<close> and \<^verbatim>\<open>%x\<close> (with
  the flag \<^verbatim>\<open>0\<close>, a width \<^verbatim>\<open>*\<close> and one of the modifiers \<^verbatim>\<open>l\<close> and \<^verbatim>\<open>Z\<close> or without), and \<^verbatim>\<open>%s\<close> (with a precision
  \<^verbatim>\<open>.*\<close> or without); a directive is given with the slots of its arguments. The text of a number is
  its digits, the most significant first; an \<^verbatim>\<open>int\<close> is the low half of its slot, read as a signed number, and an \<^verbatim>\<open>unsigned\<close> the low half, read as
  an unsigned one; with a modifier the whole slot counts in a 64-bit program.
\<close>

datatype modifier = Without | Modifier_l | Modifier_Z

datatype piece =
    Plain string
  | Percent
  | Unsigned bool "u64 option" modifier u64
  | Hexadecimal bool "u64 option" modifier u64
  | String "u64 option" u64

fun digit_char :: "nat \<Rightarrow> char" where
  "digit_char d = (if d < 10 then char_of (of_char CHR ''0'' + d) else char_of (of_char CHR ''a'' + (d - 10)))"

fun digits_in :: "nat \<Rightarrow> nat \<Rightarrow> string" where
  "digits_in base n =
     (if n < base \<or> base < 2 then [digit_char n] else digits_in base (n div base) @ [digit_char (n mod base)])"

declare digits_in.simps [simp del]

definition modifier_text :: "modifier \<Rightarrow> string" where
  "modifier_text md = (case md of Without \<Rightarrow> [] | Modifier_l \<Rightarrow> ''l'' | Modifier_Z \<Rightarrow> ''Z'')"

definition number_format :: "bool \<Rightarrow> u64 option \<Rightarrow> modifier \<Rightarrow> string \<Rightarrow> string" where
  "number_format zero width md conv =
     ''%'' @ (if zero then ''0'' else []) @ (if width = None then [] else ''*'') @ modifier_text md @ conv"

fun piece_format :: "piece \<Rightarrow> string" where
  "piece_format (Plain s) = s"
| "piece_format Percent = ''%%''"
| "piece_format (Unsigned zero width md v) = number_format zero width md ''u''"
| "piece_format (Hexadecimal zero width md v) = number_format zero width md ''x''"
| "piece_format (String prec s) = ''%'' @ (if prec = None then [] else ''.*'') @ ''s''"

fun piece_args :: "piece \<Rightarrow> u64 list" where
  "piece_args (Unsigned zero width md v) = (case width of None \<Rightarrow> [v] | Some w \<Rightarrow> [w, v])"
| "piece_args (Hexadecimal zero width md v) = (case width of None \<Rightarrow> [v] | Some w \<Rightarrow> [w, v])"
| "piece_args (String prec s) = (case prec of None \<Rightarrow> [s] | Some p \<Rightarrow> [p, s])"
| "piece_args _ = []"

definition signed_low :: "u64 \<Rightarrow> int" where
  "signed_low w = (let n = unat w mod 2 ^ 32 in if n < 2 ^ 31 then int n else int n - 2 ^ 32)"

definition number_text :: "arch \<Rightarrow> nat \<Rightarrow> bool \<Rightarrow> u64 option \<Rightarrow> modifier \<Rightarrow> u64 \<Rightarrow> string" where
  "number_text A base zero width md v =
     (let s = digits_in base (if A = ARCH_64 \<and> md \<noteq> Without then unat v else unat v mod 2 ^ 32);
          missing = (case width of None \<Rightarrow> 0 | Some w \<Rightarrow> nat (signed_low w) - length s)
      in replicate missing (if zero then CHR ''0'' else CHR '' '') @ s)"

fun piece_text :: "arch \<Rightarrow> (u64 \<Rightarrow> string option) \<Rightarrow> piece \<Rightarrow> string" where
  "piece_text A strs (Plain s) = s"
| "piece_text A strs Percent = ''%''"
| "piece_text A strs (Unsigned zero width md v) = number_text A 10 zero width md v"
| "piece_text A strs (Hexadecimal zero width md v) = number_text A 16 zero width md v"
| "piece_text A strs (String prec s) =
     (case prec of None \<Rightarrow> the (strs s) | Some p \<Rightarrow> if signed_low p < 0 then the (strs s) else take (nat (signed_low p)) (the (strs s)))"

text \<open>Text has no percent sign, a width is at most the size of the buffer (12 characters in a 32-bit program and 24 in a 64-bit
  one), and a string is there.\<close>

definition width_ok :: "arch \<Rightarrow> u64 option \<Rightarrow> bool" where
  "width_ok A width \<longleftrightarrow> (case width of None \<Rightarrow> True | Some w \<Rightarrow> signed_low w \<le> (case A of ARCH_32 \<Rightarrow> 12 | ARCH_64 \<Rightarrow> 24))"

fun piece_ok :: "arch \<Rightarrow> (u64 \<Rightarrow> string option) \<Rightarrow> piece \<Rightarrow> bool" where
  "piece_ok A strs (Plain s) = (CHR ''%'' \<notin> set s)"
| "piece_ok A strs Percent = True"
| "piece_ok A strs (Unsigned zero width md v) = width_ok A width"
| "piece_ok A strs (Hexadecimal zero width md v) = width_ok A width"
| "piece_ok A strs (String prec s) = (strs s \<noteq> None)"

lemma digit_char_nth: "d < 16 \<Longrightarrow> itoa_lower_digits ! d = digit_char d"
proof -
  have "\<forall>d \<in> set [0..<16]. itoa_lower_digits ! d = digit_char d"
    by (simp add: itoa_lower_digits_def upt_rec char_of_def bit_0)
  then show "d < 16 \<Longrightarrow> itoa_lower_digits ! d = digit_char d" by simp
qed

lemma itoa_loop_digits:
  assumes "2 \<le> base" "base \<le> 16"
  shows "itoa_loop itoa_lower_digits base v buf = digits_in base v @ buf"
proof (induction v arbitrary: buf rule: less_induct)
  case (less v)
  have "v mod base < 16" using assms by (auto intro: less_le_trans [OF mod_less_divisor])
  then have d: "itoa_lower_digits ! (v mod base) = digit_char (v mod base)" by (rule digit_char_nth)
  show ?case
  proof (cases "v < base")
    case True
    then show ?thesis
      using d by (simp add: itoa_loop.simps [of _ base v] digits_in.simps [of base v] del: digit_char.simps)
  next
    case False
    then have "v div base \<noteq> 0" "v div base < v" using assms by (auto simp: div_eq_0_iff intro!: div_less_dividend)
    then show ?thesis
      using less [of "v div base"] d False assms
      by (simp add: itoa_loop.simps [of _ base v] digits_in.simps [of base v] del: digit_char.simps)
  qed
qed

lemma signed_low_sint: "sint (va_int w) = signed_low w"
proof -
  have u: "uint (ucast w :: u32) = int (unat w mod 2 ^ 32)"
  proof -
    have "unat (ucast w :: u32) = unat w mod 2 ^ 32" by (simp add: unsigned_ucast_eq take_bit_eq_mod)
    then show ?thesis by (simp only: uint_nat)
  qed
  have *: "(int n + 2147483648) mod 4294967296 - 2147483648 = (if n < 2147483648 then int n else int n - 4294967296)" if "n < 4294967296" for n
  proof (cases "n < 2147483648")
    case True
    then have "(int n + 2147483648) mod 4294967296 = int n + 2147483648" by (intro mod_pos_pos_trivial) simp_all
    then show ?thesis using True by simp
  next
    case False
    have "(int n - 2147483648 + 4294967296) mod 4294967296 = int n - 2147483648"
      unfolding mod_add_self2 using False that by (intro mod_pos_pos_trivial) simp_all
    then show ?thesis using False by (simp add: add.commute)
  qed
  have "sint (ucast w :: u32) = (uint (ucast w :: u32) + 2147483648) mod 4294967296 - 2147483648"
    unfolding sint_uint signed_take_bit_eq_take_bit_shift take_bit_eq_mod by simp
  then show ?thesis
    unfolding va_int_def u signed_low_def Let_def using * [of "unat w mod 2 ^ 32"] by simp
qed

lemma itoa_word_u64_fits: "length (itoa_word v 10 False) \<le> 24" "length (itoa_word v 16 False) \<le> 24"
proof -
  have v: "unat v < 10 ^ 20" "unat v < 16 ^ 16"
    using unsigned_less [of v, where ?'a = nat] by simp_all
  show "length (itoa_word v 10 False) \<le> 24" "length (itoa_word v 16 False) \<le> 24"
    using itoa_loop_length [OF _ v(1), of itoa_lower_digits "[]"] itoa_loop_length [OF _ v(2), of itoa_lower_digits "[]"]
    by (simp_all add: itoa_word_def)
qed

lemma itoa_word_digits: "2 \<le> base \<Longrightarrow> base \<le> 16 \<Longrightarrow> itoa_word v base False = digits_in base (unat v)"
  by (simp add: itoa_word_def itoa_loop_digits)

text \<open>The conversion of a number: the width is stored as -1 when there is none.\<close>

lemma convert_number:
  assumes "(c, base) \<in> {(CHR ''u'', 10), (CHR ''x'', 16)}" "width_ok A width"
    and "k = (case width of None \<Rightarrow> - 1 | Some w \<Rightarrow> signed_low w)" "fill = (if zero then CHR ''0'' else CHR '' '')"
  shows "convert A strs \<lparr>sp_fill = fill, sp_width = k, sp_prec = p, sp_long = (md \<noteq> Without)\<rparr> (c # r) (v # args) =
    Inr (number_text A base zero width md v, args)"
proof -
  define num where "num = (if A = ARCH_64 \<and> md \<noteq> Without then v else ucast (va_int v))"
  define s where "s = itoa_word num base False"
  have "unat (ucast (va_int v) :: u64) = unat v mod 2 ^ 32"
    by (simp add: va_int_def unsigned_ucast_eq take_bit_eq_mod unat_mod)
  then have d: "s = digits_in base (if A = ARCH_64 \<and> md \<noteq> Without then unat v else unat v mod 2 ^ 32)"
    using assms(1) by (auto simp: s_def num_def itoa_word_digits)
  have l: "length s \<le> 3 * sizeof_long A"
    using assms(1) itoa_word_u32_fits [of "va_int v" A] itoa_word_u64_fits [of v] by (auto simp: s_def num_def)
  have "nat k \<le> 3 * sizeof_long A"
    using assms(2,3) by (cases A) (auto simp: width_ok_def split: option.splits)
  then have p: "(if k = - 1 then 0 else nat k - length s) + length s \<le> 3 * sizeof_long A"
      "(if k = - 1 then 0 else nat k - length s) = (case width of None \<Rightarrow> 0 | Some w \<Rightarrow> nat (signed_low w) - length s)"
    using l assms(3) by (auto split: option.splits)
  define pad where "pad = (if k = - 1 then 0 else nat k - length s)"
  have "convert A strs \<lparr>sp_fill = fill, sp_width = k, sp_prec = p, sp_long = (md \<noteq> Without)\<rparr> (c # r) (v # args) =
      (if 3 * sizeof_long A < pad + length s then Inl OutOfBounds else Inr (replicate pad fill @ s, args))"
    using assms(1)
  proof (elim insertE emptyE)
  qed (simp_all only: convert_def pad_def s_def num_def Let_def va_arg.simps bind_result.simps prod.case prefix_Cons, simp_all)
  then show ?thesis
    using p(1) unfolding p(2) [folded pad_def] pad_def [symmetric] by (simp add: number_text_def Let_def d [symmetric] assms(4) p(2) [folded pad_def, symmetric])
qed

lemma format_number:
  assumes "(c, base) \<in> {(CHR ''u'', 10), (CHR ''x'', 16)}" "width_ok A width"
  shows "format_spec A strs (tl (number_format zero width md [c]) @ r) ((case width of None \<Rightarrow> [v] | Some w \<Rightarrow> [w, v]) @ args) =
    Inr (number_text A base zero width md v, r, args)"
proof -
  have c: "c \<noteq> CHR ''0''" "c \<noteq> CHR ''*''" "c \<noteq> CHR ''.''" "c \<noteq> CHR ''l''" "c \<noteq> CHR ''Z''" using assms(1) by auto
  let ?k = "case width of None \<Rightarrow> - 1 | Some w \<Rightarrow> signed_low w"
  let ?fill = "if zero then CHR ''0'' else CHR '' ''"
  define m where "m = modifier_text md @ c # r"
  define f where "f = (if width = None then [] else ''*'') @ m"
  have m: "parse_long m = (md \<noteq> Without, c # r)" "\<not> prefix ''.*'' m" "\<not> prefix ''*'' m" "\<not> prefix ''0'' m"
    using c by (cases md; simp add: m_def modifier_text_def parse_long_def)+
  have f: "tl (number_format zero width md [c]) @ r = (if zero then ''0'' else []) @ f" "\<not> prefix ''0'' f"
    using m(4) by (cases width; simp add: number_format_def f_def m_def)+
  have "parse_fill ((if zero then ''0'' else []) @ f) = (?fill, f)"
    using f(2) by (cases f) (auto simp: parse_fill_def)
  moreover have "parse_width f ((case width of None \<Rightarrow> [v] | Some w \<Rightarrow> [w, v]) @ args) = Inr (?k, m, v # args)"
    using m(3) by (cases width) (simp_all add: parse_width_def f_def signed_low_sint)
  moreover have "parse_prec m (v # args) = Inr (- 1, m, v # args)" using m(2) by (simp add: parse_prec_def)
  ultimately show ?thesis
    unfolding f(1) format_spec_def Let_def
    by (simp add: m(1) convert_number [OF assms refl refl])
qed

lemma format_string:
  assumes "strs s \<noteq> None"
  shows "format_spec A strs (tl (piece_format (String prec s)) @ r) (piece_args (String prec s) @ args) =
    Inr (piece_text A strs (String prec s), r, args)"
  using assms
  by (cases prec) (auto simp: format_spec_def parse_fill_def parse_width_def parse_prec_def parse_long_def convert_def signed_low_sint)

lemma format_percent: "format_spec A strs (CHR ''%'' # r) args = Inr (''%'', r, args)"
  by (simp add: format_spec_def parse_fill_def parse_width_def parse_prec_def parse_long_def convert_def)

lemma render_piece:
  assumes "piece_ok A strs p"
  shows "render A strs (piece_format p @ r) (piece_args p @ args) =
    bind_result (render A strs r args) (\<lambda>u. Inr (piece_text A strs p @ u))"
proof (cases p)
  case (Plain s)
  then show ?thesis using assms render_append by simp
next
  case Percent
  then show ?thesis by (simp add: format_percent)
next
  case (Unsigned zero width md v)
  then show ?thesis
    using assms format_number [of "CHR ''u''" 10 A width strs zero md r v args]
    by (simp add: number_format_def [of zero width md "''u''"])
next
  case (Hexadecimal zero width md v)
  then show ?thesis
    using assms format_number [of "CHR ''x''" 16 A width strs zero md r v args]
    by (simp add: number_format_def [of zero width md "''x''"])
next
  case (String prec s)
  then show ?thesis
    using assms format_string [of strs s A prec r args] by (cases prec) simp_all
qed

lemma render_pieces:
  "\<forall>p \<in> set ps. piece_ok A strs p \<Longrightarrow>
   render A strs (concat (map piece_format ps)) (concat (map piece_args ps)) = Inr (concat (map (piece_text A strs) ps))"
  by (induction ps) (simp_all add: render_piece)

text \<open>C25. \<^verbatim>\<open>_dl_dprintf\<close> writes the text that the format means for the arguments, whatever text and directives it is made
  of, when the format has fewer than 32 percent signs, so that the 64 stripes are enough, and the widths are at most the
  size of the buffer for a number.\<close>

theorem dl_dprintf_renders:
  assumes "\<forall>p \<in> set ps. piece_ok A strs p" "length (filter (\<lambda>c. c = CHR ''%'') (concat (map piece_format ps))) < 32"
  shows "dl_dprintf A strs pid (concat (map piece_format ps)) (concat (map piece_args ps)) =
    Inr (concat (map (piece_text A strs) ps))"
  using vdprintf_loop_render [OF render_pieces [OF assms(1)], of "[]" pid] assms(2)
  by (auto simp: dl_dprintf_def dl_debug_vdprintf_def NIOVMAX_def)

theorem dl_dprintf_renders_witness:
  "dl_dprintf ARCH_64 (\<lambda>_. Some ''puts'') 7 ''%s = 0x%0*lx %%'' [1, 4, 42] = Inr ''puts = 0x002a %''"
proof -
  let ?ps = "[String None 1, Plain '' = 0x'', Hexadecimal True (Some 4) Modifier_l 42, Plain '' '', Percent]"
  have "digits_in 16 42 = ''2a''" by (simp add: digits_in.simps char_of_def bit_0)
  moreover have "signed_low 4 = 4" by (simp add: signed_low_def)
  ultimately have "number_text ARCH_64 16 True (Some 4) Modifier_l 42 = ''002a''"
    by (simp add: number_text_def) (simp add: numeral_2_eq_2)
  then show ?thesis
    using dl_dprintf_renders [of ?ps ARCH_64 "\<lambda>_. Some ''puts''" 7] \<open>signed_low 4 = 4\<close>
    by (simp add: number_format_def modifier_text_def width_ok_def)
qed

text \<open>C26. The digits that \<^verbatim>\<open>_itoa_word\<close> writes have the value of the number, and in both bases they
  fit in the buffer of \<^verbatim>\<open>3 * sizeof (long)\<close> bytes, of a 32-bit number also in the smaller one.\<close>

theorem itoa_word_exact:
  "numeral_value itoa_lower_digits 10 (itoa_word v 10 False) = unat v
   \<and> numeral_value itoa_lower_digits 16 (itoa_word v 16 False) = unat v
   \<and> length (itoa_word v 10 False) \<le> 3 * sizeof_long ARCH_64
   \<and> length (itoa_word v 16 False) \<le> 3 * sizeof_long ARCH_64
   \<and> length (itoa_word (ucast (w :: u32)) 10 False) \<le> 3 * sizeof_long ARCH_32
   \<and> length (itoa_word (ucast w) 16 False) \<le> 3 * sizeof_long ARCH_32"
proof -
  have v: "unat v < 10 ^ 20" "unat v < 16 ^ 16"
    using unsigned_less [of v, where ?'a = nat] by simp_all
  show ?thesis
    using itoa_loop_length [OF _ v(1), of itoa_lower_digits "[]"] itoa_loop_length [OF _ v(2), of itoa_lower_digits "[]"]
      itoa_word_value [of v] itoa_word_value_16 [of v] itoa_word_u32_fits [of w ARCH_32]
    by (simp add: itoa_word_def)
qed

text \<open>C27. The binary search for a table size gives the smallest entry that is not below the request.
  For a request above the last entry the word behind the table is read.\<close>

theorem dl_higher_prime_number_exact:
  "dl_higher_prime_number n = (case find (\<lambda>p. n \<le> p) primes of None \<Rightarrow> Inl OutOfBounds | Some p \<Rightarrow> Inr p)"
proof -
  let ?l = "prime_loop n 0 (length primes)"
  have b: "?l \<le> length primes" "\<forall>i < ?l. primes ! i < n" "\<forall>i. ?l \<le> i \<longrightarrow> i < length primes \<longrightarrow> n \<le> primes ! i"
    using prime_loop_bounds [of 0 "length primes" n] by auto
  show ?thesis
  proof (cases "?l < length primes")
    case True
    then have "find (\<lambda>p. n \<le> p) primes = Some (primes ! ?l)"
      using b by (auto simp: find_Some_iff not_le)
    then show ?thesis using True by (simp add: dl_higher_prime_number_def)
  next
    case False
    then have "find (\<lambda>p. n \<le> p) primes = None"
      using b by (auto simp: find_None_iff in_set_conv_nth not_le)
    then show ?thesis using False by (simp add: dl_higher_prime_number_def)
  qed
qed

end
