(* ===== verification/Dl_Lookup.thy ===== *)
theory Dl_Lookup
  imports Dl_Misc
begin

text \<open>
  Symbol lookup of the loader, \<^verbatim>\<open>eglibc-2.11.3/elf/dl-lookup.c\<close> and the hash function of
  \<^verbatim>\<open>sysdeps/generic/dl-hash.h\<close>: what \<open>Dl_Runtime\<close> relies on when it resolves a function.
\<close>

unbundle bit_operations_syntax

section \<open>Hash functions\<close>

text \<open>The hash of the ELF ABI. The first five characters cannot overflow and are not reduced; a
  character is its byte. \<^verbatim>\<open>unsigned long\<close> has 64 bits here; the value stays below \<open>2 ^ 28\<close>.\<close>

definition hash_add :: "u64 \<Rightarrow> char \<Rightarrow> u64" where
  "hash_add hash c = push_bit 4 hash + of_char c"

definition hash_round :: "u64 \<Rightarrow> char \<Rightarrow> u64" where
  "hash_round hash0 c =
     (let hash = hash_add hash0 c; hi = hash AND 0xf0000000
      in (hash XOR hi) XOR drop_bit 24 hi)"

definition dl_elf_hash :: "string \<Rightarrow> u32" where
  "dl_elf_hash name = ucast (fold (\<lambda>c h. hash_round h c) (drop 5 name) (fold (\<lambda>c h. hash_add h c) (take 5 name) 0))"

text \<open>The GNU hash. \<^verbatim>\<open>uint_fast32_t\<close> is a word of the machine.\<close>

definition dl_new_hash :: "string \<Rightarrow> u32" where
  "dl_new_hash s = ucast (fold (\<lambda>c h. h * 33 + of_char c) s (5381 :: u64))"

section \<open>Objects and symbols\<close>

datatype ltype = lt_executable | lt_library | lt_loaded

record Sym =
  st_name :: string
  st_value :: u64
  st_type :: nat
  st_bind :: nat
  st_visibility :: nat
  st_undef :: bool

text \<open>A pointer to a symbol is the object and the index in its table.\<close>

type_synonym symref = "nat \<times> nat"

record found_version =
  fv_name :: string
  fv_hash :: u32
  fv_hidden :: bool
  fv_filename :: "string option"

text \<open>The fields of \<^verbatim>\<open>struct link_map\<close> for lookups. The GNU chain array starts at the symbol with the
  index \<open>symbias\<close>; a table that is absent is \<open>None\<close>.\<close>

record lk_map =
  lk_name :: string
  lk_libname :: "string list"
  lk_real :: nat
  lk_ns :: nat
  lk_type :: ltype
  lk_removed :: bool
  l_nbuckets :: nat
  l_symtab :: "Sym list"
  l_versyms :: "nat list option"
  l_versions :: "found_version list"
  l_gnu_bitmask :: "u64 list option"
  l_gnu_bitmask_idxbits :: u32
  l_gnu_shift :: nat
  l_gnu_buckets :: "nat list"
  l_gnu_symbias :: nat
  l_gnu_chain :: "u32 list"
  l_buckets :: "nat list"
  l_chain :: "nat list"

type_synonym lk_maps = "nat \<Rightarrow> lk_map"

definition STB_LOCAL :: nat where "STB_LOCAL = 0"
definition STB_GLOBAL :: nat where "STB_GLOBAL = 1"
definition STB_WEAK :: nat where "STB_WEAK = 2"
definition STB_GNU_UNIQUE :: nat where "STB_GNU_UNIQUE = 10"
definition STT_TLS :: nat where "STT_TLS = 6"
definition STV_PROTECTED :: nat where "STV_PROTECTED = 3"
definition ELF_RTYPE_CLASS_PLT :: nat where "ELF_RTYPE_CLASS_PLT = 1"
definition ELF_RTYPE_CLASS_COPY :: nat where "ELF_RTYPE_CLASS_COPY = 2"

definition ALLOWED_STT :: "nat set" where
  "ALLOWED_STT = {0, 1, 2, 5, 6, 10}"

text \<open>What a lookup asks for; it does not change during the search.\<close>

record request =
  rq_name :: string
  rq_ref :: "symref option"
  rq_version :: "found_version option"
  rq_newest :: bool
  rq_class :: nat
  rq_skip :: "nat option"
  rq_undef_map :: "nat option"

text \<open>The variables of the nested function: the number of versions seen and the first of them.\<close>

type_synonym seen = "nat \<times> symref option"

definition match_version :: "lk_map \<Rightarrow> request \<Rightarrow> symref \<Rightarrow> seen \<Rightarrow> (bool \<times> seen) result" where
  "match_version mp rq sr seen =
     (case rq_version rq of
        Some v \<Rightarrow>
          (case l_versyms mp of
             None \<Rightarrow>
               (case fv_filename v of
                  Some f \<Rightarrow> if dl_name_match_p f (lk_name mp) (lk_libname mp) then Inl AssertFailed else Inr (True, seen)
                | None \<Rightarrow> Inr (True, seen))
           | Some verstab \<Rightarrow>
               bind_result (get verstab (snd sr)) (\<lambda>w.
               bind_result (get (l_versions mp) (w mod 2 ^ 15)) (\<lambda>mv.
               Inr (\<not> ((fv_hash mv \<noteq> fv_hash v \<or> fv_name mv \<noteq> fv_name v)
                       \<and> (fv_hidden v \<or> fv_hash mv \<noteq> 0 \<or> odd (w div 2 ^ 15))), seen))))
      | None \<Rightarrow>
          (case l_versyms mp of
             None \<Rightarrow> Inr (True, seen)
           | Some verstab \<Rightarrow>
               bind_result (get verstab (snd sr)) (\<lambda>w.
               if (if rq_newest rq then 2 else 3) \<le> w mod 2 ^ 15
               then Inr (False, if even (w div 2 ^ 15)
                                then (Suc (fst seen), if fst seen = 0 then Some sr else snd seen) else seen)
               else Inr (True, seen))))"

definition check_match :: "lk_map \<Rightarrow> request \<Rightarrow> symref \<Rightarrow> seen \<Rightarrow> (bool \<times> seen) result" where
  "check_match mp rq sr seen =
     bind_result (get (l_symtab mp) (snd sr)) (\<lambda>s.
       if st_value s = 0 \<and> st_type s \<noteq> STT_TLS \<or> odd (rq_class rq) \<and> st_undef s then Inr (False, seen)
       else if st_type s \<notin> ALLOWED_STT then Inr (False, seen)
       else if Some sr \<noteq> rq_ref rq \<and> st_name s \<noteq> rq_name rq then Inr (False, seen)
       else match_version mp rq sr seen)"

section \<open>Searching one object\<close>

fun ELF_NATIVE_CLASS :: "arch \<Rightarrow> nat" where
  "ELF_NATIVE_CLASS ARCH_32 = 32"
| "ELF_NATIVE_CLASS ARCH_64 = 64"

text \<open>The Bloom filter.\<close>

definition bloom_pass :: "arch \<Rightarrow> lk_map \<Rightarrow> u64 list \<Rightarrow> u32 \<Rightarrow> bool result" where
  "bloom_pass A mp bitmask new_hash =
     bind_result (get bitmask (unat (of_nat (unat new_hash div ELF_NATIVE_CLASS A) AND l_gnu_bitmask_idxbits mp))) (\<lambda>w.
       Inr (bit w (unat new_hash mod ELF_NATIVE_CLASS A)
            \<and> bit w (unat (drop_bit (l_gnu_shift mp) new_hash) mod ELF_NATIVE_CLASS A)))"

text \<open>The walk along a chain of the GNU table: it ends at an entry with its lowest bit set; one that has
  none runs over the end of the table.\<close>

definition gnu_get :: "lk_map \<Rightarrow> nat \<Rightarrow> u32 result" where
  "gnu_get mp i = (if l_gnu_symbias mp \<le> i then get (l_gnu_chain mp) (i - l_gnu_symbias mp) else Inl OutOfBounds)"

lemma gnu_get_bound: "gnu_get mp i = Inr w \<Longrightarrow> i < l_gnu_symbias mp + length (l_gnu_chain mp)"
  by (auto simp: gnu_get_def get_def split: if_splits)

function gnu_loop :: "nat \<Rightarrow> lk_map \<Rightarrow> request \<Rightarrow> u32 \<Rightarrow> nat \<Rightarrow> seen \<Rightarrow> (nat option \<times> seen) result" where
  "gnu_loop m mp rq new_hash i seen =
     (case gnu_get mp i of
        Inl e \<Rightarrow> Inl e
      | Inr w \<Rightarrow>
          (case (if drop_bit 1 (w XOR new_hash) = 0 then check_match mp rq (m, i) seen else Inr (False, seen)) of
             Inl e \<Rightarrow> Inl e
           | Inr (found, seen') \<Rightarrow>
               if found then Inr (Some i, seen')
               else if bit w 0 then Inr (None, seen') else gnu_loop m mp rq new_hash (Suc i) seen'))"
  by pat_completeness auto

termination gnu_loop
  by (relation "measure (\<lambda>(_, mp, _, _, i, _). l_gnu_symbias mp + length (l_gnu_chain mp) - i)")
    (auto dest: gnu_get_bound)

declare gnu_loop.simps [simp del]

text \<open>The walk along a chain of the ABI's table, with fuel for one more step than there are entries: a
  walk that is longer visits an entry twice and never ends.\<close>

fun sysv_loop :: "nat \<Rightarrow> nat \<Rightarrow> lk_map \<Rightarrow> request \<Rightarrow> nat \<Rightarrow> seen \<Rightarrow> (nat option \<times> seen) result" where
  "sysv_loop 0 m mp rq symidx seen = (if symidx = 0 then Inr (None, seen) else Inl Diverges)"
| "sysv_loop (Suc fuel) m mp rq symidx seen =
     (if symidx = 0 then Inr (None, seen)
      else bind_result (check_match mp rq (m, symidx) seen) (\<lambda>(found, seen').
           if found then Inr (Some symidx, seen')
           else bind_result (get (l_chain mp) symidx) (\<lambda>next. sysv_loop fuel m mp rq next seen')))"

text \<open>The symbol that is found, and the value of \<^verbatim>\<open>symidx\<close> at the end. An only version that is not the
  default one is accepted.\<close>

definition search_map :: "arch \<Rightarrow> nat \<Rightarrow> lk_map \<Rightarrow> request \<Rightarrow> (symref option \<times> nat) result" where
  "search_map A m mp rq =
     bind_result
       (case l_gnu_bitmask mp of
          Some bitmask \<Rightarrow>
            (let new_hash = dl_new_hash (rq_name rq) in
             bind_result (bloom_pass A mp bitmask new_hash) (\<lambda>b.
             if b
             then bind_result (get (l_gnu_buckets mp) (unat new_hash mod l_nbuckets mp)) (\<lambda>bucket.
                    if bucket \<noteq> 0 then gnu_loop m mp rq new_hash bucket (0, None) else Inr (None, 0, None))
             else Inr (None, 0, None)))
        | None \<Rightarrow>
            bind_result (get (l_buckets mp) (unat (dl_elf_hash (rq_name rq)) mod l_nbuckets mp)) (\<lambda>symidx.
              sysv_loop (Suc (length (l_chain mp))) m mp rq symidx (0, None)))
       (\<lambda>(found, num_versions, versioned_sym).
          case found of
            Some i \<Rightarrow> Inr (Some (m, i), i)
          | None \<Rightarrow> Inr (if num_versions = 1 then versioned_sym else None, 0))"

section \<open>Unique symbols\<close>

record unique_sym =
  us_hashval :: u32
  us_name :: string
  us_sym :: "symref option"
  us_map :: "nat option"

text \<open>A table of entries, of which the unused ones have no name, and the number of the used ones.\<close>

record unique_sym_table =
  ut_entries :: "unique_sym option list option"
  ut_n_elements :: nat

definition next_idx :: "nat \<Rightarrow> u32 \<Rightarrow> nat \<Rightarrow> nat" where
  "next_idx sz hash idx =
     (let idx' = idx + (1 + unat hash mod (sz - 2)) in if sz \<le> idx' then idx' - sz else idx')"

text \<open>After as many steps as there are entries an entry has been visited twice.\<close>

fun enter_loop :: "nat \<Rightarrow> unique_sym option list \<Rightarrow> unique_sym \<Rightarrow> nat \<Rightarrow> unique_sym option list result" where
  "enter_loop 0 table e idx = Inl Diverges"
| "enter_loop (Suc fuel) table e idx =
     bind_result (get table idx) (\<lambda>x.
       if x = None then Inr (table[idx := Some e])
       else enter_loop fuel table e (next_idx (length table) (us_hashval e) idx))"

definition enter :: "unique_sym option list \<Rightarrow> unique_sym \<Rightarrow> unique_sym option list result" where
  "enter table e = enter_loop (length table) table e (unat (us_hashval e) mod length table)"

text \<open>The search. The hash of an unused entry is zero, and its name is a null pointer.\<close>

fun unique_loop :: "nat \<Rightarrow> unique_sym option list \<Rightarrow> u32 \<Rightarrow> string \<Rightarrow> nat \<Rightarrow> unique_sym option result" where
  "unique_loop 0 entries new_hash name idx = Inl Diverges"
| "unique_loop (Suc fuel) entries new_hash name idx =
     bind_result (get entries idx) (\<lambda>x.
       case x of
         None \<Rightarrow> if new_hash = 0 then Inl SegFault else Inr None
       | Some e \<Rightarrow>
           if us_hashval e = new_hash \<and> us_name e = name then Inr (Some e)
           else unique_loop fuel entries new_hash name (next_idx (length entries) new_hash idx))"

fun enter_all :: "unique_sym option list \<Rightarrow> unique_sym option list \<Rightarrow> unique_sym option list result" where
  "enter_all table [] = Inr table"
| "enter_all table (None # es) = enter_all table es"
| "enter_all table (Some e # es) = bind_result (enter table e) (\<lambda>t. enter_all t es)"

definition INITIAL_NUNIQUE_SYM_TABLE :: nat where "INITIAL_NUNIQUE_SYM_TABLE = 31"

definition unique_room :: "unique_sym_table \<Rightarrow> unique_sym option list result" where
  "unique_room tab =
     (case ut_entries tab of
        None \<Rightarrow> Inr (replicate INITIAL_NUNIQUE_SYM_TABLE None)
      | Some entries \<Rightarrow>
          if length entries * 3 \<le> ut_n_elements tab * 4
          then bind_result (dl_higher_prime_number (length entries + 1)) (\<lambda>newsize.
                 enter_all (replicate newsize None) entries)
          else Inr entries)"

text \<open>The tables of the namespaces, and the objects that must not be unloaded and that are used.\<close>

record lk_state =
  lk_unique :: "nat \<Rightarrow> unique_sym_table"
  lk_nodelete :: "nat \<Rightarrow> bool"
  lk_used :: "nat \<Rightarrow> bool"

type_synonym sym_val = "symref option \<times> nat option"

definition is_copy :: "request \<Rightarrow> bool" where
  "is_copy rq \<longleftrightarrow> odd (rq_class rq div ELF_RTYPE_CLASS_COPY)"

definition insert_unique :: "lk_maps \<Rightarrow> request \<Rightarrow> symref \<Rightarrow> nat \<Rightarrow> lk_state \<Rightarrow> lk_state result" where
  "insert_unique maps rq sr m st =
     (let ns = lk_ns (maps m);
          tab = lk_unique st ns;
          name = st_name (l_symtab (maps m) ! snd sr);
          e = (if is_copy rq
               then \<lparr>us_hashval = dl_new_hash (rq_name rq), us_name = name, us_sym = rq_ref rq, us_map = rq_undef_map rq\<rparr>
               else \<lparr>us_hashval = dl_new_hash (rq_name rq), us_name = name, us_sym = Some sr, us_map = Some m\<rparr>)
      in bind_result (unique_room tab) (\<lambda>entries.
         bind_result (enter entries e) (\<lambda>entries'.
         Inr (st\<lparr>lk_unique := (lk_unique st)(ns := \<lparr>ut_entries = Some entries', ut_n_elements = Suc (ut_n_elements tab)\<rparr>),
                 lk_nodelete := (if \<not> is_copy rq \<and> lk_type (maps m) = lt_loaded then (lk_nodelete st)(m := True)
                                 else lk_nodelete st)\<rparr>))))"

definition bind_unique :: "lk_maps \<Rightarrow> request \<Rightarrow> symref \<Rightarrow> nat \<Rightarrow> lk_state \<Rightarrow> (sym_val \<times> lk_state) result" where
  "bind_unique maps rq sr m st =
     bind_result
       (case ut_entries (lk_unique st (lk_ns (maps m))) of
          None \<Rightarrow> Inr None
        | Some entries \<Rightarrow>
            (let h = dl_new_hash (rq_name rq)
             in unique_loop (length entries) entries h (rq_name rq) (unat h mod length entries)))
       (\<lambda>r. case r of
          Some e \<Rightarrow> Inr (if is_copy rq then (Some sr, Some m) else (us_sym e, us_map e), st)
        | None \<Rightarrow> bind_result (insert_unique maps rq sr m st) (\<lambda>st'. Inr ((Some sr, Some m), st')))"

section \<open>Searching a scope\<close>

text \<open>What is done with a symbol, by its binding; the flag tells that the search is over.\<close>

definition bind_symbol ::
  "bool \<Rightarrow> lk_maps \<Rightarrow> request \<Rightarrow> symref option \<Rightarrow> nat \<Rightarrow> sym_val \<Rightarrow> lk_state \<Rightarrow> (bool \<times> sym_val \<times> lk_state) result" where
  "bind_symbol dynamic_weak maps rq found m res st =
     (case found of
        None \<Rightarrow> Inr (False, res, st)
      | Some sr \<Rightarrow>
          (let b = st_bind (l_symtab (maps m) ! snd sr)
           in if b = STB_WEAK \<and> dynamic_weak
              then Inr (False, if fst res = None then (Some sr, Some m) else res, st)
              else if b = STB_WEAK \<or> b = STB_GLOBAL then Inr (True, (Some sr, Some m), st)
              else if b = STB_GNU_UNIQUE
              then bind_result (bind_unique maps rq sr m st) (\<lambda>(res', st'). Inr (True, res', st'))
              else Inr (False, res, st)))"

definition skipped :: "lk_maps \<Rightarrow> request \<Rightarrow> nat \<Rightarrow> bool" where
  "skipped maps rq m \<longleftrightarrow>
     Some m = rq_skip rq \<or> is_copy rq \<and> lk_type (maps m) = lt_executable
     \<or> lk_removed (maps m) \<or> l_nbuckets (maps m) = 0"

definition names_file :: "request \<Rightarrow> lk_map \<Rightarrow> bool" where
  "names_file rq mp \<longleftrightarrow>
     (case rq_version rq of
        None \<Rightarrow> False
      | Some v \<Rightarrow> (case fv_filename v of None \<Rightarrow> False | Some f \<Rightarrow> dl_name_match_p f (lk_name mp) (lk_libname mp)))"

fun lookup_loop ::
  "arch \<Rightarrow> bool \<Rightarrow> lk_maps \<Rightarrow> request \<Rightarrow> nat list \<Rightarrow> sym_val \<Rightarrow> lk_state \<Rightarrow> (int \<times> sym_val \<times> lk_state) result" where
  "lookup_loop A dw maps rq [] res st = Inr (0, res, st)"
| "lookup_loop A dw maps rq (x # xs) res st =
     (let m = lk_real (maps x) in
      if skipped maps rq m then lookup_loop A dw maps rq xs res st
      else bind_result (search_map A m (maps m) rq) (\<lambda>(found, symidx).
           bind_result (bind_symbol dw maps rq found m res st) (\<lambda>(stop, res', st').
           if stop then Inr (1, res', st')
           else if symidx = 0 \<and> names_file rq (maps m) then Inr (- 1, res', st')
           else lookup_loop A dw maps rq xs res' st')))"

text \<open>The loop tests its condition at the end, so the first element is read in any case.\<close>

definition do_lookup_x ::
  "arch \<Rightarrow> bool \<Rightarrow> lk_maps \<Rightarrow> request \<Rightarrow> nat list \<Rightarrow> nat \<Rightarrow> sym_val \<Rightarrow> lk_state \<Rightarrow> (int \<times> sym_val \<times> lk_state) result" where
  "do_lookup_x A dw maps rq r_list i res st =
     (if i < length r_list then lookup_loop A dw maps rq (drop i r_list) res st else Inl OutOfBounds)"

text \<open>The search of the scopes, until one of them gives a result other than zero.\<close>

fun scopes_loop ::
  "arch \<Rightarrow> bool \<Rightarrow> lk_maps \<Rightarrow> request \<Rightarrow> bool \<Rightarrow> nat list list \<Rightarrow> nat \<Rightarrow> sym_val \<Rightarrow> lk_state \<Rightarrow> (int \<times> sym_val \<times> lk_state) result" where
  "scopes_loop A dw maps rq stop_neg [] i res st = Inr (0, res, st)"
| "scopes_loop A dw maps rq stop_neg (s # ss) i res st =
     bind_result (do_lookup_x A dw maps rq s i res st) (\<lambda>(r, res', st').
       if 0 < r \<or> r < 0 \<and> stop_neg then Inr (r, res', st') else scopes_loop A dw maps rq stop_neg ss 0 res' st')"

section \<open>Looking up a symbol\<close>

text \<open>The messages of \<^verbatim>\<open>_dl_signal_cerror\<close>, after which the lookup returns nothing.\<close>

datatype lookup_error = RelocationError | SymbolLookupError

type_synonym lookup_result = "lookup_error option \<times> sym_val"

definition ref_sym :: "lk_maps \<Rightarrow> symref \<Rightarrow> Sym" where
  "ref_sym maps r = l_symtab (maps (fst r)) ! snd r"

text \<open>Where the search starts: at the object to skip, if there is one.\<close>

definition start_of :: "request \<Rightarrow> nat list list \<Rightarrow> nat result" where
  "start_of rq scopes =
     (case rq_skip rq of
        None \<Rightarrow> Inr 0
      | Some k \<Rightarrow>
          (case scopes of
             [] \<Rightarrow> Inl SegFault
           | s # _ \<Rightarrow> (case first_index (\<lambda>x. x = k) s of None \<Rightarrow> Inl OutOfBounds | Some i \<Rightarrow> Inr i)))"

text \<open>A protected reference is bound to the definition in the object itself, for other relocations than
  those of the PLT only when a search finds another one.\<close>

definition protect ::
  "arch \<Rightarrow> bool \<Rightarrow> lk_maps \<Rightarrow> request \<Rightarrow> nat list list \<Rightarrow> nat \<Rightarrow> sym_val \<Rightarrow> lk_state \<Rightarrow> (sym_val \<times> lk_state) result" where
  "protect A dw maps rq scopes i cur st =
     (case rq_ref rq of
        None \<Rightarrow> Inr (cur, st)
      | Some r \<Rightarrow>
          if st_visibility (ref_sym maps r) \<noteq> STV_PROTECTED then Inr (cur, st)
          else if rq_class rq = ELF_RTYPE_CLASS_PLT
          then Inr (if snd cur \<noteq> rq_undef_map rq then (Some r, rq_undef_map rq) else cur, st)
          else bind_result
                 (scopes_loop A dw maps (rq\<lparr>rq_class := ELF_RTYPE_CLASS_PLT, rq_undef_map := None\<rparr>) True scopes i (None, None) st)
                 (\<lambda>(_, p, st'). Inr (if fst p \<noteq> None \<and> snd p \<noteq> rq_undef_map rq then (Some r, rq_undef_map rq) else cur, st')))"

text \<open>
  \<open>add_dependency\<close> tells for each attempt whether recording a dependency of one object on another
  succeeds; when it does not, the lookup starts again, in the object's own scope when the global scope
  lock is held. \<open>fuel\<close> bounds the number of attempts.
\<close>

fun dl_lookup_symbol_x ::
  "nat \<Rightarrow> arch \<Rightarrow> bool \<Rightarrow> lk_maps \<Rightarrow> (nat \<Rightarrow> nat option \<Rightarrow> nat \<Rightarrow> bool) \<Rightarrow> bool \<Rightarrow> nat list list \<Rightarrow>
   request \<Rightarrow> nat list list \<Rightarrow> lk_state \<Rightarrow> (lookup_result \<times> lk_state) result" where
  "dl_lookup_symbol_x 0 A dw maps add_dependency dep_flag own_scope rq scopes st = Inl Diverges"
| "dl_lookup_symbol_x (Suc fuel) A dw maps add_dependency dep_flag own_scope rq scopes st =
     (if rq_version rq \<noteq> None \<and> rq_newest rq then Inl AssertFailed
      else bind_result (start_of rq scopes) (\<lambda>i.
           bind_result (scopes_loop A dw maps rq (rq_skip rq = None) scopes i (None, None) st) (\<lambda>(r, cur, st1).
           if r < 0
           then (case (rq_version rq, rq_undef_map rq) of
                   (None, _) \<Rightarrow> Inl AssertFailed
                 | (_, None) \<Rightarrow> Inl SegFault
                 | _ \<Rightarrow> Inr ((Some RelocationError, (None, None)), st1))
           else if fst cur = None
           then Inr ((if (case rq_ref rq of None \<Rightarrow> True | Some q \<Rightarrow> st_bind (ref_sym maps q) \<noteq> STB_WEAK) \<and> rq_skip rq = None
                      then Some SymbolLookupError else None, (None, None)), st1)
           else bind_result (protect A dw maps rq scopes i cur st1) (\<lambda>(cur', st2).
                case snd cur' of
                  None \<Rightarrow> Inl SegFault
                | Some m \<Rightarrow>
                    if lk_type (maps m) = lt_loaded \<and> dep_flag \<and> \<not> add_dependency fuel (rq_undef_map rq) m
                    then dl_lookup_symbol_x fuel A dw maps add_dependency dep_flag own_scope rq own_scope st2
                    else Inr ((None, cur'), st2\<lparr>lk_used := (lk_used st2)(m := True)\<rparr>)))))"

section \<open>Preparing the tables\<close>

fun native_words :: "arch \<Rightarrow> u32 list \<Rightarrow> u64 list" where
  "native_words ARCH_32 ws = map ucast ws"
| "native_words ARCH_64 (a # b # ws) = (ucast a OR push_bit 32 (ucast b)) # native_words ARCH_64 ws"
| "native_words ARCH_64 ws = []"

text \<open>The words of the GNU table or of the ABI's table of an object, which are cached as the fields of
  the object.\<close>

definition dl_setup_hash :: "arch \<Rightarrow> u32 list option \<Rightarrow> u32 list option \<Rightarrow> lk_map \<Rightarrow> lk_map result" where
  "dl_setup_hash A gnu sysv mp =
     (case gnu of
        Some (nbuckets # symbias # bitmask_nwords # shift # rest) \<Rightarrow>
          if bitmask_nwords AND (bitmask_nwords - 1) \<noteq> 0 then Inl AssertFailed
          else (let k = ELF_NATIVE_CLASS A div 32 * unat bitmask_nwords; rest1 = drop k rest
                in Inr (mp\<lparr>l_nbuckets := unat nbuckets, l_gnu_bitmask_idxbits := bitmask_nwords - 1,
                           l_gnu_shift := unat shift, l_gnu_bitmask := Some (native_words A (take k rest)),
                           l_gnu_buckets := map unat (take (unat nbuckets) rest1),
                           l_gnu_symbias := unat symbias,
                           l_gnu_chain := drop (unat nbuckets) rest1\<rparr>))
      | Some _ \<Rightarrow> Inl OutOfBounds
      | None \<Rightarrow>
          (case sysv of
             None \<Rightarrow> Inr mp
           | Some (nbuckets # nchain # rest) \<Rightarrow>
               Inr (mp\<lparr>l_nbuckets := unat nbuckets, l_buckets := map unat (take (unat nbuckets) rest),
                       l_chain := map unat (drop (unat nbuckets) rest)\<rparr>)
           | Some _ \<Rightarrow> Inl OutOfBounds))"

section \<open>The hash of the ABI\<close>

text \<open>The definition in the ABI's own words, with a 32-bit word.\<close>

definition abi_round :: "char \<Rightarrow> u32 \<Rightarrow> u32" where
  "abi_round c h =
     (let h1 = push_bit 4 h + of_char c; g = h1 AND 0xf0000000; h2 = (if g \<noteq> 0 then h1 XOR drop_bit 24 g else h1)
      in h2 AND NOT g)"

definition abi_hash :: "string \<Rightarrow> u32" where
  "abi_hash name = fold abi_round name 0"

lemma ucast_add_32: "(ucast (a + b :: u64) :: u32) = ucast a + ucast b"
proof transfer
  fix a b :: int
  have "take_bit 32 (take_bit 64 a + take_bit 64 b) = take_bit 32 (take_bit 32 (take_bit 64 a) + take_bit 32 (take_bit 64 b))"
    by (simp only: take_bit_add)
  then show "take_bit LENGTH(32) (take_bit LENGTH(64) (a + b)) = take_bit LENGTH(32) (take_bit LENGTH(64) a + take_bit LENGTH(64) b)"
    by (simp add: take_bit_add)
qed

lemma ucast_of_char: "(ucast (of_char c :: u64) :: u32) = of_char c"
proof -
  have "(of_char c :: u64) = of_nat (of_char c)" "(of_char c :: u32) = of_nat (of_char c)" by (simp_all add: of_nat_of_char)
  moreover have "(ucast (of_nat n :: u64) :: u32) = of_nat n" for n
    by transfer simp
  ultimately show ?thesis by simp
qed

lemma of_char_u32: "unat (of_char c :: u32) < 256"
proof -
  have "(of_char c :: u32) = of_nat (of_char c)" by (simp add: of_nat_of_char)
  moreover have "(of_char c :: nat) < 256" by (rule nat_of_char_less_256)
  ultimately show ?thesis by (simp add: unat_of_nat le_less_trans [OF mod_less_eq_dividend])
qed

lemma ucast_hash_add: "(ucast (hash_add h c) :: u32) = push_bit 4 (ucast h) + of_char c"
proof -
  have "(ucast (push_bit 4 h :: u64) :: u32) = push_bit 4 (ucast h)"
    by (rule bit_word_eqI) (auto simp: bit_simps)
  then show ?thesis by (simp only: hash_add_def ucast_add_32 ucast_of_char)
qed

lemma hi_mask: "(0xf0000000 :: u32) = push_bit 28 (mask 4)" "(0xf0000000 :: u64) = push_bit 28 (mask 4)"
  by (simp_all add: mask_eq_exp_minus_1 push_bit_eq_mult)

lemma if_xor: "(if g \<noteq> 0 then x XOR drop_bit 24 g else x) = x XOR drop_bit 24 g" for x g :: "'a::len word"
  by (cases "g = 0") simp_all

lemma abi_round_xor:
  "abi_round c h = (let h1 = push_bit 4 h + of_char c; g = h1 AND 0xf0000000 in (h1 XOR g) XOR drop_bit 24 g)"
proof -
  have "(x XOR drop_bit 24 (x AND 0xf0000000)) AND NOT (x AND 0xf0000000) = (x XOR (x AND 0xf0000000)) XOR drop_bit 24 (x AND 0xf0000000)" for x :: u32
    unfolding hi_mask by (rule bit_word_eqI) (auto simp: bit_simps)
  then show ?thesis unfolding abi_round_def Let_def if_xor .
qed

lemma ucast_hash_round: "(ucast (hash_round h c) :: u32) = abi_round c (ucast h)"
proof -
  have "(ucast ((x XOR (x AND 0xf0000000)) XOR drop_bit 24 (x AND 0xf0000000)) :: u32) =
    (ucast x XOR (ucast x AND 0xf0000000)) XOR drop_bit 24 (ucast x AND 0xf0000000)" for x :: u64
    unfolding hi_mask by (rule bit_word_eqI) (auto simp: bit_simps dest: bit_imp_le_length)
  then show ?thesis unfolding hash_round_def abi_round_xor Let_def ucast_hash_add [symmetric] .
qed

text \<open>Small values need no reduction.\<close>

lemma abi_round_small:
  assumes "unat h < 2 ^ 23"
  shows "abi_round c h = push_bit 4 h + of_char c"
    and "unat (push_bit 4 h + of_char c :: u32) = 16 * unat h + unat (of_char c :: u32)"
proof -
  have "unat (push_bit 4 h) = take_bit 32 (16 * unat h)"
    by (simp add: unsigned_push_bit_eq) (simp add: push_bit_eq_mult mult.commute)
  then have p: "unat (push_bit 4 h) = 16 * unat h"
    using assms by (simp add: take_bit_nat_eq_self)
  show u: "unat (push_bit 4 h + of_char c :: u32) = 16 * unat h + unat (of_char c :: u32)"
    using assms of_char_u32 [of c] p by (subst unat_add_lem [THEN iffD1]) simp_all
  let ?x = "push_bit 4 h + of_char c :: u32"
  have "unat ?x < 2 ^ 28" using u assms of_char_u32 [of c] by simp
  then have "take_bit 28 ?x = ?x"
    by (intro word_unat_eq_iff [THEN iffD2]) (simp add: unsigned_take_bit_eq take_bit_nat_eq_self)
  then have "?x AND 0xf0000000 = take_bit 28 ?x AND push_bit 28 (mask 4)" unfolding hi_mask by simp
  also have "\<dots> = 0" by (rule bit_word_eqI) (auto simp: bit_simps)
  finally have g: "?x AND 0xf0000000 = 0" .
  show "abi_round c h = ?x"
    unfolding abi_round_xor Let_def g by simp
qed

lemma ucast_hash_rounds: "(ucast (fold (\<lambda>c h. hash_round h c) xs h) :: u32) = fold abi_round xs (ucast h)"
  by (induction xs arbitrary: h) (simp_all add: ucast_hash_round)

text \<open>No reduction is needed for the first five characters.\<close>

lemma ucast_hash_adds:
  assumes "length xs \<le> 5"
  shows "(ucast (fold (\<lambda>c h. hash_add h c) xs 0) :: u32) = fold abi_round xs 0
    \<and> unat (fold abi_round xs 0) + 17 \<le> 17 * 16 ^ length xs"
  using assms
proof (induction xs rule: rev_induct)
  case (snoc c xs)
  let ?v = "fold abi_round xs 0"
  have v: "unat ?v + 17 \<le> 17 * 16 ^ length xs" "(ucast (fold (\<lambda>c h. hash_add h c) xs 0) :: u32) = ?v"
    using snoc by simp_all
  have "(16 :: nat) ^ length xs \<le> 16 ^ 4" using snoc.prems by (intro power_increasing) simp_all
  then have "unat ?v < 2 ^ 23" using v(1) by simp
  from abi_round_small [OF this, of c] v of_char_u32 [of c]
  show ?case by (simp add: ucast_hash_add)
qed simp

section \<open>Searching a GNU table\<close>

lemma names_no_file [simp]: "rq_version rq = None \<Longrightarrow> \<not> names_file rq mp"
  by (simp add: names_file_def)

text \<open>A symbol with the requested name that is a definition, whatever its version.\<close>

definition names_symbol :: "lk_map \<Rightarrow> request \<Rightarrow> nat \<Rightarrow> bool" where
  "names_symbol mp rq i =
     (let s = l_symtab mp ! i
      in \<not> (st_value s = 0 \<and> st_type s \<noteq> STT_TLS \<or> odd (rq_class rq) \<and> st_undef s)
         \<and> st_type s \<in> ALLOWED_STT \<and> st_name s = rq_name rq)"

text \<open>The version of a symbol against the requested one: an object without versions fits. A request with a
  version fits the same version, and a visible base version when the request does not insist; a request
  without version fits the base versions.\<close>

definition version_fits :: "lk_map \<Rightarrow> request \<Rightarrow> nat \<Rightarrow> bool" where
  "version_fits mp rq i \<longleftrightarrow>
     (case l_versyms mp of
        None \<Rightarrow> True
      | Some tab \<Rightarrow>
          (case rq_version rq of
             Some v \<Rightarrow>
               (let mv = l_versions mp ! (tab ! i mod 2 ^ 15)
                in fv_hash mv = fv_hash v \<and> fv_name mv = fv_name v
                   \<or> \<not> fv_hidden v \<and> fv_hash mv = 0 \<and> even (tab ! i div 2 ^ 15))
           | None \<Rightarrow> tab ! i mod 2 ^ 15 < (if rq_newest rq then 2 else 3)))"

definition accepts :: "lk_map \<Rightarrow> request \<Rightarrow> nat \<Rightarrow> bool" where
  "accepts mp rq i \<longleftrightarrow> names_symbol mp rq i \<and> version_fits mp rq i"

text \<open>A request without version counts the default versions that it meets; it is content with one if that is
  the only one.\<close>

definition default_version :: "lk_map \<Rightarrow> request \<Rightarrow> nat \<Rightarrow> bool" where
  "default_version mp rq i \<longleftrightarrow>
     names_symbol mp rq i \<and> rq_version rq = None \<and>
     (case l_versyms mp of None \<Rightarrow> False | Some tab \<Rightarrow> \<not> version_fits mp rq i \<and> even (tab ! i div 2 ^ 15))"

definition sym_hash :: "lk_map \<Rightarrow> nat \<Rightarrow> u32" where
  "sym_hash mp i = dl_new_hash (st_name (l_symtab mp ! i))"

definition hashed :: "lk_map \<Rightarrow> nat list" where
  "hashed mp = [l_gnu_symbias mp..<l_gnu_symbias mp + length (l_gnu_chain mp)]"

text \<open>A reference that is itself in the hash table has the requested name; the tables of versions cover the
  symbols, and an object that the request names as the source of the version has them.\<close>

definition plain_request :: "request \<Rightarrow> lk_maps \<Rightarrow> nat \<Rightarrow> bool" where
  "plain_request rq maps m \<longleftrightarrow>
     (\<forall>i \<in> set (hashed (maps m)). Some (m, i) = rq_ref rq \<longrightarrow> st_name (l_symtab (maps m) ! i) = rq_name rq)
     \<and> (case l_versyms (maps m) of
          None \<Rightarrow> \<not> names_file rq (maps m)
        | Some tab \<Rightarrow> \<forall>i \<in> set (hashed (maps m)). i < length tab
             \<and> (rq_version rq \<noteq> None \<longrightarrow> tab ! i mod 2 ^ 15 < length (l_versions (maps m))))"

text \<open>A bucket is empty, or its symbols are the ones from its first index to the end of the chain.\<close>

definition bucket_ok :: "lk_map \<Rightarrow> nat \<Rightarrow> bool" where
  "bucket_ok mp k \<longleftrightarrow>
     (let b = l_gnu_buckets mp ! k; here = (\<lambda>i. unat (sym_hash mp i) mod l_nbuckets mp = k)
      in if b = 0 then (\<forall>i \<in> set (hashed mp). \<not> here i)
         else l_gnu_symbias mp \<le> b \<and>
              (\<exists>e. b \<le> e \<and> e < l_gnu_symbias mp + length (l_gnu_chain mp)
                \<and> (\<forall>i \<in> set (hashed mp). here i \<longrightarrow> b \<le> i \<and> i \<le> e)
                \<and> (\<forall>i. b \<le> i \<longrightarrow> i \<le> e \<longrightarrow> bit (l_gnu_chain mp ! (i - l_gnu_symbias mp)) 0 = (i = e))))"

definition gnu_table_ok :: "arch \<Rightarrow> lk_map \<Rightarrow> bool" where
  "gnu_table_ok A mp \<longleftrightarrow>
     0 < l_nbuckets mp \<and> length (l_gnu_buckets mp) = l_nbuckets mp
     \<and> length (l_symtab mp) = l_gnu_symbias mp + length (l_gnu_chain mp)
     \<and> (\<forall>i \<in> set (hashed mp). drop_bit 1 (l_gnu_chain mp ! (i - l_gnu_symbias mp) XOR sym_hash mp i) = 0)
     \<and> (\<forall>k < l_nbuckets mp. bucket_ok mp k)
     \<and> (\<exists>bm. l_gnu_bitmask mp = Some bm \<and> (\<forall>h. \<exists>r. bloom_pass A mp bm h = Inr r)
            \<and> (\<forall>i \<in> set (hashed mp). bloom_pass A mp bm (sym_hash mp i) = Inr True))"

definition note_version :: "nat \<Rightarrow> nat \<Rightarrow> seen \<Rightarrow> seen" where
  "note_version m i seen = (Suc (fst seen), if fst seen = 0 then Some (m, i) else snd seen)"

lemma check_match_plain:
  assumes "plain_request rq maps m" "i < length (l_symtab (maps m))" "i \<in> set (hashed (maps m))"
  shows "check_match (maps m) rq (m, i) seen =
    Inr (accepts (maps m) rq i, if default_version (maps m) rq i then note_version m i seen else seen)"
proof (cases "l_versyms (maps m)")
  case None
  then show ?thesis
    using assms by (auto simp: check_match_def match_version_def accepts_def plain_request_def get_def Let_def names_symbol_def
        version_fits_def default_version_def names_file_def split: option.splits)
next
  case (Some tab)
  then have "i < length tab" "rq_version rq \<noteq> None \<Longrightarrow> tab ! i mod 2 ^ 15 < length (l_versions (maps m))"
    using assms(1,3) by (auto simp: plain_request_def)
  then show ?thesis
    using assms Some
    by (cases "rq_version rq") (auto simp: check_match_def match_version_def accepts_def plain_request_def get_def Let_def names_symbol_def
        version_fits_def default_version_def note_version_def not_less)
qed

text \<open>The walk along a chain finds the first symbol that is accepted; without one it has met all default
  versions.\<close>

lemma gnu_loop_find:
  assumes "plain_request rq maps m" "gnu_table_ok A (maps m)"
    and "l_gnu_symbias (maps m) \<le> i" "i \<le> e" "e < l_gnu_symbias (maps m) + length (l_gnu_chain (maps m))"
    and "\<forall>j. i \<le> j \<longrightarrow> j \<le> e \<longrightarrow> bit (l_gnu_chain (maps m) ! (j - l_gnu_symbias (maps m))) 0 = (j = e)"
  shows "\<exists>seen'. gnu_loop m (maps m) rq (dl_new_hash (rq_name rq)) i seen = Inr (find (accepts (maps m) rq) [i..<Suc e], seen')
    \<and> (find (accepts (maps m) rq) [i..<Suc e] = None \<longrightarrow>
         seen' = fold (note_version m) (filter (default_version (maps m) rq) [i..<Suc e]) seen)"
  using assms(3-6)
proof (induction "e - i" arbitrary: i seen rule: less_induct)
  case less
  let ?mp = "maps m" and ?w = "l_gnu_chain (maps m) ! (i - l_gnu_symbias (maps m))"
  let ?seen = "if default_version (maps m) rq i then note_version m i seen else seen"
  have i: "i \<in> set (hashed ?mp)" "i < length (l_symtab ?mp)"
    using less.prems assms(2) by (auto simp: hashed_def gnu_table_ok_def)
  have g: "gnu_get ?mp i = Inr ?w" using less.prems by (auto simp: gnu_get_def get_def)
  have "names_symbol ?mp rq i \<Longrightarrow> drop_bit 1 (?w XOR dl_new_hash (rq_name rq)) = 0"
    using assms(2) i(1) by (auto simp: gnu_table_ok_def sym_hash_def names_symbol_def Let_def)
  then have c: "(if drop_bit 1 (?w XOR dl_new_hash (rq_name rq)) = 0 then check_match ?mp rq (m, i) seen else Inr (False, seen))
      = Inr (accepts ?mp rq i, ?seen)"
    using check_match_plain [OF assms(1) i(2,1)] by (auto simp: accepts_def default_version_def)
  show ?case
  proof (cases "i = e")
    case True
    then show ?thesis using g c less.prems by (subst gnu_loop.simps) (simp, metis prod.collapse)
  next
    case False
    then have u: "\<not> bit ?w 0" "[i..<Suc e] = i # [Suc i..<Suc e]" using less.prems by (auto simp: upt_conv_Cons)
    show ?thesis
    proof (cases "accepts ?mp rq i")
      case True
      then show ?thesis using g c u by (subst gnu_loop.simps) (simp del: upt_Suc)
    next
      case acc: False
      have "gnu_loop m ?mp rq (dl_new_hash (rq_name rq)) i seen = gnu_loop m ?mp rq (dl_new_hash (rq_name rq)) (Suc i) ?seen"
        using g c u(1) acc by (subst gnu_loop.simps) simp
      moreover have "\<exists>seen'. gnu_loop m ?mp rq (dl_new_hash (rq_name rq)) (Suc i) ?seen = Inr (find (accepts ?mp rq) [Suc i..<Suc e], seen')
          \<and> (find (accepts ?mp rq) [Suc i..<Suc e] = None \<longrightarrow>
               seen' = fold (note_version m) (filter (default_version ?mp rq) [Suc i..<Suc e]) ?seen)"
        by (intro less.hyps) (use less.prems False in auto)
      ultimately show ?thesis
        using acc unfolding u(2) by (cases "default_version ?mp rq i") (simp_all del: upt_Suc)
    qed
  qed
qed

lemma find_append: "find P (xs @ ys) = (case find P xs of None \<Rightarrow> find P ys | Some x \<Rightarrow> Some x)"
  by (induction xs) auto

lemma find_upt_sub:
  assumes "s \<le> b" "b \<le> e" "e < (t :: nat)" "\<forall>i. s \<le> i \<longrightarrow> i < t \<longrightarrow> P i \<longrightarrow> b \<le> i \<and> i \<le> e"
  shows "find P [s..<t] = find P [b..<Suc e]"
proof -
  have "[s..<t] = [s..<b] @ [b..<Suc e] @ [Suc e..<t]"
    using upt_add_eq_append [OF assms(1), of "t - b"] upt_add_eq_append [of b "Suc e" "t - Suc e"] assms(1-3) by simp
  moreover have "find P [s..<b] = None" using assms by (auto simp: find_None_iff)
  moreover have "find P [Suc e..<t] = None"
    using assms(1,2,4) by (auto simp: find_None_iff) (metis Suc_leD Suc_n_not_le_n le_trans)
  ultimately show ?thesis by (auto simp: find_append split: option.splits)
qed

lemma filter_upt_sub:
  assumes "s \<le> b" "b \<le> e" "e < (t :: nat)" "\<forall>i. s \<le> i \<longrightarrow> i < t \<longrightarrow> P i \<longrightarrow> b \<le> i \<and> i \<le> e"
  shows "filter P [s..<t] = filter P [b..<Suc e]"
proof -
  have "[s..<t] = [s..<b] @ [b..<Suc e] @ [Suc e..<t]"
    using upt_add_eq_append [OF assms(1), of "t - b"] upt_add_eq_append [of b "Suc e" "t - Suc e"] assms(1-3) by simp
  moreover have "filter P [s..<b] = []" using assms by (auto simp: filter_empty_conv)
  moreover have "filter P [Suc e..<t] = []"
    using assms(1,2,4) by (auto simp: filter_empty_conv) (metis Suc_leD Suc_n_not_le_n le_trans)
  ultimately show ?thesis by (simp del: upt_Suc)
qed

lemma fold_note_version:
  "fold (note_version m) xs (0, None) = (length xs, case xs of [] \<Rightarrow> None | x # _ \<Rightarrow> Some (m, x))"
proof -
  have "fold (note_version m) ys (Suc n, r) = (Suc n + length ys, r)" for ys n r
    by (induction ys arbitrary: n) (simp_all add: note_version_def)
  then show ?thesis by (cases xs) (simp_all add: note_version_def)
qed

text \<open>The definition of an object: the first symbol that is accepted, or the only default version.\<close>

definition only_one :: "'a list \<Rightarrow> 'a option" where
  "only_one xs = (case xs of [x] \<Rightarrow> Some x | _ \<Rightarrow> None)"

definition definition_in :: "lk_maps \<Rightarrow> request \<Rightarrow> nat \<Rightarrow> nat option" where
  "definition_in maps rq m =
     (case find (accepts (maps m) rq) (hashed (maps m)) of
        Some i \<Rightarrow> Some i
      | None \<Rightarrow> only_one (filter (default_version (maps m) rq) (hashed (maps m))))"

lemma search_gnu:
  assumes "plain_request rq maps m" "gnu_table_ok A (maps m)"
  shows "\<exists>k. search_map A m (maps m) rq = Inr (map_option (Pair m) (definition_in maps rq m), k)"
proof -
  let ?mp = "maps m" and ?h = "dl_new_hash (rq_name rq)"
  let ?k = "unat ?h mod l_nbuckets ?mp"
  obtain bm where bm: "l_gnu_bitmask ?mp = Some bm" "\<forall>h. \<exists>r. bloom_pass A ?mp bm h = Inr r"
      "\<forall>i \<in> set (hashed ?mp). bloom_pass A ?mp bm (sym_hash ?mp i) = Inr True"
    using assms(2) by (auto simp: gnu_table_ok_def)
  obtain r where r: "bloom_pass A ?mp bm ?h = Inr r" using bm(2) by blast
  have nm: "names_symbol ?mp rq i \<Longrightarrow> sym_hash ?mp i = ?h" for i by (simp add: names_symbol_def sym_hash_def Let_def)
  have acc: "accepts ?mp rq i \<Longrightarrow> names_symbol ?mp rq i" "default_version ?mp rq i \<Longrightarrow> names_symbol ?mp rq i" for i
    by (simp_all add: accepts_def default_version_def)
  have k: "?k < l_nbuckets ?mp" "get (l_gnu_buckets ?mp) ?k = Inr (l_gnu_buckets ?mp ! ?k)"
    using assms(2) by (auto simp: gnu_table_ok_def get_def)
  then have b: "bucket_ok ?mp ?k" using assms(2) by (simp add: gnu_table_ok_def)
  show ?thesis
  proof (cases "r \<and> l_gnu_buckets ?mp ! ?k \<noteq> 0")
    case False
    have "\<forall>i \<in> set (hashed ?mp). \<not> names_symbol ?mp rq i"
      using False r bm(3) b nm unfolding bucket_ok_def Let_def by (metis (mono_tags, lifting) sum.inject(2))
    then have "find (accepts ?mp rq) (hashed ?mp) = None" "filter (default_version ?mp rq) (hashed ?mp) = []"
      using acc by (auto simp: find_None_iff filter_empty_conv)
    then have "definition_in maps rq m = None" by (simp add: definition_in_def only_one_def)
    then show ?thesis
      using False bm(1) r k by (auto simp: search_map_def Let_def)
  next
    case True
    let ?b = "l_gnu_buckets ?mp ! ?k"
    obtain e where e: "l_gnu_symbias ?mp \<le> ?b" "?b \<le> e" "e < l_gnu_symbias ?mp + length (l_gnu_chain ?mp)"
        "\<forall>i \<in> set (hashed ?mp). unat (sym_hash ?mp i) mod l_nbuckets ?mp = ?k \<longrightarrow> ?b \<le> i \<and> i \<le> e"
        "\<forall>i. ?b \<le> i \<longrightarrow> i \<le> e \<longrightarrow> bit (l_gnu_chain ?mp ! (i - l_gnu_symbias ?mp)) 0 = (i = e)"
      using b True by (auto simp: bucket_ok_def Let_def)
    have d: "definition_in maps rq m = (case find (accepts ?mp rq) [?b..<Suc e] of
        Some i \<Rightarrow> Some i | None \<Rightarrow> only_one (filter (default_version ?mp rq) [?b..<Suc e]))"
      unfolding definition_in_def hashed_def using e(4) acc nm
      by (subst find_upt_sub [OF e(1-3)], force simp: hashed_def, subst filter_upt_sub [OF e(1-3)], force simp: hashed_def) simp
    obtain seen where seen: "gnu_loop m ?mp rq ?h ?b (0, None) = Inr (find (accepts ?mp rq) [?b..<Suc e], seen)"
        "find (accepts ?mp rq) [?b..<Suc e] = None \<longrightarrow>
           seen = fold (note_version m) (filter (default_version ?mp rq) [?b..<Suc e]) (0, None)"
      using gnu_loop_find [OF assms e(1,2,3,5), of "(0, None)"] by (elim exE conjE)
    have s: "search_map A m ?mp rq = (case find (accepts ?mp rq) [?b..<Suc e] of
        Some i \<Rightarrow> Inr (Some (m, i), i) | None \<Rightarrow> Inr (if fst seen = 1 then snd seen else None, 0))"
      using True by (cases "find (accepts ?mp rq) [?b..<Suc e]"; cases seen) (simp_all add: search_map_def Let_def bm(1) r k(2) seen(1) del: upt_Suc)
    show ?thesis
    proof (cases "find (accepts ?mp rq) [?b..<Suc e]")
      case None
      let ?vs = "filter (default_version ?mp rq) [?b..<Suc e]"
      have "seen = (length ?vs, case ?vs of [] \<Rightarrow> None | x # _ \<Rightarrow> Some (m, x))"
        using seen(2) None unfolding fold_note_version by blast
      then show ?thesis
        using s d unfolding None option.case only_one_def by (cases ?vs; cases "tl ?vs") (simp_all del: upt_Suc)
    next
      case (Some i)
      then show ?thesis using s d by simp
    qed
  qed
qed

section \<open>Searching scopes\<close>

text \<open>The objects that are searched, in order, and the first of them with a definition.\<close>

definition searched :: "lk_maps \<Rightarrow> request \<Rightarrow> nat list \<Rightarrow> nat list" where
  "searched maps rq xs = filter (\<lambda>m. \<not> skipped maps rq m) (map (\<lambda>x. lk_real (maps x)) xs)"

definition first_definition :: "lk_maps \<Rightarrow> request \<Rightarrow> nat list \<Rightarrow> symref option" where
  "first_definition maps rq xs =
     map_option (\<lambda>m. (m, the (definition_in maps rq m))) (find (\<lambda>m. definition_in maps rq m \<noteq> None) (searched maps rq xs))"

definition scope_ok :: "arch \<Rightarrow> lk_maps \<Rightarrow> request \<Rightarrow> nat list \<Rightarrow> bool" where
  "scope_ok A maps rq xs \<longleftrightarrow>
     (\<forall>m \<in> set (searched maps rq xs). plain_request rq maps m \<and> gnu_table_ok A (maps m)
        \<and> (definition_in maps rq m = None \<longrightarrow> \<not> names_file rq (maps m))
        \<and> (\<forall>i. definition_in maps rq m = Some i \<longrightarrow> st_bind (l_symtab (maps m) ! i) \<in> {STB_GLOBAL, STB_WEAK}))"

lemma lookup_loop_first:
  "scope_ok A maps rq xs \<Longrightarrow>
   lookup_loop A False maps rq xs res st =
     Inr (case first_definition maps rq xs of None \<Rightarrow> (0, res, st) | Some (m, i) \<Rightarrow> (1, (Some (m, i), Some m), st))"
proof (induction xs)
  case (Cons x xs)
  let ?m = "lk_real (maps x)"
  show ?case
  proof (cases "skipped maps rq ?m")
    case True
    then have "first_definition maps rq (x # xs) = first_definition maps rq xs" "scope_ok A maps rq xs"
      using Cons.prems by (simp_all add: first_definition_def scope_ok_def searched_def)
    then show ?thesis using True Cons by simp
  next
    case False
    then have ok: "plain_request rq maps ?m" "gnu_table_ok A (maps ?m)" "scope_ok A maps rq xs"
      "definition_in maps rq ?m = None \<Longrightarrow> \<not> names_file rq (maps ?m)"
      and b: "\<And>i. definition_in maps rq ?m = Some i \<Longrightarrow> st_bind (l_symtab (maps ?m) ! i) \<in> {STB_GLOBAL, STB_WEAK}"
      using Cons.prems by (simp_all add: scope_ok_def searched_def)
    obtain k where k: "search_map A ?m (maps ?m) rq = Inr (map_option (Pair ?m) (definition_in maps rq ?m), k)"
      using search_gnu [OF ok(1,2)] by blast
    show ?thesis
    proof (cases "definition_in maps rq ?m")
      case None
      then have "first_definition maps rq (x # xs) = first_definition maps rq xs"
        using False by (simp add: first_definition_def searched_def)
      then show ?thesis
        using None False Cons.IH [OF ok(3)] ok(4) k by (simp add: Let_def bind_symbol_def)
    next
      case (Some i)
      then have "first_definition maps rq (x # xs) = Some (?m, i)"
        using False by (simp add: first_definition_def searched_def)
      then show ?thesis
        using Some False b [OF Some] k by (auto simp: Let_def bind_symbol_def)
    qed
  qed
qed (simp add: first_definition_def searched_def)

lemma first_definition_append:
  "first_definition maps rq (xs @ ys) =
     (case first_definition maps rq xs of None \<Rightarrow> first_definition maps rq ys | Some d \<Rightarrow> Some d)"
  by (auto simp: first_definition_def searched_def find_append split: option.split)

lemma scopes_loop_first:
  "\<forall>s \<in> set ss. s \<noteq> [] \<Longrightarrow> scope_ok A maps rq (concat ss) \<Longrightarrow>
   scopes_loop A False maps rq n ss 0 res st =
     Inr (case first_definition maps rq (concat ss) of None \<Rightarrow> (0, res, st) | Some (m, i) \<Rightarrow> (1, (Some (m, i), Some m), st))"
proof (induction ss)
  case (Cons s ss)
  have ok: "scope_ok A maps rq s" "scope_ok A maps rq (concat ss)"
    using Cons.prems(2) by (auto simp: scope_ok_def searched_def)
  show ?case
    using Cons ok lookup_loop_first [OF ok(1), of res st]
    by (cases "first_definition maps rq s") (auto simp: do_lookup_x_def first_definition_append split: option.split)
qed (simp add: first_definition_def searched_def)

lemma lookup_first:
  assumes "\<forall>s \<in> set scopes. s \<noteq> []" "scope_ok A maps rq (concat scopes)"
    and "rq_version rq = None \<or> \<not> rq_newest rq" "rq_skip rq = None"
    and "case rq_ref rq of None \<Rightarrow> True | Some r \<Rightarrow> st_visibility (ref_sym maps r) \<noteq> STV_PROTECTED"
    and "\<forall>m. dep_flag \<longrightarrow> lk_type (maps m) = lt_loaded \<longrightarrow> add_dependency fuel (rq_undef_map rq) m"
  shows "dl_lookup_symbol_x (Suc fuel) A False maps add_dependency dep_flag own_scope rq scopes st =
    Inr (case first_definition maps rq (concat scopes) of
           None \<Rightarrow> ((if case rq_ref rq of None \<Rightarrow> True | Some r \<Rightarrow> st_bind (ref_sym maps r) \<noteq> STB_WEAK
                     then Some SymbolLookupError else None, (None, None)), st)
         | Some (m, i) \<Rightarrow> ((None, (Some (m, i), Some m)), st\<lparr>lk_used := (lk_used st)(m := True)\<rparr>))"
proof (cases "first_definition maps rq (concat scopes)")
  case None
  then show ?thesis
    using assms(3,4) scopes_loop_first [OF assms(1,2), of True "(None, None)" st] by (simp add: start_of_def)
next
  case (Some d)
  then show ?thesis
    using assms(3-6) scopes_loop_first [OF assms(1,2), of True "(None, None)" st]
    by (cases d; cases "rq_ref rq") (auto simp: start_of_def protect_def)
qed

section \<open>Double hashing reaches every entry\<close>

fun probe :: "nat \<Rightarrow> u32 \<Rightarrow> nat \<Rightarrow> nat \<Rightarrow> nat" where
  "probe sz h idx 0 = idx"
| "probe sz h idx (Suc n) = probe sz h (next_idx sz h idx) n"

lemma next_idx_mod: "idx < sz \<Longrightarrow> 2 < sz \<Longrightarrow> next_idx sz h idx = (idx + (1 + unat h mod (sz - 2))) mod sz"
proof -
  assume a: "idx < sz" "2 < sz"
  then have "unat h mod (sz - 2) < sz - 2" by simp
  then have s: "idx + (1 + unat h mod (sz - 2)) - sz < sz" using a by linarith
  show ?thesis
    using s by (cases "sz \<le> idx + (1 + unat h mod (sz - 2))") (simp_all add: next_idx_def le_mod_geq)
qed

lemma probe_mod: "idx < sz \<Longrightarrow> 2 < sz \<Longrightarrow> probe sz h idx n = (idx + n * (1 + unat h mod (sz - 2))) mod sz"
proof (induction n arbitrary: idx)
  case (Suc n)
  let ?s = "1 + unat h mod (sz - 2)"
  have "next_idx sz h idx < sz" using next_idx_mod [OF Suc.prems, of h] Suc.prems by simp
  then have "probe sz h idx (Suc n) = ((idx + ?s) mod sz + n * ?s) mod sz"
    using Suc.IH [of "next_idx sz h idx"] Suc.prems by (simp only: probe.simps next_idx_mod)
  also have "\<dots> = (idx + ?s + n * ?s) mod sz" by (rule mod_add_left_eq)
  also have "idx + ?s + n * ?s = idx + Suc n * ?s" by simp
  finally show ?case .
qed simp

lemma probe_covers:
  assumes "idx < sz" "2 < sz" "\<forall>d. 0 < d \<longrightarrow> d < sz \<longrightarrow> coprime d sz" "j < sz"
  shows "\<exists>n < sz. probe sz h idx n = j"
proof -
  let ?s = "1 + unat h mod (sz - 2)" and ?f = "probe sz h idx"
  have "unat h mod (sz - 2) < sz - 2" using assms(2) by simp
  then have c: "coprime ?s sz" using assms(3) by simp
  have "inj_on ?f {..<sz}"
  proof (rule linorder_inj_onI)
    fix x y assume xy: "x < y" "x \<in> {..<sz}" "y \<in> {..<sz}"
    show "?f x \<noteq> ?f y"
    proof
      assume "?f x = ?f y"
      then have "(idx + y * ?s) mod sz = (idx + x * ?s) mod sz" using assms(1,2) by (simp only: probe_mod)
      moreover have "idx + x * ?s \<le> idx + y * ?s" by (intro add_left_mono mult_right_mono) (use xy in simp_all)
      ultimately have "sz dvd (idx + y * ?s) - (idx + x * ?s)" by (simp only: mod_eq_dvd_iff_nat)
      then have "sz dvd (y - x) * ?s" by (simp only: diff_mult_distrib add_diff_cancel_left)
      then have "sz dvd y - x" using c by (metis coprime_commute coprime_dvd_mult_left_iff)
      then show False using xy by (auto dest: dvd_imp_le)
    qed
  qed auto
  moreover have "?f ` {..<sz} \<subseteq> {..<sz}" using assms(1,2) by (auto simp: probe_mod)
  ultimately have "?f ` {..<sz} = {..<sz}" by (simp add: endo_inj_surj)
  then show ?thesis using assms(4) by (metis imageE lessThan_iff)
qed
lemma enter_loop_probe:
  assumes "\<forall>k \<le> n. probe (length table) (us_hashval e) idx k < length table"
    and "\<forall>k < n. table ! probe (length table) (us_hashval e) idx k \<noteq> None"
    and "table ! probe (length table) (us_hashval e) idx n = None" "n < fuel"
  shows "enter_loop fuel table e idx = Inr (table[probe (length table) (us_hashval e) idx n := Some e])"
  using assms
proof (induction n arbitrary: idx fuel)
  case 0
  then show ?case by (cases fuel) (simp_all add: get_def)
next
  case (Suc n)
  obtain f where f: "fuel = Suc f" "n < f" using Suc.prems(4) by (cases fuel) auto
  have "idx < length table" "table ! idx \<noteq> None" using Suc.prems(1,2) by (force dest: spec [of _ 0])+
  moreover have "enter_loop f table e (next_idx (length table) (us_hashval e) idx) =
      Inr (table[probe (length table) (us_hashval e) (next_idx (length table) (us_hashval e) idx) n := Some e])"
  proof (rule Suc.IH)
    show "\<forall>k \<le> n. probe (length table) (us_hashval e) (next_idx (length table) (us_hashval e) idx) k < length table"
      using Suc.prems(1) by (metis Suc_le_mono probe.simps(2))
    show "\<forall>k < n. table ! probe (length table) (us_hashval e) (next_idx (length table) (us_hashval e) idx) k \<noteq> None"
      using Suc.prems(2) by (metis Suc_less_eq probe.simps(2))
  qed (use Suc.prems(3) f(2) in simp_all)
  ultimately show ?case using f(1) by (auto simp: get_def)
qed

lemma unique_loop_probe:
  assumes "\<forall>k \<le> n. probe (length table) h idx k < length table"
    and "\<forall>k < n. \<exists>x. table ! probe (length table) h idx k = Some x \<and> \<not> (us_hashval x = h \<and> us_name x = nm)"
    and "table ! probe (length table) h idx n = Some e" "us_hashval e = h" "us_name e = nm" "n < fuel"
  shows "unique_loop fuel table h nm idx = Inr (Some e)"
  using assms
proof (induction n arbitrary: idx fuel)
  case 0
  then show ?case by (cases fuel) (simp_all add: get_def)
next
  case (Suc n)
  obtain f where f: "fuel = Suc f" "n < f" using Suc.prems(6) by (cases fuel) auto
  have "idx < length table" "\<exists>x. table ! idx = Some x \<and> \<not> (us_hashval x = h \<and> us_name x = nm)"
    using Suc.prems(1,2) by (force dest: spec [of _ 0])+
  moreover have "unique_loop f table h nm (next_idx (length table) h idx) = Inr (Some e)"
  proof (rule Suc.IH)
    show "\<forall>k \<le> n. probe (length table) h (next_idx (length table) h idx) k < length table"
      using Suc.prems(1) by (metis Suc_le_mono probe.simps(2))
    show "\<forall>k < n. \<exists>x. table ! probe (length table) h (next_idx (length table) h idx) k = Some x
        \<and> \<not> (us_hashval x = h \<and> us_name x = nm)"
      using Suc.prems(2) by (metis Suc_less_eq probe.simps(2))
  qed (use Suc.prems(3-5) f(2) in simp_all)
  ultimately show ?case using f(1) by (auto simp: get_def)
qed

section \<open>Properties\<close>

text \<open>C32. A lookup with or without version, in scopes of objects with well-formed GNU hash tables: it ends, and it binds
  the reference to the first object in the order of the scopes that has a global or weak definition of
  the name in a fitting version, and to the first such symbol of that object's table; for a request without version
  the only default version of an object fits, too. The object counts as used. When there is none, a strong
  reference is reported as an error.\<close>

theorem dl_lookup_symbol_x_first:
  assumes "\<forall>s \<in> set scopes. s \<noteq> []" "scope_ok A maps rq (concat scopes)"
    and "rq_version rq = None \<or> \<not> rq_newest rq" "rq_skip rq = None"
    and "case rq_ref rq of None \<Rightarrow> True | Some r \<Rightarrow> st_visibility (ref_sym maps r) \<noteq> STV_PROTECTED"
    and "\<forall>m. dep_flag \<longrightarrow> lk_type (maps m) = lt_loaded \<longrightarrow> add_dependency fuel (rq_undef_map rq) m"
  shows "dl_lookup_symbol_x (Suc fuel) A False maps add_dependency dep_flag own_scope rq scopes st =
    Inr (case first_definition maps rq (concat scopes) of
           None \<Rightarrow> ((if case rq_ref rq of None \<Rightarrow> True | Some r \<Rightarrow> st_bind (ref_sym maps r) \<noteq> STB_WEAK
                     then Some SymbolLookupError else None, (None, None)), st)
         | Some (m, i) \<Rightarrow> ((None, (Some (m, i), Some m)), st\<lparr>lk_used := (lk_used st)(m := True)\<rparr>))"
  using assms by (rule lookup_first)

text \<open>A program that refers to \<open>f\<close> and a library that defines it.\<close>

definition lk_object :: "nat \<Rightarrow> nat \<Rightarrow> Sym list \<Rightarrow> u32 list \<Rightarrow> lk_map" where
  "lk_object i nb syms chain = \<lparr>lk_name = [], lk_libname = [], lk_real = i, lk_ns = 0, lk_type = lt_library, lk_removed = False,
     l_nbuckets = nb, l_symtab = syms, l_versyms = None, l_versions = [], l_gnu_bitmask = Some [- 1],
     l_gnu_bitmask_idxbits = 0, l_gnu_shift = 5, l_gnu_buckets = replicate nb 1, l_gnu_symbias = 1, l_gnu_chain = chain,
     l_buckets = [], l_chain = []\<rparr>"

definition lk_sym :: "string \<Rightarrow> u64 \<Rightarrow> bool \<Rightarrow> Sym" where
  "lk_sym n v u = \<lparr>st_name = n, st_value = v, st_type = 2, st_bind = STB_GLOBAL, st_visibility = 0, st_undef = u\<rparr>"

definition lk_example :: lk_maps where
  "lk_example i = (if i = 0 then lk_object 0 0 [lk_sym [] 0 True, lk_sym ''f'' 0 True] []
     else lk_object i 1 [lk_sym [] 0 True, lk_sym ''f'' 0x500 False] [177675])"

definition lk_request :: request where
  "lk_request = \<lparr>rq_name = ''f'', rq_ref = Some (0, 1), rq_version = None, rq_newest = False, rq_class = ELF_RTYPE_CLASS_PLT,
     rq_skip = None, rq_undef_map = Some 0\<rparr>"

lemma lk_example_table:
  assumes "0 < m"
  shows "gnu_table_ok A (lk_example m)"
proof -
  have h: "dl_new_hash ''f'' = 177675" by (simp add: dl_new_hash_def of_char_def)
  have "bucket_ok (lk_example m) 0"
    using assms by (auto simp: bucket_ok_def lk_example_def lk_object_def hashed_def sym_hash_def lk_sym_def h upt_conv_Cons le_Suc_eq
        intro!: exI [of _ 1])
  then show ?thesis
    using assms by (cases A) (auto simp: gnu_table_ok_def lk_example_def lk_object_def hashed_def sym_hash_def lk_sym_def h
        bloom_pass_def get_def upt_conv_Cons)
qed

lemma lk_example_defines:
  assumes "0 < m" "rq_name rq = ''f''"
  shows "definition_in lk_example rq m = Some 1"
  using assms by (simp add: definition_in_def hashed_def accepts_def names_symbol_def version_fits_def lk_example_def lk_object_def lk_sym_def ALLOWED_STT_def upt_conv_Cons)

lemma lk_example_ok:
  "searched lk_example lk_request [0, 1] = [1]" "definition_in lk_example lk_request 1 = Some 1" "gnu_table_ok A (lk_example 1)"
  using lk_example_defines [of 1 lk_request] lk_example_table [of 1 A]
  by (simp_all add: searched_def skipped_def lk_example_def lk_object_def lk_request_def is_copy_def ELF_RTYPE_CLASS_PLT_def
      ELF_RTYPE_CLASS_COPY_def)

theorem dl_lookup_symbol_x_first_witness:
  "dl_lookup_symbol_x 1 ARCH_64 False lk_example (\<lambda>_ _ _. True) False [] lk_request [[0, 1]]
     \<lparr>lk_unique = (\<lambda>_. \<lparr>ut_entries = None, ut_n_elements = 0\<rparr>), lk_nodelete = (\<lambda>_. False), lk_used = (\<lambda>_. False)\<rparr> =
   Inr ((None, (Some (1, 1), Some 1)),
     \<lparr>lk_unique = (\<lambda>_. \<lparr>ut_entries = None, ut_n_elements = 0\<rparr>), lk_nodelete = (\<lambda>_. False), lk_used = (\<lambda>_. False)(1 := True)\<rparr>)"
proof -
  have "scope_ok ARCH_64 lk_example lk_request (concat [[0, 1]])"
    using lk_example_ok by (simp add: scope_ok_def plain_request_def)
      (simp add: lk_request_def lk_example_def lk_object_def lk_sym_def)
  moreover have "first_definition lk_example lk_request (concat [[0, 1]]) = Some (1, 1)"
    using lk_example_ok by (simp add: first_definition_def)
  ultimately show ?thesis
    using dl_lookup_symbol_x_first [of "[[0, 1]]" ARCH_64 lk_example lk_request False "\<lambda>_ _ _. True" 0 "[]"]
    by (simp add: lk_request_def ref_sym_def lk_example_def lk_object_def lk_sym_def STV_PROTECTED_def)
qed

text \<open>C38. The optimised hash function of the loader computes the hash that the ABI defines, although it
  leaves out the reduction for the first five characters, replaces the test by two exclusive ors and
  keeps the intermediate values in a 64-bit word.\<close>

theorem dl_elf_hash_abi: "dl_elf_hash name = abi_hash name"
  using ucast_hash_adds [of "take 5 name"] fold_append [of abi_round "take 5 name" "drop 5 name"]
  by (simp add: dl_elf_hash_def abi_hash_def ucast_hash_rounds)

text \<open>C39. A unique symbol is stored and found again: in a table whose size is prime and that has an unused
  entry, the double hashing of \<^verbatim>\<open>enter\<close> ends at an unused entry, fills it and changes no other, and the
  search for the symbol's name, which follows the same steps, ends there.\<close>

theorem unique_symbol_found:
  assumes "2 < length table" "\<forall>d. 0 < d \<longrightarrow> d < length table \<longrightarrow> coprime d (length table)" "None \<in> set table"
    and "\<forall>x. Some x \<in> set table \<longrightarrow> \<not> (us_hashval x = us_hashval e \<and> us_name x = us_name e)"
  shows "\<exists>n table'. enter table e = Inr table' \<and> n < length table \<and> table ! n = None \<and> table' = table[n := Some e]
    \<and> unique_loop (length table') table' (us_hashval e) (us_name e) (unat (us_hashval e) mod length table') = Inr (Some e)"
proof -
  let ?sz = "length table" and ?h = "us_hashval e"
  let ?p = "probe ?sz ?h (unat ?h mod ?sz)"
  have start: "unat ?h mod ?sz < ?sz" using assms(1) by (intro mod_less_divisor) linarith
  obtain j where "j < ?sz" "table ! j = None" using assms(3) by (auto simp: in_set_conv_nth)
  then have ex: "\<exists>n < ?sz. table ! ?p n = None" using probe_covers [OF start assms(1,2), of j ?h] by auto
  define n where "n = (LEAST n. table ! ?p n = None)"
  have n: "table ! ?p n = None" "n < ?sz" and before: "\<forall>k < n. table ! ?p k \<noteq> None"
    using ex unfolding n_def by (auto intro: LeastI2_ex order.strict_trans1 [OF Least_le] dest: not_less_Least)
  have lt: "?p k < ?sz" for k unfolding probe_mod [OF start assms(1)] using assms(1) by (intro mod_less_divisor) linarith
  let ?t = "table[?p n := Some e]"
  have "enter table e = Inr ?t"
    unfolding enter_def by (rule enter_loop_probe) (use lt before n in auto)
  moreover have "unique_loop ?sz ?t ?h (us_name e) (unat ?h mod ?sz) = Inr (Some e)"
  proof (rule unique_loop_probe [where n = n])
    show "\<forall>k < n. \<exists>x. ?t ! probe (length ?t) ?h (unat ?h mod ?sz) k = Some x \<and> \<not> (us_hashval x = ?h \<and> us_name x = us_name e)"
      using before n(1) lt assms(4) by (auto simp: nth_list_update) (metis nth_mem)+
  qed (use lt n in auto)
  ultimately show ?thesis using lt n by (intro exI [of _ "?p n"] exI [of _ ?t]) simp
qed

theorem unique_symbol_found_witness:
  "\<exists>n table'. enter (replicate 31 None) \<lparr>us_hashval = 40, us_name = ''f'', us_sym = Some (1, 1), us_map = Some 1\<rparr> = Inr table'
    \<and> n < 31 \<and> table' = (replicate 31 None)[n := Some \<lparr>us_hashval = 40, us_name = ''f'', us_sym = Some (1, 1), us_map = Some 1\<rparr>]"
proof -
  have "\<forall>d \<in> set [1..<31]. coprime d (31 :: nat)" by code_simp
  then have "\<forall>d. 0 < d \<longrightarrow> d < 31 \<longrightarrow> coprime d (31 :: nat)" by auto
  then show ?thesis
    using unique_symbol_found [of "replicate 31 None" "\<lparr>us_hashval = 40, us_name = ''f'', us_sym = Some (1, 1), us_map = Some 1\<rparr>"]
    by auto
qed

end
