(* ===== verification/Dl_Dependency.thy ===== *)
theory Dl_Dependency
  imports Dl_Lookup
begin

text \<open>
  Dependencies found at run time, \<^verbatim>\<open>add_dependency\<close> of \<^verbatim>\<open>eglibc-2.11.3/elf/dl-lookup.c\<close>: when a reference is
  bound to an object that was loaded with \<^verbatim>\<open>dlopen\<close>, the object must not be unloaded before the one with
  the reference. The first checks are made without the lock; while they are made, and before the locked part, other
  threads may load and unload objects and add dependencies.
\<close>

section \<open>Objects\<close>

text \<open>\<^verbatim>\<open>struct link_map_reldeps\<close>: where it is, the array and how many of its entries are in use.\<close>

record reldeps =
  rd_addr :: u64
  rd_list :: "nat list"
  rd_act :: nat

text \<open>The fields of \<^verbatim>\<open>struct link_map\<close> for dependencies. \<^verbatim>\<open>l_initfini\<close> is its address and the objects before
  the null at its end. The arrays that were replaced and given to \<^verbatim>\<open>_dl_scope_free\<close> can be read as long as a thread
  may have their address; they are not a field of the structure.\<close>

record dep_map =
  dm_ns :: nat
  dm_type :: ltype
  dm_nodelete :: bool
  dm_serial :: nat
  dm_initfini :: "(u64 \<times> nat list) option"
  dm_reldeps :: "reldeps option"
  dm_reldepsmax :: nat
  dm_replaced :: "reldeps list"

text \<open>The objects in memory and, for each namespace, those that are loaded, in the order of \<^verbatim>\<open>l_next\<close>.\<close>

record dep_state =
  dep_maps :: "nat \<Rightarrow> dep_map option"
  ns_loaded :: "nat \<Rightarrow> nat list"

definition initfini_list :: "dep_map \<Rightarrow> nat list" where
  "initfini_list U = (case dm_initfini U of None \<Rightarrow> [] | Some (_, xs) \<Rightarrow> xs)"

definition used :: "reldeps option \<Rightarrow> nat list" where
  "used r = (case r of None \<Rightarrow> [] | Some r \<Rightarrow> take (rd_act r) (rd_list r))"

abbreviation active :: "dep_map \<Rightarrow> nat list" where
  "active U \<equiv> used (dm_reldeps U)"

definition act_of :: "reldeps option \<Rightarrow> nat" where
  "act_of r = (case r of None \<Rightarrow> 0 | Some r \<Rightarrow> rd_act r)"

definition arrays :: "dep_map \<Rightarrow> reldeps list" where
  "arrays U = (case dm_reldeps U of None \<Rightarrow> [] | Some r \<Rightarrow> [r]) @ dm_replaced U"

text \<open>Reading an array through a pointer that was read before.\<close>

definition read_array :: "u64 option \<Rightarrow> dep_map \<Rightarrow> reldeps option result" where
  "read_array p U =
     (case p of
        None \<Rightarrow> Inr None
      | Some a \<Rightarrow> (case find (\<lambda>r. rd_addr r = a) (arrays U) of None \<Rightarrow> Inl SegFault | Some r \<Rightarrow> Inr (Some r)))"

section \<open>Adding a dependency\<close>

definition set_map :: "nat \<Rightarrow> dep_map \<Rightarrow> dep_state \<Rightarrow> dep_state" where
  "set_map x M s = s\<lparr>dep_maps := (dep_maps s)(x \<mapsto> M)\<rparr>"

text \<open>The label \<^verbatim>\<open>out_check\<close>.\<close>

definition out_check :: "nat \<Rightarrow> nat \<Rightarrow> dep_state \<Rightarrow> (int \<times> dep_state) result" where
  "out_check m serial s =
     (case dep_maps s m of
        None \<Rightarrow> Inl SegFault
      | Some M \<Rightarrow> Inr (if dm_serial M \<noteq> serial then - 1 else 0, s))"

definition new_max :: "nat \<Rightarrow> nat" where
  "new_max mx = (if mx \<noteq> 0 then (mx * 2) mod 2 ^ 32 else 10)"

text \<open>The new entry: in place, or in an array of twice the size for which \<^verbatim>\<open>malloc\<close> gives \<open>newp\<close>. \<open>junk\<close> is
  what the new memory holds. Without memory the object is kept for ever.\<close>

definition add_reference ::
  "u64 option \<Rightarrow> (nat \<Rightarrow> nat) \<Rightarrow> nat \<Rightarrow> nat \<Rightarrow> nat \<Rightarrow> dep_map \<Rightarrow> dep_map \<Rightarrow> dep_state \<Rightarrow> (int \<times> dep_state) result" where
  "add_reference newp junk u m act U M s =
     (if dm_reldepsmax U \<le> act
      then let max = new_max (dm_reldepsmax U)
           in (case newp of
                 None \<Rightarrow> Inr (0, set_map m (M\<lparr>dm_nodelete := True\<rparr>) s)
               | Some a \<Rightarrow>
                   (case (act, dm_reldeps U) of
                      (Suc _, None) \<Rightarrow> Inl SegFault
                    | (_, r) \<Rightarrow>
                        let old = (case r of None \<Rightarrow> [] | Some r \<Rightarrow> rd_list r)
                        in if length old < act \<or> max \<le> act then Inl OutOfBounds
                           else Inr (0, set_map u (U\<lparr>dm_reldeps := Some \<lparr>rd_addr = a,
                                    rd_list = take act old @ [m] @ map junk [act + 1..<max], rd_act = act + 1\<rparr>,
                                  dm_reldepsmax := max, dm_replaced := arrays U\<rparr>) s)))
      else (case dm_reldeps U of
              None \<Rightarrow> Inl SegFault
            | Some r \<Rightarrow>
                if length (rd_list r) \<le> act then Inl OutOfBounds
                else Inr (0, set_map u (U\<lparr>dm_reldeps := Some (r\<lparr>rd_list := (rd_list r)[act := m], rd_act := act + 1\<rparr>)\<rparr>) s)))"

text \<open>The part with the lock, with \<open>act\<close> entries known.\<close>

definition locked_part ::
  "u64 option \<Rightarrow> (nat \<Rightarrow> nat) \<Rightarrow> nat \<Rightarrow> nat \<Rightarrow> nat \<Rightarrow> nat \<Rightarrow> dep_state \<Rightarrow> (int \<times> dep_state) result" where
  "locked_part newp junk u m serial act s =
     (case dep_maps s u of
        None \<Rightarrow> Inl SegFault
      | Some U \<Rightarrow>
          if m \<notin> set (ns_loaded s (dm_ns U)) then Inr (- 1, s)
          else (case dep_maps s m of
                  None \<Rightarrow> Inl SegFault
                | Some M \<Rightarrow>
                    if dm_serial M \<noteq> serial then out_check m serial s
                    else if dm_nodelete M then Inr (0, s)
                    else if dm_type U \<noteq> lt_loaded \<or> dm_nodelete U
                    then Inr (0, set_map m (M\<lparr>dm_nodelete := True\<rparr>) s)
                    else add_reference newp junk u m act U M s))"

text \<open>What is checked again when the lock was not held before: \<open>ini\<close> and \<open>rel\<close> are the pointers to \<^verbatim>\<open>l_initfini\<close> and
  \<^verbatim>\<open>l_reldeps\<close> that were read, and \<open>act\<close> entries have been looked at.\<close>

definition recheck ::
  "u64 option \<Rightarrow> (nat \<Rightarrow> nat) \<Rightarrow> nat \<Rightarrow> nat \<Rightarrow> nat \<Rightarrow> u64 option \<Rightarrow> u64 option \<Rightarrow> nat \<Rightarrow> dep_state \<Rightarrow> (int \<times> dep_state) result" where
  "recheck newp junk u m serial ini rel act s =
     (case dep_maps s u of
        None \<Rightarrow> Inl SegFault
      | Some U \<Rightarrow>
          if map_option fst (dm_initfini U) \<noteq> ini \<and> m \<in> set (initfini_list U)
          then out_check m serial s
          else (case dm_reldeps U of
                  None \<Rightarrow> locked_part newp junk u m serial act s
                | Some r \<Rightarrow>
                    if Some (rd_addr r) \<noteq> rel
                    then if m \<in> set (active U) then out_check m serial s
                         else locked_part newp junk u m serial (rd_act r) s
                    else if act < rd_act r
                    then if m \<in> set (drop act (active U)) then out_check m serial s
                         else locked_part newp junk u m serial (rd_act r) s
                    else locked_part newp junk u m serial act s))"

text \<open>
  \<open>interfere\<close> is what other threads do between two accesses to shared data: before \<^verbatim>\<open>l_reldeps\<close> is read (1), before
  \<^verbatim>\<open>l_initfini\<close> is read and searched (2), before the array of \<^verbatim>\<open>l_reldeps\<close> is searched (3), before the serial
  number is read (4) and before the lock is taken (5). \<open>gscope\<close> is the flag \<^verbatim>\<open>DL_LOOKUP_GSCOPE_LOCK\<close>.
\<close>

primrec after :: "(nat \<Rightarrow> dep_state \<Rightarrow> dep_state) \<Rightarrow> nat \<Rightarrow> dep_state \<Rightarrow> dep_state" where
  "after interfere 0 s = s"
| "after interfere (Suc k) s = interfere (Suc k) (after interfere k s)"

definition object :: "nat \<Rightarrow> dep_state \<Rightarrow> dep_map result" where
  "object x s = (case dep_maps s x of None \<Rightarrow> Inl SegFault | Some X \<Rightarrow> Inr X)"

definition add_dependency ::
  "u64 option \<Rightarrow> (nat \<Rightarrow> nat) \<Rightarrow> (nat \<Rightarrow> dep_state \<Rightarrow> dep_state) \<Rightarrow> bool \<Rightarrow> nat \<Rightarrow> nat \<Rightarrow> dep_state \<Rightarrow> (int \<times> dep_state) result" where
  "add_dependency newp junk interfere gscope u m s =
     (let at = (\<lambda>k. after interfere k s) in
      if u = m then Inr (0, s)
      else bind_result (object m s) (\<lambda>M.
        if dm_type M \<noteq> lt_loaded then Inl AssertFailed
        else if dm_nodelete M then Inr (0, s)
        else bind_result (object u (at 1)) (\<lambda>U1.
             bind_result (object u (at 2)) (\<lambda>U2.
               if m \<in> set (initfini_list U2) then Inr (0, at 2)
               else bind_result (object u (at 3)) (\<lambda>U3.
                    bind_result (read_array (map_option rd_addr (dm_reldeps U1)) U3) (\<lambda>r.
                      if m \<in> set (used r) then Inr (0, at 3)
                      else bind_result (object m (at 4)) (\<lambda>M4.
                        if gscope
                        then recheck newp junk u m (dm_serial M4) (map_option fst (dm_initfini U2))
                               (map_option rd_addr (dm_reldeps U1)) (act_of r) (at 5)
                        else locked_part newp junk u m (dm_serial M4) (act_of r) (at 5))))))))"

section \<open>The dependencies of an object\<close>

definition deps :: "dep_map \<Rightarrow> nat set" where
  "deps U = set (initfini_list U) \<union> set (active U)"

text \<open>The array has the size that is recorded, and its used part fits. Sizes stay below \<open>2 ^ 31\<close>. What a replaced
  array has recorded is still a dependency.\<close>

definition dep_ok :: "dep_map \<Rightarrow> bool" where
  "dep_ok U \<longleftrightarrow> dm_reldepsmax U < 2 ^ 31 \<and>
     (case dm_reldeps U of None \<Rightarrow> dm_reldepsmax U = 0
      | Some r \<Rightarrow> length (rd_list r) = dm_reldepsmax U \<and> rd_act r \<le> dm_reldepsmax U) \<and>
     (\<forall>r \<in> set (dm_replaced U). set (used (Some r)) \<subseteq> deps U)"

text \<open>
  What other threads do while this one is known to use the scope: the object with the reference stays, an
  array whose address may be known stays readable, and the memory of the object with the definition is not given to
  another one.
\<close>

definition scope_step :: "nat \<Rightarrow> nat \<Rightarrow> nat \<Rightarrow> dep_state \<Rightarrow> dep_state \<Rightarrow> bool" where
  "scope_step u m serial s s' \<longleftrightarrow>
     (\<exists>U U' M'. dep_maps s u = Some U \<and> dep_maps s' u = Some U' \<and> dep_ok U'
        \<and> dep_maps s' m = Some M' \<and> dm_serial M' = serial
        \<and> rd_addr ` set (arrays U) \<subseteq> rd_addr ` set (arrays U'))"

text \<open>What they have done when the lock is taken: arrays are replaced or extended but not shortened, and what an object
  depends on stays in memory, as does what is loaded. The object with the definition may be gone.\<close>

definition rely :: "nat \<Rightarrow> dep_state \<Rightarrow> dep_state \<Rightarrow> bool" where
  "rely u s s' \<longleftrightarrow> (\<exists>U U1. dep_maps s u = Some U \<and> dep_maps s' u = Some U1 \<and> dep_ok U1
     \<and> (\<forall>r \<in> set (arrays U). case dm_reldeps U1 of None \<Rightarrow> False | Some r1 \<Rightarrow> rd_addr r1 = rd_addr r \<longrightarrow> rd_act r \<le> rd_act r1)
     \<and> (\<forall>x \<in> deps U1 \<union> set (ns_loaded s' (dm_ns U1)). dep_maps s' x \<noteq> None))"

text \<open>The object \<open>m\<close> cannot be unloaded before \<open>u\<close>.\<close>

definition kept :: "nat \<Rightarrow> nat \<Rightarrow> dep_state \<Rightarrow> bool" where
  "kept u m s \<longleftrightarrow> u = m \<or> (\<exists>M. dep_maps s m = Some M \<and> dm_nodelete M) \<or> (\<exists>U. dep_maps s u = Some U \<and> m \<in> deps U)"

text \<open>The object \<open>m\<close> is the one that was found, and not another one that has taken its place.\<close>

definition same_object :: "nat \<Rightarrow> nat \<Rightarrow> dep_state \<Rightarrow> bool" where
  "same_object m serial s \<longleftrightarrow> (\<exists>M. dep_maps s m = Some M \<and> dm_serial M = serial)"

text \<open>The object that was found is not loaded any more, or another one has taken its place.\<close>

definition gone :: "nat \<Rightarrow> nat \<Rightarrow> nat \<Rightarrow> dep_state \<Rightarrow> bool" where
  "gone u m serial s \<longleftrightarrow> (\<exists>U. dep_maps s u = Some U \<and> m \<notin> set (ns_loaded s (dm_ns U)))
     \<or> (\<exists>M. dep_maps s m = Some M \<and> dm_serial M \<noteq> serial)"

text \<open>Nothing else changes: no dependency is lost and no object becomes removable.\<close>

definition grows :: "dep_state \<Rightarrow> dep_state \<Rightarrow> bool" where
  "grows s s' \<longleftrightarrow> ns_loaded s' = ns_loaded s \<and> dom (dep_maps s') = dom (dep_maps s)
     \<and> (\<forall>x X. dep_maps s x = Some X \<longrightarrow> (\<exists>X'. dep_maps s' x = Some X' \<and> deps X \<subseteq> deps X'
          \<and> (dm_nodelete X \<longrightarrow> dm_nodelete X') \<and> dm_serial X' = dm_serial X \<and> (dep_ok X \<longrightarrow> dm_reldepsmax X < 2 ^ 30 \<longrightarrow> dep_ok X')))"

definition dep_outcome :: "nat \<Rightarrow> nat \<Rightarrow> nat \<Rightarrow> dep_state \<Rightarrow> (int \<times> dep_state) result \<Rightarrow> bool" where
  "dep_outcome u m serial s res \<longleftrightarrow>
     (\<exists>s'. res = Inr (0, s') \<and> same_object m serial s' \<and> kept u m s' \<and> grows s s')
     \<or> (res = Inr (- 1, s) \<and> gone u m serial s)"

lemma grows_refl [simp]: "grows s s"
  by (simp add: grows_def)

lemma grows_set_map:
  assumes "dep_maps s x = Some X" "deps X \<subseteq> deps X'" "dm_nodelete X \<longrightarrow> dm_nodelete X'" "dm_serial X' = dm_serial X"
    and "dep_ok X \<Longrightarrow> dm_reldepsmax X < 2 ^ 30 \<Longrightarrow> dep_ok X'"
  shows "grows s (set_map x X' s)"
  using assms by (auto simp: grows_def set_map_def)

lemma dep_nodelete:
  assumes "dep_maps s m = Some M" "dm_serial M = serial"
  shows "dep_outcome u m serial s (Inr (0, set_map m (M\<lparr>dm_nodelete := True\<rparr>) s))"
  using assms grows_set_map [OF assms(1), of "M\<lparr>dm_nodelete := True\<rparr>"]
  by (auto simp: dep_outcome_def kept_def same_object_def set_map_def deps_def initfini_list_def dep_ok_def split: option.splits)

lemma dep_reference:
  assumes "dep_maps s u = Some U" "dep_maps s m = Some M" "dm_serial M = serial" "dep_ok U" "act = act_of (dm_reldeps U)" "u \<noteq> m"
  shows "dep_outcome u m serial s (add_reference newp junk u m act U M s)"
proof (cases "dm_reldepsmax U \<le> act")
  case True
  show ?thesis
  proof (cases newp)
    case None
    then show ?thesis using True dep_nodelete [OF assms(2,3)] by (simp add: add_reference_def)
  next
    case (Some a)
    let ?max = "new_max (dm_reldepsmax U)"
    let ?old = "case dm_reldeps U of None \<Rightarrow> [] | Some r \<Rightarrow> rd_list r"
    let ?U = "U\<lparr>dm_reldeps := Some \<lparr>rd_addr = a, rd_list = take act ?old @ [m] @ map junk [act + 1..<?max], rd_act = act + 1\<rparr>,
        dm_reldepsmax := ?max, dm_replaced := arrays U\<rparr>"
    have m: "act < ?max" "length ?old = act" "active U = ?old"
      using True assms(4,5) by (auto simp: dep_ok_def act_of_def used_def new_max_def split: option.splits)
    have add: "add_reference newp junk u m act U M s = Inr (0, set_map u ?U s)"
      using True Some m(1,2) assms(5) by (auto simp: add_reference_def Let_def act_of_def split: nat.split option.splits)
    have a: "active ?U = active U @ [m]" "initfini_list ?U = initfini_list U"
      using m by (simp_all add: used_def initfini_list_def)
    then have d: "deps U \<subseteq> deps ?U" by (auto simp: deps_def)
    have "set (used (Some r)) \<subseteq> deps U" if "r \<in> set (arrays U)" for r
      using that assms(4) by (auto simp: arrays_def dep_ok_def deps_def split: option.splits)
    then have "\<forall>r \<in> set (dm_replaced ?U). set (used (Some r)) \<subseteq> deps ?U" using d by auto
    moreover have "dm_reldepsmax U < 2 ^ 30 \<Longrightarrow> ?max < 2 ^ 31" by (simp add: new_max_def)
    ultimately have "dm_reldepsmax U < 2 ^ 30 \<Longrightarrow> dep_ok ?U"
      using m(1,2) unfolding dep_ok_def by simp
    with a d show ?thesis
      using add grows_set_map [OF assms(1), of ?U] assms(2,3,6)
      by (auto simp: dep_outcome_def kept_def same_object_def deps_def set_map_def)
  qed
next
  case False
  then obtain r where r: "dm_reldeps U = Some r" "length (rd_list r) = dm_reldepsmax U" "rd_act r = act"
    using assms(4,5) by (auto simp: dep_ok_def act_of_def split: option.splits)
  let ?U = "U\<lparr>dm_reldeps := Some (r\<lparr>rd_list := (rd_list r)[act := m], rd_act := act + 1\<rparr>)\<rparr>"
  have a: "active ?U = active U @ [m]" "initfini_list ?U = initfini_list U"
    using r False by (simp_all add: used_def initfini_list_def take_Suc_conv_app_nth)
  then have d: "deps U \<subseteq> deps ?U" by (auto simp: deps_def)
  then have "dep_ok ?U" using r False assms(4) by (simp add: dep_ok_def) blast
  then show ?thesis
    using False r d a grows_set_map [OF assms(1), of ?U] assms(2,3,6)
    by (auto simp: add_reference_def dep_outcome_def kept_def same_object_def deps_def set_map_def)
qed

lemma dep_out_check:
  assumes "dep_maps s u = Some U" "m \<in> deps U" "dep_maps s m \<noteq> None"
  shows "dep_outcome u m serial s (out_check m serial s)"
  using assms by (auto simp: out_check_def dep_outcome_def kept_def same_object_def gone_def)

lemma dep_locked:
  assumes "dep_maps s u = Some U" "dep_ok U" "act = act_of (dm_reldeps U)" "\<forall>x \<in> set (ns_loaded s (dm_ns U)). dep_maps s x \<noteq> None"
    and "u \<noteq> m"
  shows "dep_outcome u m serial s (locked_part newp junk u m serial act s)"
proof (cases "m \<in> set (ns_loaded s (dm_ns U))")
  case True
  then obtain M where M: "dep_maps s m = Some M" using assms(4) by blast
  consider "dm_serial M \<noteq> serial" | "dm_serial M = serial" "dm_nodelete M"
    | "dm_serial M = serial" "\<not> dm_nodelete M" "dm_type U \<noteq> lt_loaded \<or> dm_nodelete U"
    | "dm_serial M = serial" "\<not> dm_nodelete M" "dm_type U = lt_loaded" "\<not> dm_nodelete U" by blast
  then show ?thesis
  proof cases
    case 1
    then show ?thesis using True M assms(1) by (auto simp: locked_part_def out_check_def dep_outcome_def gone_def)
  next
    case 2
    then show ?thesis using True M assms(1) by (auto simp: locked_part_def dep_outcome_def kept_def same_object_def)
  next
    case 3
    then show ?thesis using True M assms(1) dep_nodelete [OF M 3(1)] by (auto simp: locked_part_def)
  next
    case 4
    then show ?thesis using True M assms(1) dep_reference [OF assms(1) M 4(1) assms(2,3,5)] by (simp add: locked_part_def)
  qed
qed (use assms(1) in \<open>simp add: locked_part_def dep_outcome_def gone_def\<close>)

lemma dep_recheck:
  assumes "rely u s s'" "dep_maps s u = Some U" "read_array rel U = Inr r" "u \<noteq> m"
  shows "dep_outcome u m serial s' (recheck newp junk u m serial ini rel (act_of r) s')"
proof -
  obtain U1 where U1: "dep_maps s' u = Some U1" "dep_ok U1" "\<forall>x \<in> deps U1 \<union> set (ns_loaded s' (dm_ns U1)). dep_maps s' x \<noteq> None"
    and g: "\<forall>r \<in> set (arrays U). case dm_reldeps U1 of None \<Rightarrow> False | Some r1 \<Rightarrow> rd_addr r1 = rd_addr r \<longrightarrow> rd_act r \<le> rd_act r1"
    using assms(1,2) by (auto simp: rely_def)
  have r: "rel = None \<and> r = None \<or> (\<exists>x \<in> set (arrays U). rel = Some (rd_addr x) \<and> r = Some x)"
    using assms(3) by (auto simp: read_array_def find_Some_iff split: option.splits)
  have out: "dep_outcome u m serial s' (out_check m serial s')" if "m \<in> deps U1"
    using dep_out_check [OF U1(1) that] U1(3) that by blast
  have lock: "dep_outcome u m serial s' (locked_part newp junk u m serial (act_of (dm_reldeps U1)) s')"
    using dep_locked [OF U1(1,2) refl _ assms(4)] U1(3) by blast
  have sub: "m \<in> set (initfini_list U1) \<Longrightarrow> m \<in> deps U1" "m \<in> set (active U1) \<Longrightarrow> m \<in> deps U1"
      "m \<in> set (drop k (active U1)) \<Longrightarrow> m \<in> deps U1" for k
    by (auto simp: deps_def dest: in_set_dropD)
  have act: "dm_reldeps U1 = None \<Longrightarrow> act_of r = act_of (dm_reldeps U1)" "dm_reldeps U1 = Some x \<Longrightarrow> rd_act x = act_of (dm_reldeps U1)"
      "dm_reldeps U1 = Some x \<Longrightarrow> Some (rd_addr x) = rel \<Longrightarrow> \<not> act_of r < rd_act x \<Longrightarrow> act_of r = act_of (dm_reldeps U1)" for x
    using r g by (auto simp: act_of_def split: option.splits)
  show ?thesis
  proof (cases "dm_reldeps U1")
    case None
    then show ?thesis using U1(1) out sub(1) lock act(1) by (simp add: recheck_def)
  next
    case (Some x)
    then show ?thesis using U1(1) out sub lock act(2,3) [OF Some] by (simp add: recheck_def) metis
  qed
qed

section \<open>Properties\<close>

lemma read_array_known:
  assumes "rd_addr ` set (arrays U) \<subseteq> rd_addr ` set (arrays U3)" "dep_ok U3"
  shows "\<exists>r. read_array (map_option rd_addr (dm_reldeps U)) U3 = Inr r \<and> set (used r) \<subseteq> deps U3"
proof (cases "dm_reldeps U")
  case None
  then show ?thesis by (simp add: read_array_def used_def)
next
  case (Some x)
  then obtain y where "y \<in> set (arrays U3)" "rd_addr y = rd_addr x" using assms(1) by (force simp: arrays_def)
  then obtain r where r: "find (\<lambda>r. rd_addr r = rd_addr x) (arrays U3) = Some r"
    by (cases "find (\<lambda>r. rd_addr r = rd_addr x) (arrays U3)") (auto simp: find_None_iff)
  then have "r \<in> set (arrays U3)" by (auto simp: find_Some_iff)
  then have "set (used (Some r)) \<subseteq> deps U3"
    using assms(2) by (auto simp: arrays_def dep_ok_def deps_def split: option.splits)
  then show ?thesis using r Some by (simp add: read_array_def)
qed

lemma read_array_current: "read_array (map_option rd_addr (dm_reldeps U)) U = Inr (dm_reldeps U)"
  by (cases "dm_reldeps U") (simp_all add: read_array_def arrays_def)

text \<open>C33. Adding a dependency is safe against other threads, which may load and unload objects and add dependencies between any
  two of the accesses that the routine makes without the lock. When it reports success, the object with the
  definition is still the one that was found (its serial number is the same), and it is in the dependencies of the
  object with the reference or can never be unloaded; no other dependency is lost. When it reports failure, the object has
  been unloaded or replaced in the meantime, nothing has changed, and the caller searches again. Without the flag the
  caller holds the lock already, and nothing happens in between.\<close>

theorem add_dependency_keeps:
  assumes "dep_maps s m = Some M" "dm_type M = lt_loaded"
    and "\<forall>k < 4. scope_step u m (dm_serial M) (after interfere k s) (after interfere (Suc k) s)"
    and "rely u (after interfere 3 s) (after interfere 5 s)" "gscope \<or> (\<forall>k t. interfere k t = t)"
  shows "\<exists>k \<le> 5. dep_outcome u m (dm_serial M) (after interfere k s) (add_dependency newp junk interfere gscope u m s)"
proof (cases "u = m \<or> dm_nodelete M")
  case True
  then have "kept u m s" "same_object m (dm_serial M) s" using assms(1) by (auto simp: kept_def same_object_def)
  moreover have "add_dependency newp junk interfere gscope u m s = Inr (0, s)"
    using True assms(1,2) by (auto simp: add_dependency_def object_def Let_def)
  ultimately show ?thesis by (intro exI [of _ 0]) (auto simp: dep_outcome_def)
next
  case ne: False
  let ?at = "\<lambda>k. after interfere k s" and ?n = "dm_serial M"
  have step: "scope_step u m ?n (?at 0) (?at 1)" "scope_step u m ?n (?at 1) (?at 2)" "scope_step u m ?n (?at 2) (?at 3)"
      "scope_step u m ?n (?at 3) (?at 4)"
    using assms(3) [rule_format, of 0] assms(3) [rule_format, of 1] assms(3) [rule_format, of 2] assms(3) [rule_format, of 3]
    by (simp_all only: numeral_eq_Suc pred_numeral_simps BitM.simps One_nat_def)
  obtain U1 U2 U3 M4 where U: "dep_maps (?at 1) u = Some U1" "dep_maps (?at 2) u = Some U2" "dep_maps (?at 3) u = Some U3"
      "dep_maps (?at 4) m = Some M4" "dm_serial M4 = ?n" "dep_ok U3"
      "rd_addr ` set (arrays U1) \<subseteq> rd_addr ` set (arrays U3)"
    using step unfolding scope_step_def by (metis (no_types, lifting) option.inject subset_trans)
  have same: "same_object m ?n (?at 2)" "same_object m ?n (?at 3)"
    using step(2,3) by (auto simp: scope_step_def same_object_def)
  obtain r where r: "read_array (map_option rd_addr (dm_reldeps U1)) U3 = Inr r" "set (used r) \<subseteq> deps U3"
    using read_array_known [OF U(7,6)] by blast
  have run: "add_dependency newp junk interfere gscope u m s =
      (if m \<in> set (initfini_list U2) then Inr (0, ?at 2)
       else if m \<in> set (used r) then Inr (0, ?at 3)
       else if gscope then recheck newp junk u m ?n (map_option fst (dm_initfini U2)) (map_option rd_addr (dm_reldeps U1)) (act_of r) (?at 5)
       else locked_part newp junk u m ?n (act_of r) (?at 5))"
    using ne assms(1,2) U(1-5) r(1) unfolding add_dependency_def object_def Let_def by simp
  consider "m \<in> set (initfini_list U2)" | "m \<notin> set (initfini_list U2)" "m \<in> set (used r)"
    | "m \<notin> set (initfini_list U2)" "m \<notin> set (used r)" "gscope" | "m \<notin> set (initfini_list U2)" "m \<notin> set (used r)" "\<not> gscope" by blast
  then show ?thesis
  proof cases
    case 1
    then have "kept u m (?at 2)" using U(2) by (auto simp: kept_def deps_def)
    then show ?thesis using 1 run same(1) by (intro exI [of _ 2]) (auto simp: dep_outcome_def)
  next
    case 2
    then have "kept u m (?at 3)" using U(3) r(2) by (auto simp: kept_def)
    then show ?thesis using 2 run same(2) by (intro exI [of _ 3]) (auto simp: dep_outcome_def)
  next
    case 3
    then show ?thesis using run dep_recheck [OF assms(4) U(3) r(1)] ne by (intro exI [of _ 5]) auto
  next
    case 4
    then have "interfere k t = t" for k t using assms(5) by blast
    then have at: "?at k = s" for k by (induction k) simp_all
    have "r = dm_reldeps U3" using r(1) U(1,3) read_array_current [of U3] unfolding at by simp
    moreover have "\<forall>x \<in> set (ns_loaded s (dm_ns U3)). dep_maps s x \<noteq> None"
      using assms(4) U(3) unfolding at by (auto simp: rely_def)
    ultimately have "dep_outcome u m ?n s (locked_part newp junk u m ?n (act_of r) s)"
      using dep_locked [of s u U3 "act_of r" m] U(3,6) ne unfolding at by blast
    then show ?thesis using 4 run unfolding at by (intro exI [of _ 5]) auto
  qed
qed

definition plugin_map :: dep_map where
  "plugin_map = \<lparr>dm_ns = 0, dm_type = lt_loaded, dm_nodelete = False, dm_serial = 1, dm_initfini = None, dm_reldeps = None, dm_reldepsmax = 0,
     dm_replaced = []\<rparr>"

definition plugin_state :: dep_state where
  "plugin_state = \<lparr>dep_maps = [1 \<mapsto> plugin_map, 2 \<mapsto> plugin_map\<lparr>dm_serial := 2\<rparr>], ns_loaded = (\<lambda>_. [1, 2])\<rparr>"

text \<open>Before the lock is taken, another thread closes the object with the definition and opens one that gets the same address and a
  new serial number.\<close>

definition replace_2 :: "nat \<Rightarrow> dep_state \<Rightarrow> dep_state" where
  "replace_2 k s = (if k = 5 then s\<lparr>dep_maps := (dep_maps s)(2 \<mapsto> plugin_map\<lparr>dm_serial := 3\<rparr>)\<rparr> else s)"

theorem add_dependency_keeps_witness:
  "dep_outcome 1 2 2 plugin_state (add_dependency (Some 0x100) (\<lambda>_. 0) (\<lambda>_ s. s) False 1 2 plugin_state)
   \<and> (\<exists>k \<le> 5. dep_outcome 1 2 2 (after replace_2 k plugin_state) (add_dependency (Some 0x100) (\<lambda>_. 0) replace_2 True 1 2 plugin_state))"
proof -
  have p: "dep_maps plugin_state 2 = Some (plugin_map\<lparr>dm_serial := 2\<rparr>)"
      "dm_type (plugin_map\<lparr>dm_serial := 2\<rparr>) = lt_loaded" "dm_serial (plugin_map\<lparr>dm_serial := 2\<rparr>) = 2"
    by (simp_all add: plugin_state_def plugin_map_def)
  have same: "after (\<lambda>_ s. s) k plugin_state = plugin_state" for k by (induction k) simp_all
  have early: "after replace_2 k plugin_state = plugin_state" if "k < 5" for k
    using that by (induction k) (simp_all add: replace_2_def)
  have five: "after replace_2 5 plugin_state = replace_2 5 plugin_state"
    using early [of 4] by (simp add: numeral_eq_Suc)
  have step: "scope_step 1 2 2 plugin_state plugin_state"
    by (simp add: scope_step_def plugin_state_def plugin_map_def dep_ok_def)
  have r: "rely 1 plugin_state plugin_state" "rely 1 plugin_state (replace_2 5 plugin_state)"
    by (simp_all add: rely_def replace_2_def plugin_state_def plugin_map_def dep_ok_def deps_def initfini_list_def used_def arrays_def)
  have "replace_2 (Suc k) plugin_state = plugin_state" if "k < 4" for k using that by (simp add: replace_2_def)
  then show ?thesis
    using add_dependency_keeps [OF p(1,2), where interfere = "\<lambda>_ s. s" and gscope = False and newp = "Some 0x100" and junk = "\<lambda>_. 0" and u = 1]
      add_dependency_keeps [OF p(1,2), where interfere = replace_2 and gscope = True and newp = "Some 0x100" and junk = "\<lambda>_. 0" and u = 1] r p(3) step
    by (simp add: same early five)
qed

end
