(* ===== verification/Dl_Resolve.thy ===== *)
theory Dl_Resolve
  imports Dl_Runtime Dl_Dependency
begin

text \<open>
  The resolver with the loader's own symbol lookup: the parameter of \<open>Dl_Runtime\<close> for
  \<^verbatim>\<open>_dl_lookup_symbol_x\<close> is the routine of \<open>Dl_Lookup\<close>.
\<close>

text \<open>The version of a reference, from the table of version indexes of its object; a version with the hash
  zero is none. A lookup of the loader itself has no reference and no version.\<close>

definition fixup_version :: "lk_map \<Rightarrow> nat \<Rightarrow> found_version option result" where
  "fixup_version mp symidx =
     (case l_versyms mp of
        None \<Rightarrow> Inr None
      | Some vernum \<Rightarrow>
          bind_result (get vernum symidx) (\<lambda>ndx.
          bind_result (get (l_versions mp) (ndx mod 2 ^ 15)) (\<lambda>version.
          Inr (if fv_hash version = 0 then None else Some version))))"

definition reference_version :: "lk_maps \<Rightarrow> symref option \<Rightarrow> found_version option result" where
  "reference_version lmaps r = (case r of None \<Rightarrow> Inr None | Some (m, i) \<Rightarrow> fixup_version (lmaps m) i)"

text \<open>The call of \<^verbatim>\<open>_dl_lookup_symbol_x\<close> in \<^verbatim>\<open>_dl_fixup\<close>: \<open>ref\<close> gives the symbol of
  the reference, \<open>scope\<close> the scopes of an object. The symbol pointer comes back null when nothing is found for a weak
  reference. Otherwise \<^verbatim>\<open>_dl_signal_cerror\<close> is called, which ends the program with status 127 unless there is a
  receiver; then the pointer is null, too.\<close>

definition fixup_request :: "(string \<Rightarrow> nat \<Rightarrow> symref option) \<Rightarrow> found_version option \<Rightarrow> string \<Rightarrow> nat \<Rightarrow> request" where
  "fixup_request ref version name l = \<lparr>rq_name = name, rq_ref = ref name l, rq_version = version, rq_newest = False,
     rq_class = ELF_RTYPE_CLASS_PLT, rq_skip = None, rq_undef_map = Some l\<rparr>"

definition fixup_sym :: "Sym \<Rightarrow> elf_sym" where
  "fixup_sym s = \<lparr>elf_sym.st_value = Sym.st_value s, st_visibility = Sym.st_visibility s, st_ifunc = (st_type s = 10)\<rparr>"

definition fixup_lookup ::
  "bool \<Rightarrow> nat \<Rightarrow> arch \<Rightarrow> lk_maps \<Rightarrow> (nat \<Rightarrow> nat option \<Rightarrow> nat \<Rightarrow> bool) \<Rightarrow> (string \<Rightarrow> nat \<Rightarrow> symref option) \<Rightarrow>
   (nat \<Rightarrow> nat list list) \<Rightarrow> lk_state \<Rightarrow> link_map list \<Rightarrow> string \<Rightarrow> nat \<Rightarrow> (u64 \<times> elf_sym) option result" where
  "fixup_lookup receiver fuel A lmaps add_dep ref scope lst maps name l =
     bind_result (reference_version lmaps (ref name l)) (\<lambda>version.
     bind_result (dl_lookup_symbol_x fuel A False lmaps add_dep True (scope l) (fixup_request ref version name l) (scope l) lst)
       (\<lambda>((err, found), _).
         if err \<noteq> None \<and> \<not> receiver then Inl (Exit 127)
         else Inr (case found of
                     (Some r, Some m) \<Rightarrow> Some (l_addr (maps ! m), fixup_sym (ref_sym lmaps r))
                   | _ \<Rightarrow> None)))"

lemma fixup_lookup_first:
  assumes "\<forall>s \<in> set (scope l). s \<noteq> []" "scope_ok A lmaps (fixup_request ref version name l) (concat (scope l))"
    and "case ref name l of None \<Rightarrow> True | Some r \<Rightarrow> Sym.st_visibility (ref_sym lmaps r) \<noteq> STV_PROTECTED"
    and "\<forall>m. lk_type (lmaps m) = lt_loaded \<longrightarrow> add_dep fuel (Some l) m"
    and "first_definition lmaps (fixup_request ref version name l) (concat (scope l)) = Some (m, i)"
    and "reference_version lmaps (ref name l) = Inr version"
  shows "fixup_lookup receiver (Suc fuel) A lmaps add_dep ref scope lst maps name l =
    Inr (Some (l_addr (maps ! m), fixup_sym (l_symtab (lmaps m) ! i)))"
proof -
  have "case rq_ref (fixup_request ref version name l) of None \<Rightarrow> True | Some r \<Rightarrow> Sym.st_visibility (ref_sym lmaps r) \<noteq> STV_PROTECTED"
    using assms(3) by (simp add: fixup_request_def)
  then show ?thesis
    unfolding fixup_lookup_def assms(6) bind_result.simps
    by (subst lookup_first [OF assms(1,2)]) (use assms(4,5) in \<open>auto simp: fixup_request_def ref_sym_def\<close>)
qed

text \<open>C5. From the reference to the wrapper: resolving the first call of a profiled function with the loader's
  own lookup, in scopes of objects with well-formed GNU hash tables, gives the caller the redirector, and
  executing it arrives at the wrapper with the address of the first definition in the scopes of the
  caller: the load address of the object that has it plus the value of its symbol. When the reference has a
  version, the definition has a fitting one.\<close>

theorem profiled_symbol_resolution:
  assumes "fixup_env_ok A env v os" "fixup_inv A env v os st" "r_name reloc \<in> set (fn_words v)"
    and "r_jmp_slot reloc" "elf_sym.st_visibility (r_symbol reloc) = 0" "\<not> dl_bind_not os"
    and "getLibMap ELFPERF_LIB_NAME maps l \<noteq> None" "\<not> errorDuringElfperfFunctionLoad st"
    and "\<not> has_name ELFPERF_LIBC_NAME (maps ! l)" "\<not> has_name ELFPERF_LIB_NAME (maps ! l)"
      "\<not> has_name ELFPERF_LIBDL_NAME (maps ! l)"
    and "elfperfFuncs st \<noteq> None \<or> (\<exists>fs. getElfperfFunctions A os maps l = Inr (Some fs))"
    and "fx_lookup os = fixup_lookup receiver (Suc fuel) A lmaps add_dep ref scope lst maps"
    and "\<forall>s \<in> set (scope l). s \<noteq> []" "scope_ok A lmaps (fixup_request ref version (r_name reloc) l) (concat (scope l))"
    and "case ref (r_name reloc) l of None \<Rightarrow> True | Some r \<Rightarrow> Sym.st_visibility (ref_sym lmaps r) \<noteq> STV_PROTECTED"
    and "\<forall>m. lk_type (lmaps m) = lt_loaded \<longrightarrow> add_dep fuel (Some l) m"
    and "first_definition lmaps (fixup_request ref version (r_name reloc) l) (concat (scope l)) = Some (m, i)"
    and "st_type (l_symtab (lmaps m) ! i) \<noteq> 10" "f = to_ptr A (l_addr (maps ! m) + Sym.st_value (l_symtab (lmaps m) ! i))"
    and "unat f < address_limit A" "\<not> (initialized st \<and> registered A st (r_name reloc))"
    and "reference_version lmaps (ref (r_name reloc) l) = Inr version"
  shows "\<exists>st' r. dl_fixup A env os maps l reloc st = Inr (r, st') \<and> fx_got st' (r_addr reloc) = r \<and>
           rrun A (vm_mem (fx_vm st')) (case A of ARCH_32 \<Rightarrow> 2 | ARCH_64 \<Rightarrow> 5) \<lparr>ip = r, ax = x, stk = s\<rparr> =
             Some (case A of ARCH_32 \<Rightarrow> \<lparr>ip = fx_wrapper os, ax = x, stk = f # s\<rparr>
                           | ARCH_64 \<Rightarrow> \<lparr>ip = fx_wrapper os, ax = fx_wrapper os, stk = f # x # s\<rparr>)"
proof -
  have "symbol_value A os (fx_lookup os (r_name reloc) l) = Inr f"
    using fixup_lookup_first [of scope l A lmaps ref version "r_name reloc" add_dep fuel m i receiver lst maps, OF assms(14-18,23)] assms(13,19,20)
    by (simp add: symbol_value_def fixup_sym_def)
  from fixup_redirected [OF assms(1-12) this assms(21) refl, of x s]
  obtain st' r where "dl_fixup A env os maps l reloc st = Inr (r, st')" "fx_got st' = (fx_got st)(r_addr reloc := r)"
      "rrun A (vm_mem (fx_vm st')) (case A of ARCH_32 \<Rightarrow> 2 | ARCH_64 \<Rightarrow> 5) \<lparr>ip = r, ax = x, stk = s\<rparr> =
         Some (case A of ARCH_32 \<Rightarrow> \<lparr>ip = fx_wrapper os, ax = x, stk = f # s\<rparr>
                       | ARCH_64 \<Rightarrow> \<lparr>ip = fx_wrapper os, ax = fx_wrapper os, stk = f # x # s\<rparr>)"
    unfolding if_not_P [OF assms(22)] by blast
  then show ?thesis by simp
qed

text \<open>The library \<^verbatim>\<open>libfoo.so\<close> calls \<open>f\<close>, which the second object of its scope defines.\<close>

definition resolve_state :: lk_state where
  "resolve_state = \<lparr>lk_unique = (\<lambda>_. \<lparr>ut_entries = None, ut_n_elements = 0\<rparr>), lk_nodelete = (\<lambda>_. False), lk_used = (\<lambda>_. False)\<rparr>"

definition resolve_os :: fixup_os where
  "resolve_os = example_fixup_os\<lparr>fx_lookup := fixup_lookup False 1 ARCH_64 lk_example (\<lambda>_ _ _. True) (\<lambda>_ _. Some (0, 1))
     (\<lambda>_. [[0, 1]]) resolve_state example_maps\<rparr>"

definition resolve_fixup_state :: fixup_state where
  "resolve_fixup_state = example_fixup_state\<lparr>elfperfFuncs := Some \<lparr>f_wrapper = 0, f_initWrapperRedirectors = 1, f_addNewFunction = 2,
     f_isFunctionRedirectorRegistered = 3, f_isFunctionInFunctionList = 4, f_getRedirectorAddressForName = 5\<rparr>\<rparr>"

lemma resolve_request:
  "first_definition lk_example (fixup_request (\<lambda>_ _. Some (0, 1)) None ''f'' 2) [0, 1] = Some (1, 1)"
  "scope_ok ARCH_64 lk_example (fixup_request (\<lambda>_ _. Some (0, 1)) None ''f'' 2) [0, 1]"
proof -
  let ?rq = "fixup_request (\<lambda>_ _. Some (0, 1)) None ''f'' 2"
  have skip: "skipped lk_example ?rq = skipped lk_example lk_request"
    by (auto simp: fun_eq_iff skipped_def is_copy_def fixup_request_def lk_request_def)
  have "rq_name ?rq = ''f''" by (simp add: fixup_request_def)
  then have s: "searched lk_example ?rq [0, 1] = [1]" "definition_in lk_example ?rq 1 = Some 1"
    using lk_example_ok(1) lk_example_defines [of 1 ?rq] unfolding searched_def skip by simp_all
  show "first_definition lk_example ?rq [0, 1] = Some (1, 1)"
    using s by (simp add: first_definition_def)
  show "scope_ok ARCH_64 lk_example ?rq [0, 1]"
    using s lk_example_ok(3) by (simp add: scope_ok_def plain_request_def)
      (simp add: fixup_request_def lk_example_def lk_object_def lk_sym_def)
qed

theorem profiled_symbol_resolution_witness:
  "\<exists>st' r. dl_fixup ARCH_64 example_environ resolve_os example_maps 2 (example_reloc ''f'' 0) resolve_fixup_state = Inr (r, st') \<and>
     fx_got st' 0x9000 = r \<and>
     rrun ARCH_64 (vm_mem (fx_vm st')) 5 \<lparr>ip = r, ax = 7, stk = [42]\<rparr> = Some \<lparr>ip = 0x7000, ax = 0x7000, stk = [0x1500, 7, 42]\<rparr>"
proof -
  have e: "fixup_env_ok ARCH_64 example_environ ''f:g'' resolve_os"
      "fixup_inv ARCH_64 example_environ ''f:g'' resolve_os resolve_fixup_state"
    using example_fixup_env(1,2) by (simp_all add: fixup_env_ok_def resolve_os_def fixup_inv_def resolve_fixup_state_def)
      (simp add: example_fixup_state_def)
  have r: "r_name (example_reloc ''f'' 0) = ''f''" "r_jmp_slot (example_reloc ''f'' 0)"
      "elf_sym.st_visibility (r_symbol (example_reloc ''f'' 0)) = 0" "\<not> dl_bind_not resolve_os"
      "\<not> errorDuringElfperfFunctionLoad resolve_fixup_state" "elfperfFuncs resolve_fixup_state \<noteq> None"
      "\<not> initialized resolve_fixup_state" "fx_wrapper resolve_os = 0x7000" "r_addr (example_reloc ''f'' 0) = 0x9000"
      "fx_lookup resolve_os = fixup_lookup False (Suc 0) ARCH_64 lk_example (\<lambda>_ _ _. True) (\<lambda>_ _. Some (0, 1)) (\<lambda>_. [[0, 1]]) resolve_state example_maps"
    by (simp_all add: example_reloc_def resolve_os_def example_fixup_os_def resolve_fixup_state_def example_fixup_state_def)
  have f: "Sym.st_visibility (ref_sym lk_example (0, 1)) \<noteq> STV_PROTECTED" "st_type (l_symtab (lk_example 1) ! 1) \<noteq> 10"
      "to_ptr ARCH_64 (l_addr (example_maps ! 1) + Sym.st_value (l_symtab (lk_example 1) ! 1)) = 0x1500"
    by (simp_all add: ref_sym_def lk_example_def lk_object_def lk_sym_def STV_PROTECTED_def example_maps_def)
  have "reference_version lk_example (Some (0, 1)) = Inr None"
    by (simp add: reference_version_def fixup_version_def lk_example_def lk_object_def)
  then show ?thesis
    using profiled_symbol_resolution [of ARCH_64 example_environ "''f:g''" resolve_os resolve_fixup_state "example_reloc ''f'' 0"
        example_maps 2 False 0 lk_example "\<lambda>_ _ _. True" "\<lambda>_ _. Some (0, 1)" "\<lambda>_. [[0, 1]]" resolve_state None 1 1 "0x1500" 7 "[42]"]
      e r f resolve_request example_fixup_env(3-6) by simp
qed

end
