(* ===== verification/Dl_Audit.thy ===== *)
theory Dl_Audit
  imports Dl_Resolve
begin

text \<open>
  The resolver of programs that are run under \<^verbatim>\<open>LD_AUDIT\<close> or \<^verbatim>\<open>LD_PROFILE\<close>, \<^verbatim>\<open>_dl_profile_fixup\<close> and
  \<^verbatim>\<open>_dl_call_pltexit\<close> of \<^verbatim>\<open>eglibc-2.11.3/elf/dl-runtime.c\<close>: it replaces \<^verbatim>\<open>_dl_fixup\<close>, is entered at every call,
  remembers what it has found, and lets the auditing libraries change and watch the bindings.
\<close>

unbundle bit_operations_syntax

section \<open>Auditors\<close>

definition LA_FLG_BINDTO :: u32 where "LA_FLG_BINDTO = 0x01"
definition LA_FLG_BINDFROM :: u32 where "LA_FLG_BINDFROM = 0x02"
definition LA_SYMB_NOPLTENTER :: u32 where "LA_SYMB_NOPLTENTER = 0x01"
definition LA_SYMB_NOPLTEXIT :: u32 where "LA_SYMB_NOPLTEXIT = 0x02"
definition LA_SYMB_DLSYM :: u32 where "LA_SYMB_DLSYM = 0x08"
definition LA_SYMB_ALTVALUE :: u32 where "LA_SYMB_ALTVALUE = 0x10"
definition DL_NNS :: nat where "DL_NNS = 16"

lemmas audit_flags = LA_SYMB_NOPLTENTER_def LA_SYMB_NOPLTEXIT_def

text \<open>What the loader passes to an auditor: the copy of the symbol, its index, the object with the
  reference, the one with the definition, and the name.\<close>

record audit_call =
  ac_sym :: Sym
  ac_ndx :: u32
  ac_from :: nat
  ac_to :: nat
  ac_name :: string

text \<open>The functions of an auditing library, of \<^verbatim>\<open>struct audit_ifaces\<close>. They see and change the flags, the copy of
  the symbol and their own memory \<open>'w\<close>, which holds the cookies and the saved registers, too. The entry
  function also gives a frame size, which is \<open>- 1\<close> before the call.\<close>

record 'w auditor =
  symbind :: "(audit_call \<Rightarrow> u32 \<Rightarrow> 'w \<Rightarrow> u64 \<times> Sym \<times> u32 \<times> 'w) option"
  pltenter :: "(audit_call \<Rightarrow> u32 \<Rightarrow> int \<Rightarrow> 'w \<Rightarrow> u64 \<times> Sym \<times> u32 \<times> int \<times> 'w) option"
  pltexit :: "(audit_call \<Rightarrow> 'w \<Rightarrow> Sym \<times> 'w) option"

text \<open>A call of \<open>symbind\<close>: the value that it returns becomes the value of the symbol, and the flag
  \<^verbatim>\<open>LA_SYMB_ALTVALUE\<close> tells the next ones that it has been changed.\<close>

definition new_value :: "u64 \<Rightarrow> Sym \<Rightarrow> u32 \<Rightarrow> Sym \<times> u32" where
  "new_value v s altvalue = (if v \<noteq> st_value s then (s\<lparr>st_value := v\<rparr>, LA_SYMB_ALTVALUE) else (s, altvalue))"

definition call_symbind ::
  "'w auditor \<Rightarrow> audit_call \<Rightarrow> u32 \<Rightarrow> u32 \<Rightarrow> Sym \<Rightarrow> 'w \<Rightarrow> u32 \<times> u32 \<times> Sym \<times> 'w" where
  "call_symbind a call flags altvalue s w =
     (case symbind a of
        None \<Rightarrow> (flags, altvalue, s, w)
      | Some f \<Rightarrow>
          (let (v, s1, flags1, w1) = f (call\<lparr>ac_sym := s\<rparr>) flags w;
               (s2, altvalue2) = new_value v s1 altvalue
           in (flags1, altvalue2, s2, w1)))"

section \<open>Binding\<close>

text \<open>The result of a relocation, \<^verbatim>\<open>struct reloc_result\<close>.\<close>

record reloc_result =
  rr_addr :: u64
  rr_bound :: "nat option"
  rr_boundndx :: u32
  rr_enterexit :: u32
  rr_flags :: u32

text \<open>The auditors in turn: \<open>bfrom\<close> and \<open>bto\<close> give the bind flags of the two objects for each of them. The bits
  of \<open>ee\<close> record which of them want to see the call; two of them hold the summary.\<close>

fun symbind_loop ::
  "(nat \<Rightarrow> u32) \<Rightarrow> (nat \<Rightarrow> u32) \<Rightarrow> audit_call \<Rightarrow> 'w auditor list \<Rightarrow> nat \<Rightarrow> u32 \<times> Sym \<times> u32 \<times> 'w \<Rightarrow> u32 \<times> Sym \<times> u32 \<times> 'w" where
  "symbind_loop bfrom bto call [] cnt st = st"
| "symbind_loop bfrom bto call (a # as) cnt (altvalue, s, ee, w) =
     (if bfrom cnt AND LA_FLG_BINDFROM \<noteq> 0 \<and> bto cnt AND LA_FLG_BINDTO \<noteq> 0
      then let (flags, altvalue1, s1, w1) = call_symbind a call altvalue altvalue s w;
               ee1 = ee AND (flags AND (LA_SYMB_NOPLTENTER OR LA_SYMB_NOPLTEXIT));
               ee2 = ee1 OR push_bit ((cnt + 1) * 2) (flags AND (LA_SYMB_NOPLTENTER OR LA_SYMB_NOPLTEXIT))
           in symbind_loop bfrom bto call as (cnt + 1) (altvalue1, s1, ee2, w1)
      else symbind_loop bfrom bto call as (cnt + 1)
             (altvalue, s, ee OR push_bit ((cnt + 1) * 2) (LA_SYMB_NOPLTENTER OR LA_SYMB_NOPLTEXIT), w))"

text \<open>
  The parameters and the tables that the resolver reads: objects, load addresses, scopes, bind flags by object and
  auditor; what an indirect function returns; whether \<^verbatim>\<open>_dl_signal_cerror\<close> has a receiver, without which an
  error of the lookup ends the program with status 127.
\<close>

record 'w profile_os =
  pf_arch :: arch
  pf_fuel :: nat
  pf_maps :: lk_maps
  pf_addr :: "nat \<Rightarrow> u64"
  pf_scope :: "nat \<Rightarrow> nat list list"
  pf_add_dependency :: "nat \<Rightarrow> nat option \<Rightarrow> nat \<Rightarrow> bool"
  pf_dynamic_weak :: bool
  pf_receiver :: bool
  pf_ifunc :: "u64 \<Rightarrow> u64"
  pf_bind_not :: bool
  pf_audit :: "'w auditor list"
  l_audit_any_plt :: "nat \<Rightarrow> bool"
  bindflags :: "nat \<Rightarrow> nat \<Rightarrow> u32"

record 'w profile_state =
  l_reloc_result :: "nat \<Rightarrow> nat \<Rightarrow> reloc_result"
  pf_lookup :: lk_state
  pf_memory :: 'w
  pf_mcount :: "(u64 \<times> u64) list"

record profile_reloc =
  reloc_index :: nat
  pr_jmp_slot :: bool
  pr_symidx :: nat

definition STT_GNU_IFUNC :: nat where "STT_GNU_IFUNC = 10"

definition indirect :: "(u64 \<Rightarrow> u64) \<Rightarrow> Sym \<Rightarrow> u64 \<Rightarrow> u64" where
  "indirect ifunc s value = (if st_type s = STT_GNU_IFUNC then ifunc value else value)"

text \<open>The value of the target, and where it is defined if anywhere.\<close>

definition profile_lookup ::
  "'w profile_os \<Rightarrow> nat \<Rightarrow> profile_reloc \<Rightarrow> lk_state \<Rightarrow> (u64 \<times> (symref \<times> nat) option \<times> lk_state) result" where
  "profile_lookup os l reloc lst =
     bind_result (get (l_symtab (pf_maps os l)) (pr_symidx reloc)) (\<lambda>refsym.
       if st_visibility refsym = 0
       then bind_result (fixup_version (pf_maps os l) (pr_symidx reloc)) (\<lambda>version.
            bind_result
              (dl_lookup_symbol_x (pf_fuel os) (pf_arch os) (pf_dynamic_weak os) (pf_maps os) (pf_add_dependency os) True (pf_scope os l)
                 \<lparr>rq_name = st_name refsym, rq_ref = Some (l, pr_symidx reloc), rq_version = version, rq_newest = False,
                  rq_class = ELF_RTYPE_CLASS_PLT, rq_skip = None, rq_undef_map = Some l\<rparr>
                 (pf_scope os l) lst)
              (\<lambda>((err, defsym, res), lst1).
                 if err \<noteq> None \<and> \<not> pf_receiver os then Inl (Exit 127)
                 else Inr (case (defsym, res) of
                             (Some r, Some m) \<Rightarrow>
                               (indirect (pf_ifunc os) (ref_sym (pf_maps os) r)
                                  (to_ptr (pf_arch os) (pf_addr os m + st_value (ref_sym (pf_maps os) r))),
                                Some (r, m), lst1)
                           | _ \<Rightarrow> (0, None, lst1))))
       else Inr (indirect (pf_ifunc os) refsym (to_ptr (pf_arch os) (pf_addr os l + st_value refsym)), Some ((l, pr_symidx reloc), l), lst))"

text \<open>The auditing checkpoint of a new binding.\<close>

definition audit_bind ::
  "'w profile_os \<Rightarrow> nat \<Rightarrow> (symref \<times> nat) option \<Rightarrow> u64 \<Rightarrow> reloc_result \<Rightarrow> 'w \<Rightarrow> u64 \<times> reloc_result \<times> 'w" where
  "audit_bind os l found value rr w =
     (case found of
        None \<Rightarrow> (value, rr, w)
      | Some (r, m) \<Rightarrow>
          if pf_audit os = [] then (value, rr, w)
          else let rr1 = rr\<lparr>rr_bound := Some m, rr_boundndx := of_nat (snd r)\<rparr>
               in if l_audit_any_plt os l \<or> l_audit_any_plt os m
                  then let s = (ref_sym (pf_maps os) r)\<lparr>st_value := value\<rparr>;
                           (altvalue, s1, ee, w1) =
                             symbind_loop (bindflags os l) (bindflags os m)
                               \<lparr>ac_sym = s, ac_ndx = rr_boundndx rr1, ac_from = l, ac_to = m, ac_name = st_name (ref_sym (pf_maps os) r)\<rparr>
                               (pf_audit os) 0 (0, s, LA_SYMB_NOPLTENTER OR LA_SYMB_NOPLTEXIT, w)
                       in (st_value s1, rr1\<lparr>rr_enterexit := ee, rr_flags := altvalue\<rparr>, w1)
                  else (value, rr1\<lparr>rr_enterexit := push_bit DL_NNS 1 - 1\<rparr>, w))"

definition profile_bind ::
  "'w profile_os \<Rightarrow> nat \<Rightarrow> profile_reloc \<Rightarrow> 'w profile_state \<Rightarrow> (u64 \<times> 'w profile_state) result" where
  "profile_bind os l reloc st =
     (if \<not> pr_jmp_slot reloc then Inl AssertFailed
      else bind_result (profile_lookup os l reloc (pf_lookup st)) (\<lambda>(value, found, lst1).
        let (value1, rr, w1) = audit_bind os l found value (l_reloc_result st l (reloc_index reloc)) (pf_memory st);
            rr1 = (if pf_bind_not os then rr else rr\<lparr>rr_addr := value1\<rparr>)
        in Inr (value1, st\<lparr>l_reloc_result := (l_reloc_result st)(l := (l_reloc_result st l)(reloc_index reloc := rr1)),
                          pf_lookup := lst1, pf_memory := w1\<rparr>)))"

section \<open>Entering a function\<close>

definition merge_framesize :: "int \<Rightarrow> int \<Rightarrow> int" where
  "merge_framesize new_framesize framesize =
     (if framesize = - 1 then new_framesize
      else if new_framesize \<noteq> framesize then max new_framesize framesize else framesize)"

fun pltenter_loop ::
  "audit_call \<Rightarrow> 'w auditor list \<Rightarrow> nat \<Rightarrow> u32 \<times> Sym \<times> u32 \<times> int \<times> 'w \<Rightarrow> u32 \<times> Sym \<times> u32 \<times> int \<times> 'w" where
  "pltenter_loop call [] cnt st = st"
| "pltenter_loop call (a # as) cnt (altvalue, s, ee, framesize, w) =
     pltenter_loop call as (cnt + 1)
       (case pltenter a of
          None \<Rightarrow> (altvalue, s, ee, framesize, w)
        | Some f \<Rightarrow>
            if ee AND push_bit (2 * (cnt + 1)) LA_SYMB_NOPLTENTER \<noteq> 0 then (altvalue, s, ee, framesize, w)
            else let (v, s1, flags, new_framesize, w1) = f (call\<lparr>ac_sym := s\<rparr>) altvalue (- 1) w;
                     (s2, altvalue1) = new_value v s1 altvalue;
                     ee1 = ee OR push_bit (2 * (cnt + 1)) (flags AND (LA_SYMB_NOPLTENTER OR LA_SYMB_NOPLTEXIT));
                     framesize1 =
                       (if ee1 AND push_bit (2 * (cnt + 1)) LA_SYMB_NOPLTEXIT = 0 \<and> new_framesize \<noteq> - 1 \<and> framesize \<noteq> - 2
                        then merge_framesize new_framesize framesize else framesize)
                 in (altvalue1, s2, ee1, framesize1, w1))"

text \<open>The symbol that a result records; an index is taken in the table of the object that it names.\<close>

definition bound_sym :: "lk_maps \<Rightarrow> reloc_result \<Rightarrow> (nat \<times> Sym) result" where
  "bound_sym maps rr =
     (case rr_bound rr of
        None \<Rightarrow> Inl SegFault
      | Some m \<Rightarrow> bind_result (get (l_symtab (maps m)) (unat (rr_boundndx rr))) (\<lambda>s. Inr (m, s)))"

definition profile_enter ::
  "'w profile_os \<Rightarrow> nat \<Rightarrow> u64 \<Rightarrow> reloc_result \<Rightarrow> 'w \<Rightarrow> (u64 \<times> int \<times> reloc_result \<times> 'w) result" where
  "profile_enter os l value rr w =
     (if value \<noteq> 0 \<and> pf_audit os \<noteq> [] \<and> rr_enterexit rr AND LA_SYMB_NOPLTENTER = 0
      then bind_result (bound_sym (pf_maps os) rr) (\<lambda>(m, defsym).
             let s = defsym\<lparr>st_value := value\<rparr>;
                 (altvalue, s1, ee, framesize, w1) =
                   pltenter_loop \<lparr>ac_sym = s, ac_ndx = rr_boundndx rr, ac_from = l, ac_to = m, ac_name = st_name s\<rparr>
                     (pf_audit os) 0 (rr_flags rr, s, rr_enterexit rr, - 1, w)
             in Inr (st_value s1, framesize, rr\<lparr>rr_enterexit := ee\<rparr>, w1))
      else Inr (value, - 1, rr, w))"

definition dl_profile_fixup ::
  "'w profile_os \<Rightarrow> nat \<Rightarrow> profile_reloc \<Rightarrow> u64 \<Rightarrow> 'w profile_state \<Rightarrow> (u64 \<times> int \<times> 'w profile_state) result" where
  "dl_profile_fixup os l reloc retaddr st =
     (let value = rr_addr (l_reloc_result st l (reloc_index reloc))
      in bind_result (if value = 0 then profile_bind os l reloc st else Inr (value, st)) (\<lambda>(value1, st1).
         bind_result (profile_enter os l value1 (l_reloc_result st1 l (reloc_index reloc)) (pf_memory st1))
           (\<lambda>(value2, framesize, rr, w).
             Inr (value2, framesize,
                  st1\<lparr>l_reloc_result := (l_reloc_result st1)(l := (l_reloc_result st1 l)(reloc_index reloc := rr)),
                      pf_memory := w, pf_mcount := pf_mcount st1 @ [(retaddr, value2)]\<rparr>))))"

section \<open>Leaving a function\<close>

text \<open>The test shifts \<^verbatim>\<open>LA_SYMB_NOPLTEXIT\<close> to the right.\<close>

fun pltexit_loop :: "audit_call \<Rightarrow> 'w auditor list \<Rightarrow> nat \<Rightarrow> u32 \<Rightarrow> Sym \<times> 'w \<Rightarrow> Sym \<times> 'w" where
  "pltexit_loop call [] cnt ee st = st"
| "pltexit_loop call (a # as) cnt ee (s, w) =
     pltexit_loop call as (cnt + 1) ee
       (case pltexit a of
          None \<Rightarrow> (s, w)
        | Some f \<Rightarrow> if ee AND drop_bit (2 * cnt) LA_SYMB_NOPLTEXIT = 0 then f (call\<lparr>ac_sym := s\<rparr>) w else (s, w))"

definition dl_call_pltexit ::
  "'w profile_os \<Rightarrow> nat \<Rightarrow> profile_reloc \<Rightarrow> 'w profile_state \<Rightarrow> 'w profile_state result" where
  "dl_call_pltexit os l reloc st =
     (let rr = l_reloc_result st l (reloc_index reloc)
      in bind_result (bound_sym (pf_maps os) rr) (\<lambda>(m, defsym).
           let s = defsym\<lparr>st_value := rr_addr rr\<rparr>;
               (s1, w) = pltexit_loop \<lparr>ac_sym = s, ac_ndx = rr_boundndx rr, ac_from = l, ac_to = m, ac_name = st_name s\<rparr>
                           (pf_audit os) 0 (rr_enterexit rr) (s, pf_memory st)
           in Inr (st\<lparr>pf_memory := w\<rparr>)))"

section \<open>What the auditors answer\<close>

text \<open>The answers of the auditors to a new binding: nothing from one that is not interested in the two objects.\<close>

fun symbind_answers ::
  "(nat \<Rightarrow> u32) \<Rightarrow> (nat \<Rightarrow> u32) \<Rightarrow> audit_call \<Rightarrow> 'w auditor list \<Rightarrow> nat \<Rightarrow> u32 \<times> Sym \<times> 'w \<Rightarrow> u32 option list" where
  "symbind_answers bfrom bto call [] cnt st = []"
| "symbind_answers bfrom bto call (a # as) cnt (altvalue, s, w) =
     (if bfrom cnt AND LA_FLG_BINDFROM \<noteq> 0 \<and> bto cnt AND LA_FLG_BINDTO \<noteq> 0
      then let (flags, altvalue1, s1, w1) = call_symbind a call altvalue altvalue s w
           in Some flags # symbind_answers bfrom bto call as (cnt + 1) (altvalue1, s1, w1)
      else None # symbind_answers bfrom bto call as (cnt + 1) (altvalue, s, w))"

lemma length_symbind_answers [simp]: "length (symbind_answers bfrom bto call as cnt st) = length as"
  by (induction bfrom bto call as cnt st rule: symbind_answers.induct) (auto split: prod.split simp: Let_def)

text \<open>How the loop packs the answers, as a function of the answers alone.\<close>

fun pack_answers :: "u32 option list \<Rightarrow> nat \<Rightarrow> u32 \<Rightarrow> u32" where
  "pack_answers [] cnt ee = ee"
| "pack_answers (Some flags # fs) cnt ee =
     pack_answers fs (cnt + 1) (ee AND (flags AND 3) OR push_bit ((cnt + 1) * 2) (flags AND 3))"
| "pack_answers (None # fs) cnt ee = pack_answers fs (cnt + 1) (ee OR push_bit ((cnt + 1) * 2) 3)"

lemma both_flags: "LA_SYMB_NOPLTENTER OR LA_SYMB_NOPLTEXIT = 3"
  by (simp add: audit_flags)

lemma symbind_loop_pack:
  "fst (snd (snd (symbind_loop bfrom bto call as cnt (altvalue, s, ee, w)))) =
     pack_answers (symbind_answers bfrom bto call as cnt (altvalue, s, w)) cnt ee"
  by (induction as arbitrary: cnt altvalue s ee w) (auto simp: both_flags Let_def split: prod.split)

lemma bit_three: "bit (3 :: u32) i \<longleftrightarrow> i < 2" "bit (3 :: int) i \<longleftrightarrow> i < 2"
  by (cases i; cases "i - 1"; simp add: bit_Suc)+

lemma bit_pair: "bit (push_bit n (x AND 3) :: u32) i \<longleftrightarrow> i < 32 \<and> (\<exists>b < 2. i = n + b \<and> bit x b)"
proof -
  have "(\<exists>b < 2. i = n + b \<and> bit x b) \<longleftrightarrow> n \<le> i \<and> i - n < 2 \<and> bit x (i - n)"
    by (auto intro: exI [of _ "i - n"])
  then show ?thesis by (auto simp: bit_push_bit_iff bit_and_iff bit_three)
qed

lemma bit_both: "bit (push_bit n 3 :: u32) i \<longleftrightarrow> i < 32 \<and> (\<exists>b < 2. i = n + b)"
  using bit_pair [of n "- 1" i] by (auto simp: bit_minus_1_iff)

text \<open>Which bits are set at the end: \<open>packed_at\<close> is for the two bits of one auditor.\<close>

definition packed_at :: "u32 option list \<Rightarrow> nat \<Rightarrow> nat \<Rightarrow> bool" where
  "packed_at fs k b \<longleftrightarrow> set (drop (Suc k) fs) \<subseteq> {None} \<and> (case fs ! k of None \<Rightarrow> True | Some f \<Rightarrow> bit f b)"

lemma packed_Cons:
  "(\<exists>k < length (f # fs). \<exists>b < 2. i = 2 * (cnt + k + 1) + b \<and> packed_at (f # fs) k b) \<longleftrightarrow>
   (\<exists>b < 2. i = 2 * (cnt + 1) + b \<and> set fs \<subseteq> {None} \<and> (case f of None \<Rightarrow> True | Some x \<Rightarrow> bit x b)) \<or>
   (\<exists>k < length fs. \<exists>b < 2. i = 2 * (cnt + 1 + k + 1) + b \<and> packed_at fs k b)"
  by (subst length_Cons, subst Ex_less_Suc2) (auto simp: packed_at_def)

lemma pack_bits:
  assumes "cnt + length fs \<le> 15"
  shows "bit (pack_answers fs cnt ee) i \<longleftrightarrow>
    (if i < 2 then bit ee i \<and> (\<forall>f. Some f \<in> set fs \<longrightarrow> bit f i)
     else bit ee i \<and> set fs \<subseteq> {None}
          \<or> (\<exists>k < length fs. \<exists>b < 2. i = 2 * (cnt + k + 1) + b \<and> packed_at fs k b))"
  using assms
proof (induction fs arbitrary: cnt ee)
  case Nil
  then show ?case by simp
next
  case (Cons f fs)
  have c: "cnt < 15" "cnt + 1 + length fs \<le> 15" using Cons.prems by simp_all
  then have i: "i < 32" if "i = 2 * (cnt + 1) + b" "b < 2" for b using that by simp
  show ?case
  proof (cases f)
    case None
    define ee' where "ee' = ee OR push_bit ((cnt + 1) * 2) 3"
    have "bit ee' i \<longleftrightarrow> bit ee i \<or> (\<exists>b < 2. i = 2 * (cnt + 1) + b)"
      using i unfolding ee'_def bit_or_iff bit_both by (auto simp: mult.commute)
    then show ?thesis
      unfolding None packed_Cons pack_answers.simps ee'_def [symmetric] Cons.IH [OF c(2)] by auto
  next
    case (Some x)
    define ee' where "ee' = ee AND (x AND 3) OR push_bit ((cnt + 1) * 2) (x AND 3)"
    have "bit ee' i \<longleftrightarrow> (if i < 2 then bit ee i \<and> bit x i else \<exists>b < 2. i = 2 * (cnt + 1) + b \<and> bit x b)"
      using i unfolding ee'_def bit_or_iff bit_and_iff bit_three bit_pair by (auto simp: mult.commute)
    then show ?thesis
      unfolding Some packed_Cons pack_answers.simps ee'_def [symmetric] Cons.IH [OF c(2)] by auto
  qed
qed

section \<open>Properties\<close>

text \<open>C36. What is recorded of the answers to a new binding, for at most fifteen auditors: the two low bits say that no
  interested auditor wants to see the entry (the exit). The two bits of an auditor are its answer, or
  both set when it is not interested, but only as long as no later auditor is interested: each answer
  clears what has been recorded before, so that an auditor that declined is asked all the same.\<close>

theorem audit_answers_recorded:
  assumes "length as \<le> 15" "symbind_loop bfrom bto call as 0 (altvalue, s, LA_SYMB_NOPLTENTER OR LA_SYMB_NOPLTEXIT, w) = (altvalue', s', ee, w')"
    and "fs = symbind_answers bfrom bto call as 0 (altvalue, s, w)"
  shows "\<forall>b < 2. (bit ee b \<longleftrightarrow> (\<forall>f. Some f \<in> set fs \<longrightarrow> bit f b)) \<and>
    (\<forall>k < length as. bit ee (2 * (k + 1) + b) \<longleftrightarrow>
       set (drop (k + 1) fs) \<subseteq> {None} \<and> (case fs ! k of None \<Rightarrow> True | Some f \<Rightarrow> bit f b))"
proof (intro allI impI conjI)
  have ee: "ee = pack_answers fs 0 3" and len: "length fs = length as"
    using assms symbind_loop_pack [of bfrom bto call as 0 altvalue s 3 w] by (simp_all add: both_flags)
  note bits = pack_bits [of 0 fs 3, unfolded add_0 len, OF assms(1), folded ee]
  fix b :: nat
  assume b: "b < 2"
  then show "bit ee b \<longleftrightarrow> (\<forall>f. Some f \<in> set fs \<longrightarrow> bit f b)" by (simp add: bits bit_three)
  fix k
  assume k: "k < length as"
  have eq: "2 * (k + 1) + b = 2 * (0 + j + 1) + c \<Longrightarrow> c < 2 \<Longrightarrow> j = k \<and> c = b" for j c using b by presburger
  have "(\<exists>j < length as. \<exists>c < 2. 2 * (k + 1) + b = 2 * (0 + j + 1) + c \<and> packed_at fs j c) \<longleftrightarrow> packed_at fs k b"
    using b k eq by (metis add_0)
  then show "bit ee (2 * (k + 1) + b) \<longleftrightarrow> set (drop (k + 1) fs) \<subseteq> {None} \<and> (case fs ! k of None \<Rightarrow> True | Some f \<Rightarrow> bit f b)"
    unfolding bits bit_three by (simp add: packed_at_def)
qed

text \<open>Two auditors: the first declines both entry and exit, the second wants both. Nothing of the first
  answer is left.\<close>

definition answering :: "u32 \<Rightarrow> nat auditor" where
  "answering f = \<lparr>symbind = Some (\<lambda>c _ w. (st_value (ac_sym c), ac_sym c, f, Suc w)), pltenter = None,
     pltexit = Some (\<lambda>c w. (ac_sym c, w + 10))\<rparr>"

definition example_call :: audit_call where
  "example_call = \<lparr>ac_sym = lk_sym ''f'' 0x1500 False, ac_ndx = 1, ac_from = 0, ac_to = 1, ac_name = ''f''\<rparr>"

theorem audit_answers_recorded_witness:
  "drop_bit 2 (fst (snd (snd (symbind_loop (\<lambda>_. 3) (\<lambda>_. 3) example_call [answering 3, answering 0] 0
      (0, ac_sym example_call, LA_SYMB_NOPLTENTER OR LA_SYMB_NOPLTEXIT, 0))))) AND 3 = 0"
proof -
  let ?as = "[answering 3, answering 0]" and ?s = "ac_sym example_call"
  let ?r = "symbind_loop (\<lambda>_. 3) (\<lambda>_. 3) example_call ?as 0 (0, ?s, LA_SYMB_NOPLTENTER OR LA_SYMB_NOPLTEXIT, 0)"
  have "symbind_answers (\<lambda>_. 3) (\<lambda>_. 3) example_call ?as 0 (0, ?s, 0) = [Some 3, Some 0]"
    by (simp add: answering_def call_symbind_def LA_FLG_BINDFROM_def LA_FLG_BINDTO_def new_value_def)
  note answers = this [symmetric]
  obtain a s ee w where r: "?r = (a, s, ee, w)" by (cases ?r)
  have "bit ee (2 * (0 + 1) + b) \<longleftrightarrow> set (drop (0 + 1) [Some 3, Some (0 :: u32)]) \<subseteq> {None} \<and>
      (case [Some 3, Some (0 :: u32)] ! 0 of None \<Rightarrow> True | Some f \<Rightarrow> bit f b)" if "b < 2" for b
  proof -
    have "length ?as \<le> 15" "0 < length ?as" by simp_all
    then show ?thesis using audit_answers_recorded [OF _ r answers] that by blast
  qed
  then have "\<not> bit (drop_bit 2 ee AND 3) b" for b by (auto simp: bit_and_iff bit_drop_bit_eq bit_three)
  then show ?thesis unfolding r by (simp add: bit_eq_iff)
qed

text \<open>The exit: the test works for the first auditor only.\<close>

lemma exit_shift: "drop_bit (2 * cnt) LA_SYMB_NOPLTEXIT = (if cnt = 0 then LA_SYMB_NOPLTEXIT else 0)"
proof (cases cnt)
  case (Suc n)
  have "drop_bit (2 * cnt) (2 :: u32) = drop_bit (2 * n) (drop_bit 2 2)" by (simp add: Suc drop_bit_drop_bit)
  then show ?thesis by (simp add: audit_flags Suc)
qed simp

definition run_exits :: "audit_call \<Rightarrow> (audit_call \<Rightarrow> 'w \<Rightarrow> Sym \<times> 'w) list \<Rightarrow> Sym \<times> 'w \<Rightarrow> Sym \<times> 'w" where
  "run_exits call fs st = fold (\<lambda>f (s, w). f (call\<lparr>ac_sym := s\<rparr>) w) fs st"

lemma pltexit_loop_rest:
  "0 < cnt \<Longrightarrow> pltexit_loop call as cnt ee st = run_exits call (List.map_filter pltexit as) st"
  by (induction call as cnt ee st rule: pltexit_loop.induct)
    (auto simp: run_exits_def map_filter_simps exit_shift split: option.split)

lemma pltexit_loop_calls:
  "pltexit_loop call as 0 ee st =
     run_exits call (List.map_filter pltexit (if ee AND LA_SYMB_NOPLTEXIT = 0 then as else tl as)) st"
  by (cases as; cases st) (auto simp: pltexit_loop_rest exit_shift run_exits_def map_filter_simps split: option.split)

text \<open>C37. At the return of a function whose binding is recorded, the exit functions of the auditors are called in order with the recorded
  address. The recorded wishes decide about the first auditor only, and with the summary of all of them; those of the
  others are not looked at, because the mask is shifted in the wrong direction.\<close>

theorem dl_call_pltexit_calls:
  assumes "rr = l_reloc_result st l (reloc_index reloc)" "rr_bound rr = Some m" "unat (rr_boundndx rr) < length (l_symtab (pf_maps os m))"
    and "s = (l_symtab (pf_maps os m) ! unat (rr_boundndx rr))\<lparr>st_value := rr_addr rr\<rparr>"
  shows "dl_call_pltexit os l reloc st = Inr (st\<lparr>pf_memory :=
    snd (run_exits \<lparr>ac_sym = s, ac_ndx = rr_boundndx rr, ac_from = l, ac_to = m, ac_name = st_name s\<rparr>
      (List.map_filter pltexit (if rr_enterexit rr AND LA_SYMB_NOPLTEXIT = 0 then pf_audit os else tl (pf_audit os)))
      (s, pf_memory st))\<rparr>)"
  using assms by (simp add: dl_call_pltexit_def bound_sym_def get_def pltexit_loop_calls case_prod_beta Let_def)

text \<open>Both auditors have declined; the second one is called.\<close>

definition audit_os :: "nat auditor list \<Rightarrow> nat profile_os" where
  "audit_os as = \<lparr>pf_arch = ARCH_64, pf_fuel = 1, pf_maps = lk_example, pf_addr = (\<lambda>m. l_addr (example_maps ! m)), pf_scope = (\<lambda>_. [[0, 1]]),
     pf_add_dependency = (\<lambda>_ _ _. True), pf_dynamic_weak = False, pf_receiver = False, pf_ifunc = fx_ifunc example_fixup_os, pf_bind_not = False,
     pf_audit = as, l_audit_any_plt = (\<lambda>_. True), bindflags = (\<lambda>_ _. 3)\<rparr>"

definition audit_state :: "u64 \<Rightarrow> nat profile_state" where
  "audit_state a = \<lparr>l_reloc_result = (\<lambda>_ _. \<lparr>rr_addr = a, rr_bound = Some 1, rr_boundndx = 1, rr_enterexit = 63, rr_flags = 0\<rparr>),
     pf_lookup = resolve_state, pf_memory = 0, pf_mcount = []\<rparr>"

definition audit_reloc :: profile_reloc where
  "audit_reloc = \<lparr>reloc_index = 0, pr_jmp_slot = True, pr_symidx = 1\<rparr>"

theorem dl_call_pltexit_calls_witness:
  "dl_call_pltexit (audit_os [answering 3, answering 3]) 0 audit_reloc (audit_state 0x1500) = Inr ((audit_state 0x1500)\<lparr>pf_memory := 10\<rparr>)"
  using dl_call_pltexit_calls [OF refl, of "audit_state 0x1500" 0 audit_reloc 1 "audit_os [answering 3, answering 3]", OF _ _ refl]
  by (simp add: audit_state_def audit_os_def lk_example_def lk_object_def run_exits_def map_filter_simps answering_def audit_flags)

section \<open>Without auditors\<close>

text \<open>The two resolvers look the symbol up in the same way: the objects as \<open>Dl_Runtime\<close> sees them.\<close>

definition same_objects :: "'w profile_os \<Rightarrow> lk_state \<Rightarrow> fixup_os \<Rightarrow> link_map list \<Rightarrow> (string \<Rightarrow> nat \<Rightarrow> symref option) \<Rightarrow> bool" where
  "same_objects os lst fos maps ref \<longleftrightarrow>
     fx_lookup fos = fixup_lookup (pf_receiver os) (pf_fuel os) (pf_arch os) (pf_maps os) (pf_add_dependency os) ref (pf_scope os) lst maps
     \<and> fx_ifunc fos = pf_ifunc os \<and> (\<forall>m. l_addr (maps ! m) = pf_addr os m) \<and> \<not> pf_dynamic_weak os"

lemma profile_lookup_value:
  assumes "same_objects os lst fos maps ref" "pr_symidx reloc < length (l_symtab (pf_maps os l))"
    and "st_visibility (l_symtab (pf_maps os l) ! pr_symidx reloc) = 0"
    and "ref name l = Some (l, pr_symidx reloc)" "name = st_name (l_symtab (pf_maps os l) ! pr_symidx reloc)"
    and "\<not> pf_receiver os" "profile_lookup os l reloc lst = Inr (f, found, lst')"
  shows "symbol_value (pf_arch os) fos (fx_lookup fos name l) = Inr f"
proof -
  obtain version res where v: "fixup_version (pf_maps os l) (pr_symidx reloc) = Inr version"
      "dl_lookup_symbol_x (pf_fuel os) (pf_arch os) False (pf_maps os) (pf_add_dependency os) True (pf_scope os l)
         (fixup_request ref version name l) (pf_scope os l) lst = Inr ((None, res), lst')"
      "f = (case res of (Some r, Some m) \<Rightarrow>
              indirect (pf_ifunc os) (ref_sym (pf_maps os) r)
                (to_ptr (pf_arch os) (pf_addr os m + st_value (ref_sym (pf_maps os) r))) | _ \<Rightarrow> 0)"
    using assms
    by (auto simp: profile_lookup_def get_def same_objects_def fixup_request_def bind_result_Inr_iff split: if_splits option.splits)
  then show ?thesis
    using assms(1,4)
    by (auto simp: same_objects_def fixup_lookup_def reference_version_def symbol_value_def fixup_sym_def indirect_def STT_GNU_IFUNC_def
        Let_def split: prod.splits option.splits)
qed

text \<open>A sequence of calls of the function, each of them with a return address and with what the resolver would find
  at that moment: objects and scopes may have changed since the first one.\<close>

fun profile_calls ::
  "nat \<Rightarrow> profile_reloc \<Rightarrow> ('w profile_os \<times> u64) list \<Rightarrow> 'w profile_state \<Rightarrow> ((u64 \<times> int) list \<times> 'w profile_state) result" where
  "profile_calls l reloc [] st = Inr ([], st)"
| "profile_calls l reloc ((os, retaddr) # cs) st =
     bind_result (dl_profile_fixup os l reloc retaddr st) (\<lambda>(value, framesize, st1).
     bind_result (profile_calls l reloc cs st1) (\<lambda>(rs, st2). Inr ((value, framesize) # rs, st2)))"

lemma reloc_result_same: "(l_reloc_result st)(l := (l_reloc_result st l)(i := l_reloc_result st l i)) = l_reloc_result st"
  by (simp add: fun_upd_idem)

text \<open>Once the result of the relocation is recorded, a call takes it from there and changes only what
  \<^verbatim>\<open>_dl_mcount\<close> has seen.\<close>

lemma profile_fixup_recorded:
  assumes "rr_addr (l_reloc_result st l (reloc_index reloc)) = f" "f \<noteq> 0" "pf_audit os = []"
  shows "dl_profile_fixup os l reloc ra st = Inr (f, - 1, st\<lparr>pf_mcount := pf_mcount st @ [(ra, f)]\<rparr>)"
  using assms by (simp add: dl_profile_fixup_def profile_enter_def Let_def reloc_result_same)

lemma profile_calls_recorded:
  assumes "rr_addr (l_reloc_result st l (reloc_index reloc)) = f" "f \<noteq> 0" "\<forall>c \<in> set cs. pf_audit (fst c) = []"
  shows "profile_calls l reloc cs st =
    Inr (replicate (length cs) (f, - 1), st\<lparr>pf_mcount := pf_mcount st @ map (\<lambda>c. (snd c, f)) cs\<rparr>)"
  using assms
proof (induction cs arbitrary: st)
  case (Cons c cs)
  then show ?case
    by (cases c) (simp add: profile_fixup_recorded)
qed simp

text \<open>C35. Programs under \<^verbatim>\<open>LD_PROFILE\<close> without auditors: the first call of a function resolves to the address that
  \<^verbatim>\<open>_dl_fixup\<close> gives when ELFPERF is not enabled, with or without a version, and \<^verbatim>\<open>_dl_mcount\<close> is called with it. The
  address is recorded, and any number of following calls take it from there: they give the same address
  whatever a lookup would find or fail with at their time (the objects, scopes and parameters may be any, as long as
  there are no auditors), and they change nothing but what \<^verbatim>\<open>_dl_mcount\<close> has seen. The environment has no influence:
  the functions that ELFPERF should profile are called directly.\<close>

theorem profile_fixup_equiv:
  assumes "pf_audit os = []" "rr_addr (l_reloc_result st l (reloc_index reloc)) = 0" "pr_jmp_slot reloc"
    and "profile_lookup os l reloc (pf_lookup st) = Inr (f, found, lst')" "f \<noteq> 0" "\<not> pf_bind_not os" "\<not> pf_receiver os"
    and "same_objects os (pf_lookup st) fos maps ref" "pr_symidx reloc < length (l_symtab (pf_maps os l))"
    and "s = l_symtab (pf_maps os l) ! pr_symidx reloc" "st_visibility s = 0" "ref (st_name s) l = Some (l, pr_symidx reloc)"
    and "r_jmp_slot reloc'" "r_name reloc' = st_name s" "elf_sym.st_visibility (r_symbol reloc') = 0" "\<not> dl_bind_not fos"
    and "\<not> isElfPerfEnabled (pf_arch os) env"
  shows "\<exists>st'. dl_profile_fixup os l reloc retaddr st = Inr (f, - 1, st') \<and> pf_mcount st' = pf_mcount st @ [(retaddr, f)] \<and>
    rr_addr (l_reloc_result st' l (reloc_index reloc)) = f \<and>
    (\<forall>cs. (\<forall>c \<in> set cs. pf_audit (fst c) = []) \<longrightarrow>
       profile_calls l reloc cs st' =
         Inr (replicate (length cs) (f, - 1), st'\<lparr>pf_mcount := pf_mcount st' @ map (\<lambda>c. (snd c, f)) cs\<rparr>)) \<and>
    (\<exists>fs1. dl_fixup (pf_arch os) env fos maps l reloc' fs0 = Inr (f, fs1) \<and> fx_got fs1 (r_addr reloc') = f)"
proof -
  have "symbol_value (pf_arch os) fos (fx_lookup fos (st_name s) l) = Inr f"
    using profile_lookup_value [OF assms(8,9) _ _ _ assms(7,4)] assms(10-12) by blast
  then have plain: "\<exists>fs1. dl_fixup (pf_arch os) env fos maps l reloc' fs0 = Inr (f, fs1) \<and> fx_got fs1 (r_addr reloc') = f"
    using assms(13-17) by (simp add: dl_fixup_def fixup_elfperf_def fixup_wanted_def Let_def)
  have "audit_bind os l found f rr w = (f, rr, w)" for rr w
    using assms(1) by (auto simp: audit_bind_def split: option.split)
  then obtain st' where st': "dl_profile_fixup os l reloc retaddr st = Inr (f, - 1, st')"
      "pf_mcount st' = pf_mcount st @ [(retaddr, f)]" "rr_addr (l_reloc_result st' l (reloc_index reloc)) = f"
    using assms(1-6) by (simp add: dl_profile_fixup_def profile_bind_def profile_enter_def Let_def)
  then show ?thesis
    using plain profile_calls_recorded [OF st'(3) assms(5)] by blast
qed

lemma audit_os_simps:
  "pf_arch (audit_os as) = ARCH_64" "pf_fuel (audit_os as) = Suc 0" "pf_maps (audit_os as) = lk_example"
  "pf_addr (audit_os as) m = l_addr (example_maps ! m)" "pf_scope (audit_os as) l = [[0, 1]]"
  "pf_add_dependency (audit_os as) = (\<lambda>_ _ _. True)" "\<not> pf_dynamic_weak (audit_os as)" "\<not> pf_receiver (audit_os as)"
  "pr_symidx audit_reloc = 1"
  by (simp_all add: audit_os_def audit_reloc_def)

lemma audit_lookup:
  "profile_lookup (audit_os as) 0 audit_reloc resolve_state =
     Inr (0x1500, Some ((1, 1), 1), resolve_state\<lparr>lk_used := (lk_used resolve_state)(1 := True)\<rparr>)"
proof -
  have rq: "\<lparr>rq_name = ''f'', rq_ref = Some (0, 1), rq_version = None, rq_newest = False, rq_class = ELF_RTYPE_CLASS_PLT,
      rq_skip = None, rq_undef_map = Some 0\<rparr> = lk_request"
    by (simp add: lk_request_def)
  have "scope_ok ARCH_64 lk_example lk_request (concat [[0, 1]])" "first_definition lk_example lk_request (concat [[0, 1]]) = Some (1, 1)"
    using lk_example_ok by (simp_all add: scope_ok_def plain_request_def first_definition_def)
      (simp add: lk_request_def lk_example_def lk_object_def lk_sym_def)
  then have "dl_lookup_symbol_x (Suc 0) ARCH_64 False lk_example (\<lambda>_ _ _. True) True [[0, 1]] lk_request [[0, 1]] resolve_state =
      Inr ((None, (Some (1, 1), Some 1)), resolve_state\<lparr>lk_used := (lk_used resolve_state)(1 := True)\<rparr>)"
    by (subst lookup_first) (simp_all add: lk_request_def ref_sym_def lk_example_def lk_object_def lk_sym_def STV_PROTECTED_def)
  moreover have "st_name (lk_sym ''f'' v u) = ''f''" "st_visibility (lk_sym ''f'' v u) = 0" for v u by (simp_all add: lk_sym_def)
  moreover have "get (l_symtab (lk_example 0)) 1 = Inr (lk_sym ''f'' 0 True)" "l_versyms (lk_example 0) = None"
      "ref_sym lk_example (1, 1) = lk_sym ''f'' 0x500 False" "l_addr (example_maps ! 1) = 0x1000"
    by (simp_all add: get_def ref_sym_def lk_example_def lk_object_def example_maps_def)
  ultimately show ?thesis
    using rq by (simp add: profile_lookup_def audit_os_simps fixup_version_def indirect_def STT_GNU_IFUNC_def del: dl_lookup_symbol_x.simps)
      (simp add: lk_sym_def)
qed

text \<open>Two further calls come after all objects have lost their symbols.\<close>

definition audit_os_later :: "nat profile_os" where
  "audit_os_later = (audit_os [])\<lparr>pf_maps := (\<lambda>m. (lk_example m)\<lparr>l_symtab := []\<rparr>)\<rparr>"

theorem profile_fixup_equiv_witness:
  "\<exists>st'. dl_profile_fixup (audit_os []) 0 audit_reloc 0x77 (audit_state 0) = Inr (0x1500, - 1, st') \<and> pf_mcount st' = [(0x77, 0x1500)] \<and>
     profile_calls 0 audit_reloc [(audit_os_later, 0x78), (audit_os_later, 0x79)] st' =
       Inr ([(0x1500, - 1), (0x1500, - 1)], st'\<lparr>pf_mcount := [(0x77, 0x1500), (0x78, 0x1500), (0x79, 0x1500)]\<rparr>)"
proof -
  let ?fos = "example_fixup_os\<lparr>fx_lookup := fixup_lookup False 1 ARCH_64 lk_example (\<lambda>_ _ _. True) (\<lambda>_ _. Some (0, 1)) (\<lambda>_. [[0, 1]])
     resolve_state example_maps\<rparr>"
  have os: "pf_audit (audit_os []) = []" "pr_jmp_slot audit_reloc" "\<not> pf_bind_not (audit_os [])" "\<not> pf_receiver (audit_os [])"
      "rr_addr (l_reloc_result (audit_state 0) 0 (reloc_index audit_reloc)) = 0" "pf_mcount (audit_state 0) = []"
      "profile_lookup (audit_os []) 0 audit_reloc (pf_lookup (audit_state 0)) =
         Inr (0x1500, Some ((1, 1), 1), resolve_state\<lparr>lk_used := (lk_used resolve_state)(1 := True)\<rparr>)"
      "same_objects (audit_os []) (pf_lookup (audit_state 0)) ?fos example_maps (\<lambda>_ _. Some (0, 1))"
      "pr_symidx audit_reloc < length (l_symtab (pf_maps (audit_os []) 0))" "\<not> dl_bind_not ?fos"
    using audit_lookup by (simp_all add: audit_state_def same_objects_def)
      (simp_all add: audit_os_def audit_reloc_def lk_example_def lk_object_def example_fixup_os_def)
  have s: "lk_sym ''f'' 0 True = l_symtab (pf_maps (audit_os []) 0) ! pr_symidx audit_reloc" "st_visibility (lk_sym ''f'' 0 True) = 0"
      "r_jmp_slot (example_reloc ''f'' 0)" "r_name (example_reloc ''f'' 0) = st_name (lk_sym ''f'' 0 True)"
      "elf_sym.st_visibility (r_symbol (example_reloc ''f'' 0)) = 0" "Some (0, 1) = Some (0, pr_symidx audit_reloc)"
    by (simp_all add: audit_os_def audit_reloc_def lk_example_def lk_object_def lk_sym_def example_reloc_def)
  have "\<not> isElfPerfEnabled ARCH_64 []" using getenv_arch.miss [of "[]"] by (simp add: isElfPerfEnabled_def)
  then have "\<not> isElfPerfEnabled (pf_arch (audit_os [])) []" by (simp add: audit_os_simps)
  from profile_fixup_equiv [OF os(1,5,2,7) _ os(3,4,8,9) s(1,2,6,3,4,5) os(10) this, of "0x77" undefined]
  obtain st' where st': "dl_profile_fixup (audit_os []) 0 audit_reloc 0x77 (audit_state 0) = Inr (0x1500, - 1, st')"
      "pf_mcount st' = pf_mcount (audit_state 0) @ [(0x77, 0x1500)]"
      "\<forall>cs. (\<forall>c \<in> set cs. pf_audit (fst c) = []) \<longrightarrow>
         profile_calls 0 audit_reloc cs st' =
           Inr (replicate (length cs) (0x1500, - 1), st'\<lparr>pf_mcount := pf_mcount st' @ map (\<lambda>c. (snd c, 0x1500)) cs\<rparr>)"
    by fastforce
  have "pf_audit audit_os_later = []" by (simp add: audit_os_later_def os(1))
  then show ?thesis
    using st'(1,2) spec [OF st'(3), of "[(audit_os_later, 0x78), (audit_os_later, 0x79)]"] os(6)
    by (auto simp: numeral_2_eq_2 simp del: profile_calls.simps)
qed

end
