(* ===== verification/Dl_Sym.thy ===== *)
theory Dl_Sym
  imports Dl_Runtime
begin

text \<open>
  The third client of the redirectors, \<^verbatim>\<open>__dlsym\<close> of \<^verbatim>\<open>eglibc-2.11.3/dlfcn/dlsym.c\<close> in \<^verbatim>\<open>libdl.so\<close>: a function that
  the program asks for by name is diverted like one that the loader resolves. \<^verbatim>\<open>libdl.so\<close> finds the
  redirectors through the context that the loader has published in shared memory, and writes into the
  same table of names and the same slots.
\<close>

section \<open>The routine\<close>

text \<open>The static variables of \<^verbatim>\<open>__dlsym\<close> and of its copy of \<^verbatim>\<open>isFunctionProfiled\<close>. The pointer \<^verbatim>\<open>elfperfContext\<close> is
  null or the attached segment, so that its field \<^verbatim>\<open>infos\<close> is read from shared memory; the context and the
  addresses of the routines are copies.\<close>

record dlsym_state =
  ds_attached :: bool
  ds_context :: RedirectorContext
  ds_funcs :: ElfperfFunctions
  errorDuringElfperfContextLoading :: bool
  ds_profiled :: profiled_cache

text \<open>The parameters: the hook of statically linked programs, the search \<^verbatim>\<open>_dl_sym\<close> run under
  \<^verbatim>\<open>_dlerror_run\<close> (\<open>None\<close> when it reports an error), the kernel and the address of \<^verbatim>\<open>wrapper\<close>.\<close>

record dlsym_os =
  dlfcn_hook :: "(u64 \<Rightarrow> string \<Rightarrow> u64) option"
  dl_sym :: "u64 \<Rightarrow> string \<Rightarrow> u64 option"
  ds_ipc :: ipc
  ds_wrapper :: u64

text \<open>The context is fetched once; a failure is remembered.\<close>

definition dlsym_context :: "dlsym_os \<Rightarrow> shared_state \<Rightarrow> dlsym_state \<Rightarrow> bool \<times> dlsym_state" where
  "dlsym_context os sh ds =
     (if ds_attached ds then (True, ds)
      else case getElfperfContextStorage (ds_ipc os) sh of
             None \<Rightarrow> (False, ds\<lparr>errorDuringElfperfContextLoading := True\<rparr>)
           | Some c \<Rightarrow> (True, ds\<lparr>ds_attached := True, ds_context := rcontext c, ds_funcs := addresses c\<rparr>))"

text \<open>The redirector of the function is written unless there is one. The routines of \<^verbatim>\<open>libelfperf.so\<close> are called
  through the copied addresses.\<close>

definition dlsym_register ::
  "arch \<Rightarrow> dlsym_os \<Rightarrow> string \<Rightarrow> u64 \<Rightarrow> dlsym_state \<Rightarrow> shared_state \<Rightarrow> vm \<Rightarrow> (shared_state \<times> vm) result" where
  "dlsym_register A os name r ds sh v =
     (if f_isFunctionRedirectorRegistered (ds_funcs ds) = 0 then Inl SegFault
      else if isFunctionRedirectorRegistered A (vm_mem v) name (ds_context ds) then Inr (sh, v)
      else case seg_context sh of
             None \<Rightarrow> Inl SegFault
           | Some c \<Rightarrow>
               bind_result (getInfoByName name (infos c) (count (ds_context ds)) sh) (\<lambda>tmp.
                 if f_addNewFunction (ds_funcs ds) = 0 then Inl SegFault
                 else Inr (case tmp of None \<Rightarrow> sh | Some i \<Rightarrow> setInfoAddr (infos c) i r sh,
                           v\<lparr>vm_mem := addNewFunction A (ds_wrapper os) (vm_mem v) name r (ds_context ds)\<rparr>)))"

definition dlsym ::
  "arch \<Rightarrow> environ \<Rightarrow> dlsym_os \<Rightarrow> u64 \<Rightarrow> string \<Rightarrow> dlsym_state \<Rightarrow> shared_state \<Rightarrow> vm \<Rightarrow>
   (u64 \<times> dlsym_state \<times> shared_state \<times> vm) result" where
  "dlsym A env os handle name ds sh v =
     (case dlfcn_hook os of
        Some hook \<Rightarrow> Inr (hook handle name, ds, sh, v)
      | None \<Rightarrow>
          let r = (case dl_sym os handle name of None \<Rightarrow> 0 | Some a \<Rightarrow> a)
          in if \<not> isElfPerfEnabled A env then Inr (r, ds, sh, v)
             else let (prof, cache) = isFunctionProfiled A env name (ds_profiled ds);
                      ds1 = ds\<lparr>ds_profiled := cache\<rparr>
                  in if \<not> prof \<or> errorDuringElfperfContextLoading ds1 then Inr (r, ds1, sh, v)
                     else case dlsym_context os sh ds1 of
                            (False, ds2) \<Rightarrow> Inr (r, ds2, sh, v)
                          | (True, ds2) \<Rightarrow>
                              bind_result (dlsym_register A os name r ds2 sh v) (\<lambda>(sh1, v1).
                                if f_getRedirectorAddressForName (ds_funcs ds2) = 0 then Inl SegFault
                                else Inr (getRedirectorAddressForName A name (ds_context ds2), ds2, sh1, v1)))"

definition plain_sym :: "dlsym_os \<Rightarrow> u64 \<Rightarrow> string \<Rightarrow> u64" where
  "plain_sym os handle name = (case dl_sym os handle name of None \<Rightarrow> 0 | Some a \<Rightarrow> a)"

text \<open>The static variables when the program starts.\<close>

definition fresh_dlsym :: dlsym_state where
  "fresh_dlsym = \<lparr>ds_attached = False, ds_context = \<lparr>names = [], count = 0, redirectors = 0\<rparr>,
     ds_funcs = \<lparr>f_wrapper = 0, f_initWrapperRedirectors = 0, f_addNewFunction = 0, f_isFunctionRedirectorRegistered = 0,
       f_isFunctionInFunctionList = 0, f_getRedirectorAddressForName = 0\<rparr>,
     errorDuringElfperfContextLoading = False, ds_profiled = empty_profiled_cache\<rparr>"

section \<open>The loader and \<^verbatim>\<open>libdl.so\<close> together\<close>

text \<open>What the loader has published is its own context.\<close>

definition published :: "fixup_state \<Rightarrow> bool" where
  "published st \<longleftrightarrow> seg_context (fx_shared st) =
     Some \<lparr>addresses = the (elfperfFuncs st), rcontext = fx_context st, infos = fx_infos st\<rparr>"

definition routines_ok :: "ElfperfFunctions \<Rightarrow> bool" where
  "routines_ok f \<longleftrightarrow> f_isFunctionRedirectorRegistered f \<noteq> 0 \<and> f_addNewFunction f \<noteq> 0 \<and> f_getRedirectorAddressForName f \<noteq> 0"

text \<open>The state of \<^verbatim>\<open>libdl.so\<close> next to that of the loader.\<close>

definition dlsym_inv :: "string \<Rightarrow> fixup_state \<Rightarrow> dlsym_state \<Rightarrow> bool" where
  "dlsym_inv v st ds \<longleftrightarrow>
     profiled_ok v (ds_profiled ds) \<and> \<not> errorDuringElfperfContextLoading ds
     \<and> (ds_attached ds \<longrightarrow> ds_context ds = fx_context st \<and> ds_funcs ds = the (elfperfFuncs st))"

lemma dlsym_register_eq:
  assumes "published st" "routines_ok (the (elfperfFuncs st))" "ds_wrapper os' = fx_wrapper os"
    and "ds_context ds = fx_context st" "ds_funcs ds = the (elfperfFuncs st)"
  shows "dlsym_register A os' name r ds (fx_shared st) (fx_vm st) =
    map_sum id (\<lambda>st'. (fx_shared st', fx_vm st')) (fixup_register A os name r st)"
  using assms
  by (cases "getInfoByName name (fx_infos st) (count (fx_context st)) (fx_shared st)")
    (auto simp: dlsym_register_def fixup_register_def published_def routines_ok_def split: option.split)

lemma setInfoAddr_context [simp]: "seg_context (setInfoAddr storage i a sh) = seg_context sh"
  by (simp add: setInfoAddr_def split: option.split)

lemma fixup_register_frame:
  assumes "fixup_register A os name r st = Inr st'"
  shows "st' = st\<lparr>fx_shared := fx_shared st', fx_vm := fx_vm st'\<rparr>" "seg_context (fx_shared st') = seg_context (fx_shared st)"
proof -
  obtain sh w where "st' = st\<lparr>fx_shared := sh, fx_vm := w\<rparr>" "seg_context sh = seg_context (fx_shared st)"
  proof (cases "registered A st name")
    case True
    then show ?thesis using assms that [of "fx_vm st" "fx_shared st"] by (simp add: fixup_register_def)
  next
    case False
    then obtain tmp where "st' = st\<lparr>fx_shared := (case tmp of None \<Rightarrow> fx_shared st | Some i \<Rightarrow> setInfoAddr (fx_infos st) i r (fx_shared st)),
        fx_vm := (fx_vm st)\<lparr>vm_mem := addNewFunction A (fx_wrapper os) (vm_mem (fx_vm st)) name r (fx_context st)\<rparr>\<rparr>"
      using assms by (auto simp: fixup_register_def bind_result_Inr_iff)
    then show ?thesis using that by (auto split: option.split)
  qed
  then show "st' = st\<lparr>fx_shared := fx_shared st', fx_vm := fx_vm st'\<rparr>" "seg_context (fx_shared st') = seg_context (fx_shared st)"
    by simp_all
qed

text \<open>A state in which the loader is initialised and \<^verbatim>\<open>libdl.so\<close> can find its context.\<close>

definition bind_ok :: "arch \<Rightarrow> environ \<Rightarrow> string \<Rightarrow> fixup_os \<Rightarrow> fixup_state \<Rightarrow> dlsym_state \<Rightarrow> bool" where
  "bind_ok A env v os st ds \<longleftrightarrow> fixup_inv A env v os st \<and> initialized st \<and> published st
     \<and> routines_ok (the (elfperfFuncs st)) \<and> dlsym_inv v st ds"

text \<open>The requests to the kernel that \<^verbatim>\<open>libdl.so\<close> makes, and that it uses the same wrapper.\<close>

definition dlsym_env_ok :: "fixup_os \<Rightarrow> dlsym_os \<Rightarrow> bool" where
  "dlsym_env_ok os os' \<longleftrightarrow> dlfcn_hook os' = None \<and> ds_wrapper os' = fx_wrapper os
     \<and> attach (ds_ipc os') ELFPERF_SHARED_MEMORY_ID_REDIRECTOR_CONTEXT False \<noteq> None"

lemma dlsym_context_ok:
  assumes "published st" "dlsym_inv v st ds" "dlsym_env_ok os os'"
  shows "\<exists>ds'. dlsym_context os' (fx_shared st) ds = (True, ds') \<and> dlsym_inv v st ds' \<and> ds_attached ds'"
  using assms by (auto simp: dlsym_context_def published_def dlsym_inv_def dlsym_env_ok_def getElfperfContextStorage_def)

lemma dlsym_step:
  assumes "fixup_env_ok A env v os" "bind_ok A env v os st ds" "dlsym_env_ok os os'" "name \<in> set (fn_words v)"
    and "r = (case dl_sym os' handle name of None \<Rightarrow> 0 | Some a \<Rightarrow> a)" "unat r < address_limit A"
  shows "\<exists>ds' st'. dlsym A env os' handle name ds (fx_shared st) (fx_vm st) =
           Inr (slot_of A st' name, ds', fx_shared st', fx_vm st') \<and> st' = st\<lparr>fx_shared := fx_shared st', fx_vm := fx_vm st'\<rparr> \<and>
           bind_ok A env v os st' ds' \<and> registered A st' name \<and>
           recorded st' name = (if registered A st name then recorded st name else r) \<and>
           (\<forall>m \<in> set (fn_words v). m \<noteq> name \<longrightarrow> registered A st' m = registered A st m \<and> recorded st' m = recorded st m)"
proof -
  let ?c = "\<lparr>pc_count = of_nat (length (fn_words v)), pc_functions = fn_words v\<rparr>"
  have b: "fixup_ready A env v os st" "published st" "routines_ok (the (elfperfFuncs st))" "dlsym_inv v st ds"
      "profiled_ok v (fx_profiled st)" "initialized st"
    using assms(2) by (simp_all add: bind_ok_def fixup_inv_def)
  have env: "isElfPerfEnabled A env" "isFunctionProfiled A env name (ds_profiled ds) = (True, ?c)"
    using assms(1,4) b(4) isFunctionProfiled_cached [of A env v "ds_profiled ds" name]
    by (simp_all add: fixup_env_ok_def dlsym_inv_def)
  have "dlsym_inv v st (ds\<lparr>ds_profiled := ?c\<rparr>)" using b(4) by (auto simp: dlsym_inv_def profiled_ok_def)
  then obtain ds' where ds': "dlsym_context os' (fx_shared st) (ds\<lparr>ds_profiled := ?c\<rparr>) = (True, ds')" "dlsym_inv v st ds'" "ds_attached ds'"
    using dlsym_context_ok [OF b(2) _ assms(3)] by blast
  then have copy: "ds_context ds' = fx_context st" "ds_funcs ds' = the (elfperfFuncs st)"
    by (simp_all add: dlsym_inv_def)
  obtain st' where st': "fixup_register A os name r st = Inr st'" "fixup_ready A env v os st'" "registered A st' name"
      "recorded st' name = (if registered A st name then recorded st name else r)"
      "\<forall>m \<in> set (fn_words v). m \<noteq> name \<longrightarrow> registered A st' m = registered A st m \<and> recorded st' m = recorded st m"
    using fixup_register_ready [OF b(1) assms(4,6)] by blast
  note fr = fixup_register_frame [OF st'(1)]
  have same: "fx_context st' = fx_context st" "elfperfFuncs st' = elfperfFuncs st" "fx_infos st' = fx_infos st"
      "initialized st' = initialized st" "fx_profiled st' = fx_profiled st"
    by (subst fr(1), simp)+
  have "dlsym_register A os' name r ds' (fx_shared st) (fx_vm st) = Inr (fx_shared st', fx_vm st')"
    using dlsym_register_eq [OF b(2,3) _ copy, of os' os A name r] st'(1) assms(3) by (simp add: dlsym_env_ok_def)
  then have "dlsym A env os' handle name ds (fx_shared st) (fx_vm st) = Inr (slot_of A st' name, ds', fx_shared st', fx_vm st')"
    using assms(3,5) env ds'(1) b(3,4) copy same(1)
    by (simp add: dlsym_def dlsym_env_ok_def dlsym_inv_def routines_ok_def Let_def)
  moreover have "bind_ok A env v os st' ds'"
    using st'(2) b fr(2) ds'(2) same by (simp add: bind_ok_def fixup_inv_def published_def dlsym_inv_def)
  ultimately show ?thesis using st'(3-5) fr(1) by blast
qed

section \<open>The loader publishes its context\<close>

definition loader_ok :: "fixup_state \<Rightarrow> bool" where
  "loader_ok st \<longleftrightarrow> (initialized st \<longrightarrow> published st \<and> elfperfFuncs st \<noteq> None)
     \<and> (\<forall>f. elfperfFuncs st = Some f \<longrightarrow> routines_ok f)"

text \<open>What the resolver keeps once it is initialised.\<close>

definition keeps :: "fixup_state \<Rightarrow> fixup_state \<Rightarrow> bool" where
  "keeps st st' \<longleftrightarrow> errorDuringElfperfFunctionLoad st' = errorDuringElfperfFunctionLoad st \<and>
     (initialized st \<longrightarrow> initialized st' \<and> fx_context st' = fx_context st \<and> elfperfFuncs st' = elfperfFuncs st)"

lemma keeps_refl [simp]: "keeps st st"
  by (simp add: keeps_def)

lemma keeps_trans: "keeps st st1 \<Longrightarrow> keeps st1 st2 \<Longrightarrow> keeps st st2"
  by (simp add: keeps_def)

lemma loader_ok_got [simp]:
  "loader_ok (st\<lparr>fx_got := g\<rparr>) = loader_ok st" "loader_ok (st\<lparr>fx_profiled := c\<rparr>) = loader_ok st"
  "keeps st (st1\<lparr>fx_got := g\<rparr>) = keeps st st1" "keeps st (st1\<lparr>fx_profiled := c\<rparr>) = keeps st st1"
  by (simp_all add: loader_ok_def published_def keeps_def)

lemma loader_storage: "loader_ok st \<Longrightarrow> loader_ok (fixup_storage A env os st) \<and> keeps st (fixup_storage A env os st)"
  by (simp add: fixup_storage_def loader_ok_def published_def keeps_def)

lemma loader_wanted: "fixup_wanted A env maps l name st = (b, st') \<Longrightarrow> loader_ok st \<Longrightarrow> loader_ok st' \<and> keeps st st'"
  by (auto simp: fixup_wanted_def split: if_splits prod.splits)

lemma getElfperfFunctions_ok: "getElfperfFunctions A os maps l = Inr (Some f) \<Longrightarrow> routines_ok f"
  by (auto simp: getElfperfFunctions_def routines_ok_def Let_def bind_result_Inr_iff split: if_splits)

lemma loader_init:
  assumes "fixup_init A env os funcs st = Inr st'" "loader_ok st" "elfperfFuncs st = Some funcs"
    and "attach (fx_ipc os) ELFPERF_SHARED_MEMORY_ID_REDIRECTOR_CONTEXT True \<noteq> None"
  shows "loader_ok st' \<and> keeps st st'"
proof (cases "initialized st")
  case True
  then show ?thesis using assms by (simp add: fixup_init_def)
next
  case False
  then show ?thesis
    using assms by (auto simp: fixup_init_def Let_def bind_result_Inr_iff initElfperfContextStorage_def loader_ok_def
        published_def keeps_def split: prod.splits option.splits)
qed

lemma loader_register:
  assumes "fixup_register A os name r st = Inr st'" "loader_ok st"
  shows "loader_ok st' \<and> keeps st st'"
proof -
  note fr = fixup_register_frame [OF assms(1)]
  have "elfperfFuncs st' = elfperfFuncs st" "initialized st' = initialized st" "fx_context st' = fx_context st" "fx_infos st' = fx_infos st"
      "errorDuringElfperfFunctionLoad st' = errorDuringElfperfFunctionLoad st"
    by (subst fr(1), simp)+
  then show ?thesis using assms(2) fr(2) by (simp add: loader_ok_def published_def keeps_def)
qed

lemma loader_elfperf:
  assumes "fixup_elfperf A env os maps l (Some name) x st = Inr (y, st')" "loader_ok st"
    and "attach (fx_ipc os) ELFPERF_SHARED_MEMORY_ID_REDIRECTOR_CONTEXT True \<noteq> None"
    and "(\<exists>fs. getElfperfFunctions A os maps l = Inr (Some fs))"
  shows "loader_ok st' \<and> keeps st st'"
proof -
  let ?st1 = "fixup_storage A env os st"
  obtain w st2 where w: "fixup_wanted A env maps l name ?st1 = (w, st2)" by fastforce
  note 1 = loader_storage [OF assms(2), of A env os]
  note 2 = loader_wanted [OF w conjunct1 [OF 1]]
  have k2: "loader_ok st2" "keeps st st2" using 1 2 keeps_trans by blast+
  consider "\<not> w" | f where "w" "(case elfperfFuncs st2 of None \<Rightarrow> getElfperfFunctions A os maps l | Some f \<Rightarrow> Inr (Some f)) = Inr (Some f)"
    using assms(4) by (cases "elfperfFuncs st2") auto
  then show ?thesis
  proof cases
    case 1
    then show ?thesis using assms(1) w k2 by (simp add: fixup_elfperf_def Let_def)
  next
    case (2 f)
    let ?st2 = "st2\<lparr>elfperfFuncs := Some f\<rparr>"
    have f: "loader_ok ?st2" "keeps st2 ?st2"
      using k2(1) 2(2) getElfperfFunctions_ok [of A os maps l f]
      by (auto simp: loader_ok_def published_def keeps_def split: option.splits)
    obtain st3 where st3: "fixup_init A env os f ?st2 = Inr st3"
      using assms(1) w 2 by (auto simp: fixup_elfperf_def Let_def bind_result_Inr_iff)
    have k3: "loader_ok st3" "keeps st st3"
      using loader_init [OF st3 f(1) _ assms(3)] k2(2) f(2) keeps_trans by fastforce+
    obtain p c where pc: "isFunctionProfiled A env name (fx_profiled st3) = (p, c)" by fastforce
    show ?thesis
    proof (cases p)
      case False
      then show ?thesis using assms(1) w 2 st3 pc k3 by (auto simp: fixup_elfperf_def Let_def)
    next
      case True
      then have "fixup_register A os name x (st3\<lparr>fx_profiled := c\<rparr>) = Inr st'"
        using assms(1) w 2 st3 pc by (auto simp: fixup_elfperf_def Let_def bind_result_Inr_iff)
      then show ?thesis
        using loader_register [of A os name x "st3\<lparr>fx_profiled := c\<rparr>" st'] k3 keeps_trans [of st "st3\<lparr>fx_profiled := c\<rparr>" st'] by simp
    qed
  qed
qed

section \<open>Sequences of bindings\<close>

text \<open>The two ways in which a program gets the address of a function: the first call through the PLT of the
  object \<open>l\<close>, and \<^verbatim>\<open>dlsym\<close>.\<close>

datatype bind_event = Resolve nat plt_reloc | Dlsym u64 string

fun event_name :: "bind_event \<Rightarrow> string" where
  "event_name (Resolve l reloc) = r_name reloc"
| "event_name (Dlsym handle name) = name"

fun event_addr :: "arch \<Rightarrow> fixup_os \<Rightarrow> dlsym_os \<Rightarrow> bind_event \<Rightarrow> u64" where
  "event_addr A os os' (Resolve l reloc) =
     (case symbol_value A os (fx_lookup os (r_name reloc) l) of Inl _ \<Rightarrow> 0 | Inr a \<Rightarrow> a)"
| "event_addr A os os' (Dlsym handle name) = (case dl_sym os' handle name of None \<Rightarrow> 0 | Some a \<Rightarrow> a)"

fun bind_step ::
  "arch \<Rightarrow> environ \<Rightarrow> fixup_os \<Rightarrow> dlsym_os \<Rightarrow> link_map list \<Rightarrow> bind_event \<Rightarrow> fixup_state \<Rightarrow> dlsym_state \<Rightarrow>
   (u64 \<times> fixup_state \<times> dlsym_state) result" where
  "bind_step A env os os' maps (Resolve l reloc) st ds =
     bind_result (dl_fixup A env os maps l reloc st) (\<lambda>(r, st'). Inr (r, st', ds))"
| "bind_step A env os os' maps (Dlsym handle name) st ds =
     bind_result (dlsym A env os' handle name ds (fx_shared st) (fx_vm st)) (\<lambda>(r, ds', sh, w).
       Inr (r, st\<lparr>fx_shared := sh, fx_vm := w\<rparr>, ds'))"

fun bind_run ::
  "arch \<Rightarrow> environ \<Rightarrow> fixup_os \<Rightarrow> dlsym_os \<Rightarrow> link_map list \<Rightarrow> bind_event list \<Rightarrow> fixup_state \<Rightarrow> dlsym_state \<Rightarrow>
   (u64 list \<times> fixup_state \<times> dlsym_state) result" where
  "bind_run A env os os' maps [] st ds = Inr ([], st, ds)"
| "bind_run A env os os' maps (e # es) st ds =
     bind_result (bind_step A env os os' maps e st ds) (\<lambda>(r, st1, ds1).
     bind_result (bind_run A env os os' maps es st1 ds1) (\<lambda>(rs, st2, ds2). Inr (r # rs, st2, ds2)))"

text \<open>A binding of a profiled function from an object that may be profiled.\<close>

fun event_ok :: "arch \<Rightarrow> fixup_os \<Rightarrow> dlsym_os \<Rightarrow> link_map list \<Rightarrow> string \<Rightarrow> bind_event \<Rightarrow> bool" where
  "event_ok A os os' maps v (Resolve l reloc) \<longleftrightarrow>
     r_name reloc \<in> set (fn_words v) \<and> r_jmp_slot reloc \<and> st_visibility (r_symbol reloc) = 0
     \<and> getLibMap ELFPERF_LIB_NAME maps l \<noteq> None \<and> \<not> has_name ELFPERF_LIBC_NAME (maps ! l)
     \<and> \<not> has_name ELFPERF_LIB_NAME (maps ! l) \<and> \<not> has_name ELFPERF_LIBDL_NAME (maps ! l)
     \<and> (\<exists>fs. getElfperfFunctions A os maps l = Inr (Some fs)) \<and> (\<exists>a. symbol_value A os (fx_lookup os (r_name reloc) l) = Inr a)
     \<and> unat (event_addr A os os' (Resolve l reloc)) < address_limit A"
| "event_ok A os os' maps v (Dlsym handle name) \<longleftrightarrow>
     name \<in> set (fn_words v) \<and> unat (event_addr A os os' (Dlsym handle name)) < address_limit A"

definition bind_inv :: "arch \<Rightarrow> environ \<Rightarrow> string \<Rightarrow> fixup_os \<Rightarrow> fixup_state \<Rightarrow> dlsym_state \<Rightarrow> bool" where
  "bind_inv A env v os st ds \<longleftrightarrow> fixup_inv A env v os st \<and> loader_ok st \<and> \<not> errorDuringElfperfFunctionLoad st
     \<and> dlsym_inv v st ds \<and> (ds_attached ds \<longrightarrow> initialized st)"

text \<open>What holds after a binding of \<open>n\<close> to the address \<open>a\<close>.\<close>

definition bound :: "arch \<Rightarrow> string \<Rightarrow> string \<Rightarrow> u64 \<Rightarrow> fixup_state \<Rightarrow> fixup_state \<Rightarrow> bool" where
  "bound A v n a st st' \<longleftrightarrow> initialized st' \<and> (initialized st \<longrightarrow> fx_context st' = fx_context st) \<and> registered A st' n
     \<and> recorded st' n = (if initialized st \<and> registered A st n then recorded st n else a)
     \<and> (\<forall>m \<in> set (fn_words v). m \<noteq> n \<longrightarrow> registered A st' m = (initialized st \<and> registered A st m) \<and>
          (initialized st \<longrightarrow> recorded st' m = recorded st m))"

lemma bind_step_resolve:
  assumes "fixup_env_ok A env v os" "bind_inv A env v os st ds" "event_ok A os os' maps v (Resolve l reloc)" "\<not> dl_bind_not os"
    and "attach (fx_ipc os) ELFPERF_SHARED_MEMORY_ID_REDIRECTOR_CONTEXT True \<noteq> None"
  shows "\<exists>st'. bind_step A env os os' maps (Resolve l reloc) st ds = Inr (slot_of A st' (r_name reloc), st', ds)
    \<and> bind_inv A env v os st' ds \<and> bound A v (r_name reloc) (event_addr A os os' (Resolve l reloc)) st st'"
proof -
  let ?n = "r_name reloc" and ?a = "event_addr A os os' (Resolve l reloc)"
  have inv: "fixup_inv A env v os st" "loader_ok st" "\<not> errorDuringElfperfFunctionLoad st" "dlsym_inv v st ds" "ds_attached ds \<longrightarrow> initialized st"
    using assms(2) by (simp_all add: bind_inv_def)
  obtain st1 where st1: "fixup_elfperf A env os maps l (Some ?n) ?a st = Inr (slot_of A st1 ?n, st1)"
      "fixup_inv A env v os st1" "initialized st1" "registered A st1 ?n"
      "recorded st1 ?n = (if initialized st \<and> registered A st ?n then recorded st ?n else ?a)"
      "\<forall>m \<in> set (fn_words v). m \<noteq> ?n \<longrightarrow> registered A st1 m = (initialized st \<and> registered A st m) \<and>
          (initialized st \<longrightarrow> recorded st1 m = recorded st m \<and> slot_of A st1 m = slot_of A st m)"
    using fixup_elfperf_redirects [OF assms(1) inv(1), of ?n maps l ?a] assms(3) inv(3) by auto
  have k: "loader_ok st1" "keeps st st1"
    using loader_elfperf [OF st1(1) inv(2) assms(5)] assms(3) by auto
  let ?st = "st1\<lparr>fx_got := (fx_got st1)(r_addr reloc := slot_of A st1 ?n)\<rparr>"
  have "bind_step A env os os' maps (Resolve l reloc) st ds = Inr (slot_of A ?st ?n, ?st, ds)"
    using assms(3,4) st1(1) by (auto simp: dl_fixup_def)
  moreover have "bind_inv A env v os ?st ds"
    using st1(2,3) k inv(3-5) by (auto simp: bind_inv_def fixup_inv_def fixup_ready_def keeps_def dlsym_inv_def)
  moreover have "bound A v ?n ?a st ?st"
    using st1(3-6) k(2) by (auto simp: bound_def keeps_def)
  ultimately show ?thesis by blast
qed

lemma bind_step_dlsym:
  assumes "fixup_env_ok A env v os" "bind_inv A env v os st ds" "event_ok A os os' maps v (Dlsym handle name)"
    and "dlsym_env_ok os os'" "initialized st"
  shows "\<exists>st' ds'. bind_step A env os os' maps (Dlsym handle name) st ds = Inr (slot_of A st' name, st', ds')
    \<and> bind_inv A env v os st' ds' \<and> bound A v name (event_addr A os os' (Dlsym handle name)) st st'"
proof -
  have "bind_ok A env v os st ds"
    using assms(2,5) by (auto simp: bind_inv_def bind_ok_def loader_ok_def)
  then obtain ds' st' where d: "dlsym A env os' handle name ds (fx_shared st) (fx_vm st) =
           Inr (slot_of A st' name, ds', fx_shared st', fx_vm st')" "st' = st\<lparr>fx_shared := fx_shared st', fx_vm := fx_vm st'\<rparr>"
         "bind_ok A env v os st' ds'" "registered A st' name"
         "recorded st' name = (if registered A st name then recorded st name else event_addr A os os' (Dlsym handle name))"
         "\<forall>m \<in> set (fn_words v). m \<noteq> name \<longrightarrow> registered A st' m = registered A st m \<and> recorded st' m = recorded st m"
    using dlsym_step [OF assms(1) _ assms(4), of st ds name _ handle] assms(3) by auto
  have same: "errorDuringElfperfFunctionLoad st' = errorDuringElfperfFunctionLoad st" "fx_context st' = fx_context st"
      "elfperfFuncs st' = elfperfFuncs st" "initialized st' = initialized st"
    by (subst d(2), simp)+
  have "bind_step A env os os' maps (Dlsym handle name) st ds = Inr (slot_of A st' name, st', ds')"
    using d(1,2) by simp
  moreover have "bind_inv A env v os st' ds'"
    using assms(2) d(3) same by (auto simp: bind_inv_def bind_ok_def loader_ok_def)
  moreover have "bound A v name (event_addr A os os' (Dlsym handle name)) st st'"
    using d(4-6) same assms(5) by (auto simp: bound_def)
  ultimately show ?thesis by blast
qed

lemma bind_step_any:
  assumes "fixup_env_ok A env v os" "bind_inv A env v os st ds" "event_ok A os os' maps v e" "\<not> dl_bind_not os"
    and "attach (fx_ipc os) ELFPERF_SHARED_MEMORY_ID_REDIRECTOR_CONTEXT True \<noteq> None" "dlsym_env_ok os os'" "initialized st"
  shows "\<exists>st' ds'. bind_step A env os os' maps e st ds = Inr (slot_of A st' (event_name e), st', ds')
    \<and> bind_inv A env v os st' ds' \<and> bound A v (event_name e) (event_addr A os os' e) st st'"
proof (cases e)
  case (Resolve l reloc)
  then show ?thesis using bind_step_resolve [OF assms(1,2) assms(3) [unfolded Resolve] assms(4,5)] by auto
next
  case (Dlsym handle name)
  then show ?thesis using bind_step_dlsym [OF assms(1,2) assms(3) [unfolded Dlsym] assms(6,7)] by auto
qed

lemma event_listed: "event_ok A os os' maps v e \<Longrightarrow> event_name e \<in> set (fn_words v)"
  by (cases e) simp_all

lemma bind_run_bound:
  assumes "fixup_env_ok A env v os" "\<not> dl_bind_not os" "dlsym_env_ok os os'"
    and "attach (fx_ipc os) ELFPERF_SHARED_MEMORY_ID_REDIRECTOR_CONTEXT True \<noteq> None"
  shows "bind_inv A env v os st ds \<Longrightarrow> initialized st \<Longrightarrow> \<forall>e \<in> set es. event_ok A os os' maps v e \<Longrightarrow>
    \<exists>st' ds'. bind_run A env os os' maps es st ds = Inr (map (\<lambda>e. slot_of A st' (event_name e)) es, st', ds')
      \<and> bind_inv A env v os st' ds' \<and> initialized st' \<and> fx_context st' = fx_context st
      \<and> (\<forall>n \<in> set (fn_words v). registered A st' n = (registered A st n \<or> n \<in> event_name ` set es)
          \<and> (registered A st' n \<longrightarrow> recorded st' n = (if registered A st n then recorded st n
               else event_addr A os os' (the (find (\<lambda>e. event_name e = n) es)))))"
proof (induction es arbitrary: st ds)
  case (Cons e es)
  have e: "event_ok A os os' maps v e" "event_name e \<in> set (fn_words v)"
    using Cons.prems(3) event_listed by auto
  obtain st1 ds1 where st1: "bind_step A env os os' maps e st ds = Inr (slot_of A st1 (event_name e), st1, ds1)"
      "bind_inv A env v os st1 ds1" "bound A v (event_name e) (event_addr A os os' e) st st1"
    using bind_step_any [OF assms(1) Cons.prems(1) e(1) assms(2,4,3) Cons.prems(2)] by blast
  then obtain st' ds' where st': "bind_run A env os os' maps es st1 ds1 = Inr (map (\<lambda>e. slot_of A st' (event_name e)) es, st', ds')"
      "bind_inv A env v os st' ds'" "initialized st'" "fx_context st' = fx_context st1"
      "\<forall>n \<in> set (fn_words v). registered A st' n = (registered A st1 n \<or> n \<in> event_name ` set es)
          \<and> (registered A st' n \<longrightarrow> recorded st' n = (if registered A st1 n then recorded st1 n
               else event_addr A os os' (the (find (\<lambda>e. event_name e = n) es))))"
    using Cons.IH [of st1 ds1] Cons.prems(3) by (auto simp: bound_def)
  have "registered A st' n = (registered A st n \<or> n \<in> event_name ` set (e # es))
      \<and> (registered A st' n \<longrightarrow> recorded st' n = (if registered A st n then recorded st n
           else event_addr A os os' (the (find (\<lambda>e. event_name e = n) (e # es)))))" if "n \<in> set (fn_words v)" for n
    using bspec [OF st'(5) that] st1(3) Cons.prems(2) that by (cases "n = event_name e") (auto simp: bound_def)
  moreover have "fx_context st' = fx_context st" using st'(4) st1(3) Cons.prems(2) by (simp add: bound_def)
  ultimately show ?case using st1(1) st'(1-4) by auto
qed simp

lemma ready_runs:
  assumes "fixup_env_ok A env v os" "fixup_ready A env v os st" "n \<in> set (fn_words v)" "registered A st n"
  shows "rrun A (vm_mem (fx_vm st)) (case A of ARCH_32 \<Rightarrow> 2 | ARCH_64 \<Rightarrow> 5) \<lparr>ip = slot_of A st n, ax = x, stk = s\<rparr> =
      Some (case A of ARCH_32 \<Rightarrow> \<lparr>ip = fx_wrapper os, ax = x, stk = recorded st n # s\<rparr>
                    | ARCH_64 \<Rightarrow> \<lparr>ip = fx_wrapper os, ax = fx_wrapper os, stk = recorded st n # x # s\<rparr>)"
  using assms unfolding fixup_ready_def by (intro slot_runs) (auto simp: fixup_env_ok_def)

lemma slot_nonzero:
  assumes "ctx_ok A c" "name \<in> set (names c)" "redirectors c \<noteq> 0"
  shows "getRedirectorAddressForName A name c \<noteq> 0"
proof -
  let ?k = "unat (REDIRECTOR_SIZE A) * slot_index name c"
  have "?k \<le> unat (REDIRECTOR_SIZE A) * (length (names c) + 2)"
    using slot_index_bound [of name c] by (intro mult_le_mono2) simp
  then have "unat (redirectors c) + ?k < 2 ^ 64" using assms(1) by (cases A) (simp_all add: ctx_ok_def)
  then have "unat (getRedirectorAddressForName A name c) = unat (redirectors c) + ?k"
    unfolding slot_addr [OF assms(1)] by (rule unat_offset)
  then show ?thesis using assms(3) by (auto simp: unat_eq_zero)
qed

lemma bindings_agree:
  assumes "fixup_env_ok A env v os" "\<not> dl_bind_not os" "dlsym_env_ok os os'"
    and "attach (fx_ipc os) ELFPERF_SHARED_MEMORY_ID_REDIRECTOR_CONTEXT True \<noteq> None"
    and "fixup_inv A env v os st" "\<not> initialized st" "elfperfFuncs st = None" "\<not> errorDuringElfperfFunctionLoad st"
    and "es = Resolve l reloc # es'" "\<forall>e \<in> set es. event_ok A os os' maps v e"
  shows "\<exists>rs st' ds'. bind_run A env os os' maps es st fresh_dlsym = Inr (rs, st', ds') \<and> length rs = length es \<and>
    (\<forall>i < length es. let f = event_addr A os os' (the (find (\<lambda>e. event_name e = event_name (es ! i)) es)) in
       rrun A (vm_mem (fx_vm st')) (case A of ARCH_32 \<Rightarrow> 2 | ARCH_64 \<Rightarrow> 5) \<lparr>ip = rs ! i, ax = x, stk = s\<rparr> =
         Some (case A of ARCH_32 \<Rightarrow> \<lparr>ip = fx_wrapper os, ax = x, stk = f # s\<rparr>
                       | ARCH_64 \<Rightarrow> \<lparr>ip = fx_wrapper os, ax = fx_wrapper os, stk = f # x # s\<rparr>))"
proof -
  let ?n = "r_name reloc"
  have "bind_inv A env v os st fresh_dlsym"
    using assms(5-8) by (simp add: bind_inv_def loader_ok_def dlsym_inv_def fresh_dlsym_def profiled_ok_def)
  moreover have "event_ok A os os' maps v (Resolve l reloc)" using assms(9,10) by simp
  ultimately obtain st1 where st1: "bind_step A env os os' maps (Resolve l reloc) st fresh_dlsym = Inr (slot_of A st1 ?n, st1, fresh_dlsym)"
      "bind_inv A env v os st1 fresh_dlsym" "bound A v ?n (event_addr A os os' (Resolve l reloc)) st st1"
    using bind_step_resolve [OF assms(1) _ _ assms(2,4)] by blast
  obtain st' ds' where st': "bind_run A env os os' maps es' st1 fresh_dlsym = Inr (map (\<lambda>e. slot_of A st' (event_name e)) es', st', ds')"
      "bind_inv A env v os st' ds'" "initialized st'" "fx_context st' = fx_context st1"
      "\<forall>n \<in> set (fn_words v). registered A st' n = (registered A st1 n \<or> n \<in> event_name ` set es')
          \<and> (registered A st' n \<longrightarrow> recorded st' n = (if registered A st1 n then recorded st1 n
               else event_addr A os os' (the (find (\<lambda>e. event_name e = n) es'))))"
    using bind_run_bound [OF assms(1-4) st1(2)] st1(3) assms(9,10) by (force simp: bound_def)
  have run: "bind_run A env os os' maps es st fresh_dlsym = Inr (map (\<lambda>e. slot_of A st' (event_name e)) es, st', ds')"
    using st1(1) st'(1,4) by (simp add: assms(9))
  have rec: "registered A st' n \<and> recorded st' n = event_addr A os os' (the (find (\<lambda>e. event_name e = n) es))"
    if "n \<in> event_name ` set es" "n \<in> set (fn_words v)" for n
    using that bspec [OF st'(5) that(2)] st1(3) assms(6) by (cases "n = ?n") (auto simp: bound_def assms(9))
  have ready: "fixup_ready A env v os st'" using st'(2,3) by (simp add: bind_inv_def fixup_inv_def)
  have "let f = event_addr A os os' (the (find (\<lambda>e. event_name e = event_name (es ! i)) es)) in
       rrun A (vm_mem (fx_vm st')) (case A of ARCH_32 \<Rightarrow> 2 | ARCH_64 \<Rightarrow> 5) \<lparr>ip = slot_of A st' (event_name (es ! i)), ax = x, stk = s\<rparr> =
         Some (case A of ARCH_32 \<Rightarrow> \<lparr>ip = fx_wrapper os, ax = x, stk = f # s\<rparr>
                       | ARCH_64 \<Rightarrow> \<lparr>ip = fx_wrapper os, ax = fx_wrapper os, stk = f # x # s\<rparr>)" if "i < length es" for i
  proof -
    have n: "event_name (es ! i) \<in> set (fn_words v)" "event_name (es ! i) \<in> event_name ` set es"
      using that assms(10) event_listed nth_mem by blast+
    note r = rec [OF n(2,1)]
    show ?thesis
      using ready_runs [OF assms(1) ready n(1) conjunct1 [OF r], of x s] unfolding conjunct2 [OF r] Let_def .
  qed
  then show ?thesis using run by auto
qed

section \<open>Properties\<close>

text \<open>C6. The loader and \<^verbatim>\<open>libdl.so\<close> agree: from the first binding, which the loader makes and which publishes
  its context, through any sequence of first calls and calls of \<^verbatim>\<open>dlsym\<close> for profiled functions, every binding
  gives the redirector of its function, and executing it at the end arrives at the wrapper with the address
  that the first binding of that name found, whichever of the two made it.\<close>

theorem bindings_consistent:
  assumes "fixup_env_ok A env v os" "\<not> dl_bind_not os" "dlsym_env_ok os os'"
    and "attach (fx_ipc os) ELFPERF_SHARED_MEMORY_ID_REDIRECTOR_CONTEXT True \<noteq> None"
    and "fixup_inv A env v os st" "\<not> initialized st" "elfperfFuncs st = None" "\<not> errorDuringElfperfFunctionLoad st"
    and "es = Resolve l reloc # es'" "\<forall>e \<in> set es. event_ok A os os' maps v e"
  shows "\<exists>rs st' ds'. bind_run A env os os' maps es st fresh_dlsym = Inr (rs, st', ds') \<and> length rs = length es \<and>
    (\<forall>i < length es. let f = event_addr A os os' (the (find (\<lambda>e. event_name e = event_name (es ! i)) es)) in
       rrun A (vm_mem (fx_vm st')) (case A of ARCH_32 \<Rightarrow> 2 | ARCH_64 \<Rightarrow> 5) \<lparr>ip = rs ! i, ax = x, stk = s\<rparr> =
         Some (case A of ARCH_32 \<Rightarrow> \<lparr>ip = fx_wrapper os, ax = x, stk = f # s\<rparr>
                       | ARCH_64 \<Rightarrow> \<lparr>ip = fx_wrapper os, ax = fx_wrapper os, stk = f # x # s\<rparr>))"
  using assms by (rule bindings_agree)

text \<open>The process of the example, in which \<^verbatim>\<open>dlsym\<close> finds another function \<open>f\<close> than the loader does.\<close>

definition example_dlsym_os :: dlsym_os where
  "example_dlsym_os = \<lparr>dlfcn_hook = None, dl_sym = (\<lambda>h n. if n = ''f'' then Some 0x5000 else None),
     ds_ipc = (\<lambda>k c. (1, 4096)), ds_wrapper = 0x7000\<rparr>"

lemma example_dlsym_env: "dlsym_env_ok example_fixup_os example_dlsym_os"
  by (simp add: dlsym_env_ok_def example_fixup_os_def example_dlsym_os_def attach_def)

theorem bindings_consistent_witness:
  "\<exists>rs st' ds'. bind_run ARCH_64 example_environ example_fixup_os example_dlsym_os example_maps
      [Resolve 2 (example_reloc ''g'' 0), Dlsym 0 ''f'', Resolve 2 (example_reloc ''f'' 0)] example_fixup_state fresh_dlsym =
        Inr (rs, st', ds') \<and>
    rrun ARCH_64 (vm_mem (fx_vm st')) 5 \<lparr>ip = rs ! 2, ax = 7, stk = [42]\<rparr> = Some \<lparr>ip = 0x7000, ax = 0x7000, stk = [0x5000, 7, 42]\<rparr>"
proof -
  let ?es = "[Resolve 2 (example_reloc ''g'' 0), Dlsym 0 ''f'', Resolve 2 (example_reloc ''f'' 0)]"
  have st: "\<not> initialized example_fixup_state" "elfperfFuncs example_fixup_state = None"
      "\<not> errorDuringElfperfFunctionLoad example_fixup_state" "\<not> dl_bind_not example_fixup_os" "fx_wrapper example_fixup_os = 0x7000"
      "attach (fx_ipc example_fixup_os) ELFPERF_SHARED_MEMORY_ID_REDIRECTOR_CONTEXT True \<noteq> None"
    by (simp_all add: example_fixup_state_def example_fixup_os_def attach_def)
  have r: "r_name (example_reloc n 0) = n" "r_jmp_slot (example_reloc n 0)" "st_visibility (r_symbol (example_reloc n 0)) = 0" for n
    by (simp_all add: example_reloc_def)
  have a: "symbol_value ARCH_64 example_fixup_os (fx_lookup example_fixup_os n 2) = Inr 0x400010" "dl_sym example_dlsym_os 0 ''f'' = Some 0x5000" for n
    by (simp_all add: example_fixup_os_def example_dlsym_os_def symbol_value_def)
  have ok: "\<forall>e \<in> set ?es. event_ok ARCH_64 example_fixup_os example_dlsym_os example_maps ''f:g'' e"
    using example_fixup_env(3-7) by (simp add: r a)
  show ?thesis
    using bindings_consistent [OF example_fixup_env(1) st(4) example_dlsym_env st(6) example_fixup_env(2) st(1-3) refl ok, of 7 "[42]"]
    by (fastforce simp: Let_def r a st(5) dest: spec [of _ 2])
qed

text \<open>C23. The context must be there at the first attempt: when \<^verbatim>\<open>dlsym\<close> is called for a profiled function before
  the loader has published its context, it gives the plain address, and so does every later call for any function,
  whatever has been published by then.\<close>

theorem dlsym_early_disables:
  assumes "dlfcn_hook os = None" "isElfPerfEnabled A env" "getenv A env ELFPERF_PROFILE_FUNCTION_ENV_VARIABLE = Some v" "c_string v"
    and "name \<in> set (fn_words v)" "getElfperfContextStorage (ds_ipc os) sh = None"
  shows "\<exists>ds. dlsym A env os handle name fresh_dlsym sh w = Inr (plain_sym os handle name, ds, sh, w) \<and>
    (\<forall>handle' name' sh' w'. dlsym A env os handle' name' ds sh' w' = Inr (plain_sym os handle' name', ds, sh', w'))"
proof -
  let ?c = "\<lparr>pc_count = of_nat (length (fn_words v)), pc_functions = fn_words v\<rparr>"
  let ?ds = "fresh_dlsym\<lparr>ds_profiled := ?c, errorDuringElfperfContextLoading := True\<rparr>"
  have p: "isFunctionProfiled A env n (ds_profiled fresh_dlsym) = (n \<in> set (fn_words v), ?c)"
      "isFunctionProfiled A env n ?c = (n \<in> set (fn_words v), ?c)" for n
    using isFunctionProfiled_cached [OF assms(3,4)] by (simp_all add: profiled_ok_def fresh_dlsym_def)
  have "dlsym A env os handle name fresh_dlsym sh w = Inr (plain_sym os handle name, ?ds, sh, w)"
    using assms(1,2,5,6) by (simp add: dlsym_def p dlsym_context_def Let_def plain_sym_def) (simp add: fresh_dlsym_def)
  moreover have "dlsym A env os handle' name' ?ds sh' w' = Inr (plain_sym os handle' name', ?ds, sh', w')" for handle' name' sh' w'
    using assms(1,2) p(2) by (simp add: dlsym_def Let_def plain_sym_def)
  ultimately show ?thesis by blast
qed

theorem dlsym_early_disables_witness:
  "\<exists>ds. dlsym ARCH_64 example_environ example_dlsym_os 0 ''f'' fresh_dlsym
      \<lparr>seg_stat = 0, seg_info = 0, seg_context = None, info_heap = (\<lambda>_. None)\<rparr> \<lparr>vm_mem = (\<lambda>_. 0), rwx = []\<rparr> =
    Inr (0x5000, ds, \<lparr>seg_stat = 0, seg_info = 0, seg_context = None, info_heap = (\<lambda>_. None)\<rparr>, \<lparr>vm_mem = (\<lambda>_. 0), rwx = []\<rparr>)"
proof -
  have e: "dlfcn_hook example_dlsym_os = None" "isElfPerfEnabled ARCH_64 example_environ" "c_string ''f:g''" "''f'' \<in> set (fn_words ''f:g'')"
      "getenv ARCH_64 example_environ ELFPERF_PROFILE_FUNCTION_ENV_VARIABLE = Some ''f:g''"
    using example_fixup_env(1) by (simp_all add: fixup_env_ok_def example_dlsym_os_def)
  have none: "getElfperfContextStorage (ds_ipc example_dlsym_os)
      \<lparr>seg_stat = 0, seg_info = 0, seg_context = None, info_heap = (\<lambda>_. None)\<rparr> = None"
    by (simp add: getElfperfContextStorage_def example_dlsym_os_def attach_def)
  have "plain_sym example_dlsym_os 0 ''f'' = 0x5000" by (simp add: plain_sym_def example_dlsym_os_def)
  then show ?thesis
    using dlsym_early_disables [OF e(1,2,5,3,4) none, of 0 "\<lparr>vm_mem = (\<lambda>_. 0), rwx = []\<rparr>"] by auto
qed

text \<open>A function that does not exist: when the name is profiled and not registered yet, \<^verbatim>\<open>dlsym\<close> returns an
  address other than \<^verbatim>\<open>NULL\<close> although the search has failed, and executing it arrives at the wrapper with
  \<^verbatim>\<open>NULL\<close> as the address of the function.\<close>

lemma dlsym_undefined_not_null:
  assumes "fixup_env_ok A env v os" "bind_ok A env v os st ds" "dlsym_env_ok os os'" "name \<in> set (fn_words v)"
    and "dl_sym os' handle name = None" "\<not> registered A st name" "redirectors (fx_context st) \<noteq> 0"
  shows "\<exists>r ds' sh w. dlsym A env os' handle name ds (fx_shared st) (fx_vm st) = Inr (r, ds', sh, w) \<and> r \<noteq> 0 \<and>
    rrun A (vm_mem w) (case A of ARCH_32 \<Rightarrow> 2 | ARCH_64 \<Rightarrow> 5) \<lparr>ip = r, ax = x, stk = s\<rparr> =
      Some (case A of ARCH_32 \<Rightarrow> \<lparr>ip = fx_wrapper os, ax = x, stk = 0 # s\<rparr>
                    | ARCH_64 \<Rightarrow> \<lparr>ip = fx_wrapper os, ax = fx_wrapper os, stk = 0 # x # s\<rparr>)"
proof -
  have "unat (0 :: u64) < address_limit A" by (cases A) simp_all
  then obtain ds' st' where d: "dlsym A env os' handle name ds (fx_shared st) (fx_vm st) =
           Inr (slot_of A st' name, ds', fx_shared st', fx_vm st')" "st' = st\<lparr>fx_shared := fx_shared st', fx_vm := fx_vm st'\<rparr>"
         "bind_ok A env v os st' ds'" "registered A st' name" "recorded st' name = 0"
    using dlsym_step [OF assms(1-4) refl, of handle] assms(5,6) by auto
  then have ready: "fixup_ready A env v os st'" by (simp add: bind_ok_def fixup_inv_def)
  have ctx: "fx_context st' = fx_context st" by (subst d(2)) simp
  have c: "ctx_ok A (fx_context st')" "name \<in> set (names (fx_context st'))" using ready assms(4) by (simp_all add: fixup_ready_def)
  have "slot_of A st' name \<noteq> 0"
    using slot_nonzero [OF c] assms(7) ctx by simp
  then show ?thesis
    using d(1) ready_runs [OF assms(1) ready assms(4) d(4), of x s] unfolding d(5) by blast
qed

end
