(* ===== verification/Dl_Search.thy ===== *)
theory Dl_Search
  imports Dl_Audit Dl_Sym
begin

text \<open>
  The search behind \<^verbatim>\<open>dlsym\<close> and \<^verbatim>\<open>dlvsym\<close>: \<^verbatim>\<open>do_sym\<close>, \<^verbatim>\<open>_dl_sym\<close> and \<^verbatim>\<open>_dl_vsym\<close> of \<^verbatim>\<open>eglibc-2.11.3/elf/dl-sym.c\<close>, and
  \<^verbatim>\<open>_dl_addr_inside_object\<close> of \<^verbatim>\<open>elf/dl-addr.c\<close>. It takes the place of the parameter of \<open>Dl_Sym\<close>.
\<close>

unbundle bit_operations_syntax

section \<open>The object of the caller\<close>

text \<open>The segments of an object, and the fields of \<^verbatim>\<open>struct link_map\<close> that the search reads. The type \<^verbatim>\<open>PT_LOAD\<close> is 1.\<close>

record phdr =
  p_type :: nat
  p_vaddr :: u64
  p_memsz :: u64

record sy_map =
  sy_addr :: u64
  l_map_start :: u64
  l_map_end :: u64
  l_contiguous :: bool
  l_phdr :: "phdr list"
  l_loader :: "nat option"
  l_scope :: "nat list list"
  l_local_scope :: "nat list list"
  l_tls_modid :: nat

text \<open>The segments are tested from the last to the first; the subtraction wraps around at the width of an address, so that the first
  comparison of the unsigned difference with zero always holds.\<close>

definition dl_addr_inside_object :: "arch \<Rightarrow> sy_map \<Rightarrow> u64 \<Rightarrow> bool" where
  "dl_addr_inside_object A l addr =
     (let reladdr = to_ptr A (addr - sy_addr l)
      in list_ex (\<lambda>p. p_type p = 1 \<and> 0 \<le> to_ptr A (reladdr - p_vaddr p) \<and> to_ptr A (reladdr - p_vaddr p) < p_memsz p) (rev (l_phdr l)))"

definition caller_in :: "arch \<Rightarrow> sy_map \<Rightarrow> u64 \<Rightarrow> bool" where
  "caller_in A l caller \<longleftrightarrow>
     l_map_start l \<le> caller \<and> caller < l_map_end l \<and> (l_contiguous l \<or> dl_addr_inside_object A l caller)"

text \<open>\<open>nss\<close> lists the objects of each namespace. In a namespace the first object that contains the caller is
  taken; the search goes on with the next namespace.\<close>

definition ns_loaded :: "nat list list \<Rightarrow> nat option" where
  "ns_loaded nss = (case nss of (m # _) # _ \<Rightarrow> Some m | _ \<Rightarrow> None)"

definition find_caller :: "arch \<Rightarrow> (nat \<Rightarrow> sy_map) \<Rightarrow> nat list list \<Rightarrow> u64 \<Rightarrow> nat option" where
  "find_caller A objs nss caller =
     fold (\<lambda>ls res. case find (\<lambda>l. caller_in A (objs l) caller) ls of None \<Rightarrow> res | Some l \<Rightarrow> Some l) nss (ns_loaded nss)"

text \<open>The object that was loaded first, of those that loaded one another; a walk of more steps than there
  are objects has met one twice and does not end.\<close>

fun first_loader :: "nat \<Rightarrow> (nat \<Rightarrow> sy_map) \<Rightarrow> nat \<Rightarrow> nat result" where
  "first_loader 0 objs l = Inl Diverges"
| "first_loader (Suc fuel) objs l = (case l_loader (objs l) of None \<Rightarrow> Inr l | Some k \<Rightarrow> first_loader fuel objs k)"

section \<open>The search\<close>

definition RTLD_DEFAULT :: u64 where "RTLD_DEFAULT = 0"
definition RTLD_NEXT :: u64 where "RTLD_NEXT = - 1"

text \<open>The errors that end the search; \<^verbatim>\<open>_dlerror_run\<close> receives them.\<close>

datatype sym_error = NotDynamicallyLoaded | LookupFailed lookup_error

text \<open>Objects, namespaces and the parameters: the object that a handle points to, the address of a
  thread-local variable, and the others as in \<open>Dl_Audit\<close>.\<close>

record 'w search_os =
  so_arch :: arch
  so_fuel :: nat
  so_lk :: lk_maps
  so_objs :: "nat \<Rightarrow> sy_map"
  dl_ns :: "nat list list"
  so_handle :: "u64 \<Rightarrow> nat"
  so_add_dependency :: "nat \<Rightarrow> nat option \<Rightarrow> nat \<Rightarrow> bool"
  so_dynamic_weak :: bool
  tls_get_addr :: "nat \<Rightarrow> u64 \<Rightarrow> u64"
  so_ifunc :: "u64 \<Rightarrow> u64"
  so_audit :: "'w auditor list"
  so_any_plt :: "nat \<Rightarrow> bool"
  so_bindflags :: "nat \<Rightarrow> nat \<Rightarrow> u32"

definition sym_request :: "string \<Rightarrow> found_version option \<Rightarrow> bool \<Rightarrow> nat option \<Rightarrow> nat \<Rightarrow> request" where
  "sym_request name vers newest skip m = \<lparr>rq_name = name, rq_ref = None, rq_version = vers, rq_newest = newest,
     rq_class = 0, rq_skip = skip, rq_undef_map = Some m\<rparr>"

text \<open>The three kinds of handles. With more than one thread the lookup of \<^verbatim>\<open>RTLD_DEFAULT\<close> is run under
  \<^verbatim>\<open>_dl_catch_error\<close> to release the scope, and its error is raised again.\<close>

definition sym_lookup ::
  "'w search_os \<Rightarrow> u64 \<Rightarrow> string \<Rightarrow> u64 \<Rightarrow> found_version option \<Rightarrow> bool \<Rightarrow> nat option \<Rightarrow> lk_state \<Rightarrow>
   (sym_error + (symref option \<times> nat option) \<times> lk_state) result" where
  "sym_lookup os handle name caller vers newest res st =
     (let look = (\<lambda>dep rq scope st.
            bind_result (dl_lookup_symbol_x (so_fuel os) (so_arch os) (so_dynamic_weak os) (so_lk os) (so_add_dependency os) dep scope rq scope st)
              (\<lambda>((err, r), st'). Inr (case err of None \<Rightarrow> Inr (r, st') | Some e \<Rightarrow> Inl (LookupFailed e))))
      in if handle = RTLD_DEFAULT
         then (case res of
                 None \<Rightarrow> Inl SegFault
               | Some m \<Rightarrow> look True (sym_request name vers newest None m) (l_scope (so_objs os m)) st)
         else if handle = RTLD_NEXT
         then (if res = ns_loaded (dl_ns os) \<and>
                  (case res of None \<Rightarrow> True | Some m \<Rightarrow> caller < l_map_start (so_objs os m) \<or> l_map_end (so_objs os m) \<le> caller)
               then Inr (Inl NotDynamicallyLoaded)
               else case res of
                      None \<Rightarrow> Inl SegFault
                    | Some m \<Rightarrow>
                        bind_result (first_loader (Suc (length (concat (dl_ns os)))) (so_objs os) m) (\<lambda>l.
                          look False (sym_request name vers False (Some m) m) (l_local_scope (so_objs os l)) st))
         else let m = so_handle os handle
              in look False (sym_request name vers newest None m) (l_local_scope (so_objs os m)) st)"

definition sym_value :: "'w search_os \<Rightarrow> symref \<Rightarrow> nat \<Rightarrow> u64" where
  "sym_value os r m =
     (let s = ref_sym (so_lk os) r
      in indirect (so_ifunc os) s
           (if st_type s = STT_TLS then tls_get_addr os (l_tls_modid (so_objs os m)) (st_value s)
            else to_ptr (so_arch os) (sy_addr (so_objs os m) + st_value s)))"

text \<open>The auditors are asked when either of the two objects is audited, and cannot decline further calls.\<close>

fun sym_audit_loop ::
  "(nat \<Rightarrow> u32) \<Rightarrow> (nat \<Rightarrow> u32) \<Rightarrow> audit_call \<Rightarrow> 'w auditor list \<Rightarrow> nat \<Rightarrow> u32 \<times> Sym \<times> 'w \<Rightarrow> u32 \<times> Sym \<times> 'w" where
  "sym_audit_loop bfrom bto call [] cnt st = st"
| "sym_audit_loop bfrom bto call (a # as) cnt (altvalue, s, w) =
     sym_audit_loop bfrom bto call as (cnt + 1)
       (if bfrom cnt AND LA_FLG_BINDFROM \<noteq> 0 \<or> bto cnt AND LA_FLG_BINDTO \<noteq> 0
        then (case call_symbind a call (altvalue OR LA_SYMB_DLSYM) altvalue s w of (_, altvalue1, s1, w1) \<Rightarrow> (altvalue1, s1, w1))
        else (altvalue, s, w))"

definition sym_audit :: "'w search_os \<Rightarrow> nat option \<Rightarrow> symref \<Rightarrow> nat \<Rightarrow> u64 \<Rightarrow> 'w \<Rightarrow> (u64 \<times> 'w) result" where
  "sym_audit os caller_map r m value w =
     (if so_audit os = [] then Inr (value, w)
      else case caller_map of
             None \<Rightarrow> Inl SegFault
           | Some c \<Rightarrow>
               if so_any_plt os c \<or> so_any_plt os m
               then let ref = ref_sym (so_lk os) r;
                        s = ref\<lparr>st_value := value\<rparr>;
                        (_, s1, w1) =
                          sym_audit_loop (so_bindflags os c) (so_bindflags os m)
                            \<lparr>ac_sym = s, ac_ndx = of_nat (snd r), ac_from = c, ac_to = m, ac_name = st_name ref\<rparr>
                            (so_audit os) 0 (0, s, w)
                    in Inr (st_value s1, w1)
               else Inr (value, w))"

definition do_sym ::
  "'w search_os \<Rightarrow> u64 \<Rightarrow> string \<Rightarrow> u64 \<Rightarrow> found_version option \<Rightarrow> bool \<Rightarrow> lk_state \<Rightarrow> 'w \<Rightarrow> (sym_error + u64 \<times> lk_state \<times> 'w) result" where
  "do_sym os handle name who vers newest st w =
     (let res = find_caller (so_arch os) (so_objs os) (dl_ns os) who
      in bind_result (sym_lookup os handle name who vers newest res st) (\<lambda>found.
           case found of
             Inl e \<Rightarrow> Inr (Inl e)
           | Inr ((Some r, Some m), st1) \<Rightarrow>
               bind_result (sym_audit os res r m (sym_value os r m) w) (\<lambda>(value, w1). Inr (Inr (value, st1, w1)))
           | Inr (_, st1) \<Rightarrow> Inr (Inr (0, st1, w))))"

definition dl_vsym ::
  "'w search_os \<Rightarrow> u64 \<Rightarrow> string \<Rightarrow> string \<Rightarrow> u64 \<Rightarrow> lk_state \<Rightarrow> 'w \<Rightarrow> (sym_error + u64 \<times> lk_state \<times> 'w) result" where
  "dl_vsym os handle name version who st w =
     do_sym os handle name who (Some \<lparr>fv_name = version, fv_hash = dl_elf_hash version, fv_hidden = True, fv_filename = None\<rparr>) False st w"

definition dl_sym_search ::
  "'w search_os \<Rightarrow> u64 \<Rightarrow> string \<Rightarrow> u64 \<Rightarrow> lk_state \<Rightarrow> 'w \<Rightarrow> (sym_error + u64 \<times> lk_state \<times> 'w) result" where
  "dl_sym_search os handle name who st w = do_sym os handle name who None True st w"

section \<open>What is found\<close>

text \<open>A search that starts behind an object, \<^verbatim>\<open>skip_map\<close>.\<close>

lemma lookup_next:
  assumes "scope_ok A maps rq (drop i s)" "rq_version rq = None \<or> \<not> rq_newest rq" "rq_skip rq = Some k" "rq_ref rq = None"
    and "first_index (\<lambda>x. x = k) s = Some i"
  shows "dl_lookup_symbol_x (Suc fuel) A False maps add_dep False own_scope rq [s] st =
    Inr (case first_definition maps rq (drop i s) of
           None \<Rightarrow> ((None, (None, None)), st)
         | Some (m, j) \<Rightarrow> ((None, (Some (m, j), Some m)), st\<lparr>lk_used := (lk_used st)(m := True)\<rparr>))"
proof -
  have "i < length s" using assms(5) by (simp add: first_index_Some_iff)
  then have "scopes_loop A False maps rq False [s] i (None, None) st =
      Inr (case first_definition maps rq (drop i s) of None \<Rightarrow> (0, (None, None), st) | Some (m, j) \<Rightarrow> (1, (Some (m, j), Some m), st))"
    using lookup_loop_first [OF assms(1), of "(None, None)" st] by (auto simp: do_lookup_x_def split: option.split)
  then show ?thesis
    using assms(2-5) by (auto simp: start_of_def protect_def split: option.split)
qed

text \<open>Objects without auditors, and a lookup that can be tried.\<close>

definition search_ok :: "'w search_os \<Rightarrow> bool" where
  "search_ok os \<longleftrightarrow> so_audit os = [] \<and> \<not> so_dynamic_weak os \<and> 0 < so_fuel os"

definition sym_result ::
  "'w search_os \<Rightarrow> symref option \<Rightarrow> (sym_error + u64 \<times> lk_state \<times> 'w) \<Rightarrow> lk_state \<Rightarrow> 'w \<Rightarrow> (sym_error + u64 \<times> lk_state \<times> 'w) result" where
  "sym_result os found none st w =
     Inr (case found of None \<Rightarrow> none | Some (m, i) \<Rightarrow> Inr (sym_value os (m, i) m, st\<lparr>lk_used := (lk_used st)(m := True)\<rparr>, w))"

lemma do_sym_cases:
  assumes "search_ok os" "sym_lookup os handle name who vers newest (find_caller (so_arch os) (so_objs os) (dl_ns os) who) st =
      Inr (case found of None \<Rightarrow> none | Some (m, i) \<Rightarrow> Inr ((Some (m, i), Some m), st\<lparr>lk_used := (lk_used st)(m := True)\<rparr>))"
    and "none' = (case none of Inl e \<Rightarrow> Inl e | Inr (_, st1) \<Rightarrow> Inr (0, st1, w))"
    and "\<forall>r st1. none = Inr (r, st1) \<longrightarrow> fst r = None"
  shows "do_sym os handle name who vers newest st w = sym_result os found none' st w"
proof (cases found)
  case None
  show ?thesis
    using assms by (cases none) (auto simp: None do_sym_def sym_result_def Let_def split: prod.splits)
next
  case (Some d)
  then show ?thesis
    using assms(1,2) by (cases d) (simp add: do_sym_def sym_result_def sym_audit_def search_ok_def)
qed

lemma search_default:
  assumes "search_ok os" "find_caller (so_arch os) (so_objs os) (dl_ns os) who = Some c" "scopes = l_scope (so_objs os c)"
    and "\<forall>s \<in> set scopes. s \<noteq> []" "rq = sym_request name None True None c" "scope_ok (so_arch os) (so_lk os) rq (concat scopes)"
    and "\<forall>m. lk_type (so_lk os m) = lt_loaded \<longrightarrow> so_add_dependency os (so_fuel os - 1) (Some c) m"
  shows "dl_sym_search os RTLD_DEFAULT name who st w =
    sym_result os (first_definition (so_lk os) rq (concat scopes)) (Inl (LookupFailed SymbolLookupError)) st w"
proof -
  obtain fuel where f: "so_fuel os = Suc fuel" using assms(1) by (auto simp: search_ok_def gr0_conv_Suc)
  have "dl_lookup_symbol_x (Suc fuel) (so_arch os) False (so_lk os) (so_add_dependency os) True scopes rq scopes st =
      Inr (case first_definition (so_lk os) rq (concat scopes) of
           None \<Rightarrow> ((Some SymbolLookupError, (None, None)), st)
         | Some (m, i) \<Rightarrow> ((None, (Some (m, i), Some m)), st\<lparr>lk_used := (lk_used st)(m := True)\<rparr>))"
    using assms(7) f by (subst lookup_first [OF assms(4,6)]) (simp_all add: assms(5) sym_request_def)
  then have "sym_lookup os RTLD_DEFAULT name who None True (find_caller (so_arch os) (so_objs os) (dl_ns os) who) st =
      Inr (case first_definition (so_lk os) rq (concat scopes) of None \<Rightarrow> Inl (LookupFailed SymbolLookupError)
           | Some (m, i) \<Rightarrow> Inr ((Some (m, i), Some m), st\<lparr>lk_used := (lk_used st)(m := True)\<rparr>))"
    using assms(1) unfolding assms(3,5)
    by (cases "first_definition (so_lk os) (sym_request name None True None c) (concat (l_scope (so_objs os c)))")
      (simp_all add: sym_lookup_def search_ok_def assms(2) f case_prod_beta del: dl_lookup_symbol_x.simps first_loader.simps)
  from do_sym_cases [OF assms(1) this refl] show ?thesis by (simp add: dl_sym_search_def)
qed

lemma first_definition_skip:
  assumes "rq_skip rq = Some c" "lk_real (maps c) = c" "s ! i = c" "i < length s"
  shows "first_definition maps rq (drop i s) = first_definition maps rq (drop (Suc i) s)"
    "scope_ok A maps rq (drop i s) = scope_ok A maps rq (drop (Suc i) s)"
proof -
  have "drop i s = c # drop (Suc i) s" using assms(3,4) by (metis Cons_nth_drop_Suc)
  then have "searched maps rq (drop i s) = searched maps rq (drop (Suc i) s)"
    using assms(1,2) by (simp add: searched_def skipped_def)
  then show "first_definition maps rq (drop i s) = first_definition maps rq (drop (Suc i) s)"
    "scope_ok A maps rq (drop i s) = scope_ok A maps rq (drop (Suc i) s)"
    by (simp_all add: first_definition_def scope_ok_def)
qed

section \<open>Properties\<close>

text \<open>C34. \<^verbatim>\<open>dlsym\<close> and \<^verbatim>\<open>dlvsym\<close> with \<^verbatim>\<open>RTLD_NEXT\<close>, from code in a loaded object with well-formed GNU hash tables behind it: the address
  of the first definition, in a fitting version, in the objects that follow the caller's in the local scope of the object that was
  loaded first, and without one a null pointer and no error; the caller's own definition is never found.\<close>

theorem dlsym_next:
  assumes "search_ok os" "find_caller (so_arch os) (so_objs os) (dl_ns os) who = Some c" "caller_in (so_arch os) (so_objs os c) who"
    and "first_loader (Suc (length (concat (dl_ns os)))) (so_objs os) c = Inr l" "l_local_scope (so_objs os l) = [s]"
    and "first_index (\<lambda>x. x = c) s = Some i" "lk_real (so_lk os c) = c"
    and "rq = sym_request name vers False (Some c) c" "scope_ok (so_arch os) (so_lk os) rq (drop (Suc i) s)"
  shows "do_sym os RTLD_NEXT name who vers newest st w =
    sym_result os (first_definition (so_lk os) rq (drop (Suc i) s)) (Inr (0, st, w)) st w"
proof -
  obtain fuel where f: "so_fuel os = Suc fuel" using assms(1) by (auto simp: search_ok_def gr0_conv_Suc)
  have i: "s ! i = c" "i < length s" using assms(6) by (simp_all add: first_index_Some_iff)
  have rq: "rq_skip rq = Some c" "rq_version rq = None \<or> \<not> rq_newest rq" "rq_ref rq = None" by (simp_all add: assms(8) sym_request_def)
  note skip = first_definition_skip [of rq c "so_lk os", OF rq(1) assms(7) i]
  have "dl_lookup_symbol_x (Suc fuel) (so_arch os) False (so_lk os) (so_add_dependency os) False [s] rq [s] st =
      Inr (case first_definition (so_lk os) rq (drop (Suc i) s) of
           None \<Rightarrow> ((None, (None, None)), st)
         | Some (m, j) \<Rightarrow> ((None, (Some (m, j), Some m)), st\<lparr>lk_used := (lk_used st)(m := True)\<rparr>))"
    using lookup_next [OF assms(9) [folded skip(2)] rq(2,1,3) assms(6)] unfolding skip(1) .
  moreover have "\<not> (who < l_map_start (so_objs os c) \<or> l_map_end (so_objs os c) \<le> who)" "RTLD_NEXT \<noteq> RTLD_DEFAULT"
    using assms(3) by (auto simp: caller_in_def not_less RTLD_NEXT_def RTLD_DEFAULT_def)
  ultimately have "sym_lookup os RTLD_NEXT name who vers newest (find_caller (so_arch os) (so_objs os) (dl_ns os) who) st =
      Inr (case first_definition (so_lk os) rq (drop (Suc i) s) of None \<Rightarrow> Inr ((None, None), st)
           | Some (m, i) \<Rightarrow> Inr ((Some (m, i), Some m), st\<lparr>lk_used := (lk_used st)(m := True)\<rparr>))"
    using assms(1) unfolding assms(8)
    by (cases "first_definition (so_lk os) (sym_request name vers False (Some c) c) (drop (Suc i) s)")
      (simp_all add: sym_lookup_def search_ok_def assms(2,4,5) f case_prod_beta del: dl_lookup_symbol_x.simps first_loader.simps)
  from do_sym_cases [OF assms(1) this refl] show ?thesis by simp
qed

text \<open>The search as the parameter of \<open>Dl_Sym\<close>: the address, or nothing after an error.\<close>

definition search_address :: "'w search_os \<Rightarrow> u64 \<Rightarrow> lk_state \<Rightarrow> 'w \<Rightarrow> u64 \<Rightarrow> string \<Rightarrow> u64 option" where
  "search_address os who st w handle name =
     (case dl_sym_search os handle name who st w of Inr (Inr (value, _, _)) \<Rightarrow> Some value | _ \<Rightarrow> None)"

text \<open>C9. A profiled function that the program asks for by name: after the loader has bound another one,
  \<^verbatim>\<open>dlsym\<close> with \<^verbatim>\<open>RTLD_DEFAULT\<close> and its own search gives a redirector whose execution arrives at the wrapper with the address of
  the first definition in the scopes of the calling object.\<close>

theorem dlsym_profiled_definition:
  assumes "fixup_env_ok A env v os" "\<not> dl_bind_not os" "dlsym_env_ok os os'"
    and "attach (fx_ipc os) ELFPERF_SHARED_MEMORY_ID_REDIRECTOR_CONTEXT True \<noteq> None"
    and "fixup_inv A env v os st" "\<not> initialized st" "elfperfFuncs st = None" "\<not> errorDuringElfperfFunctionLoad st"
    and "event_ok A os os' maps v (Resolve l reloc)" "name \<in> set (fn_words v)" "name \<noteq> r_name reloc"
    and "dl_sym os' = search_address sos who lst w" "search_ok sos" "find_caller (so_arch sos) (so_objs sos) (dl_ns sos) who = Some c"
    and "\<forall>s \<in> set (l_scope (so_objs sos c)). s \<noteq> []" "rq = sym_request name None True None c"
    and "scope_ok (so_arch sos) (so_lk sos) rq (concat (l_scope (so_objs sos c)))"
    and "\<forall>m. lk_type (so_lk sos m) = lt_loaded \<longrightarrow> so_add_dependency sos (so_fuel sos - 1) (Some c) m"
    and "first_definition (so_lk sos) rq (concat (l_scope (so_objs sos c))) = Some (m, i)"
    and "f = sym_value sos (m, i) m" "unat f < address_limit A"
  shows "\<exists>g r st' ds'. bind_run A env os os' maps [Resolve l reloc, Dlsym RTLD_DEFAULT name] st fresh_dlsym = Inr ([g, r], st', ds') \<and>
       rrun A (vm_mem (fx_vm st')) (case A of ARCH_32 \<Rightarrow> 2 | ARCH_64 \<Rightarrow> 5) \<lparr>ip = r, ax = x, stk = s\<rparr> =
         Some (case A of ARCH_32 \<Rightarrow> \<lparr>ip = fx_wrapper os, ax = x, stk = f # s\<rparr>
                       | ARCH_64 \<Rightarrow> \<lparr>ip = fx_wrapper os, ax = fx_wrapper os, stk = f # x # s\<rparr>)"
proof -
  let ?es = "[Resolve l reloc, Dlsym RTLD_DEFAULT name]"
  have "dl_sym_search sos RTLD_DEFAULT name who lst w = sym_result sos (Some (m, i)) (Inl (LookupFailed SymbolLookupError)) lst w"
    using search_default [OF assms(13,14) refl assms(15-18), of lst w] unfolding assms(19) .
  then have a: "event_addr A os os' (Dlsym RTLD_DEFAULT name) = f"
    by (simp add: assms(12,20) search_address_def sym_result_def)
  have "\<forall>e \<in> set ?es. event_ok A os os' maps v e"
    using assms(9,10,21) a by simp
  from bindings_agree [OF assms(1-8) refl this, of x s]
  obtain rs st' ds' where rs: "bind_run A env os os' maps ?es st fresh_dlsym = Inr (rs, st', ds')" "length rs = 2"
      "\<forall>i < 2. let f = event_addr A os os' (the (find (\<lambda>e. event_name e = event_name (?es ! i)) ?es)) in
       rrun A (vm_mem (fx_vm st')) (case A of ARCH_32 \<Rightarrow> 2 | ARCH_64 \<Rightarrow> 5) \<lparr>ip = rs ! i, ax = x, stk = s\<rparr> =
         Some (case A of ARCH_32 \<Rightarrow> \<lparr>ip = fx_wrapper os, ax = x, stk = f # s\<rparr>
                       | ARCH_64 \<Rightarrow> \<lparr>ip = fx_wrapper os, ax = fx_wrapper os, stk = f # x # s\<rparr>)"
    by (auto simp: numeral_2_eq_2)
  then obtain g r where "rs = [g, r]" by (auto simp: numeral_2_eq_2 length_Suc_conv)
  moreover have "event_addr A os os' (the (find (\<lambda>e. event_name e = event_name (?es ! 1)) ?es)) = f"
    using assms(11) a by simp
  ultimately show ?thesis
    using rs(1) rs(3) [rule_format, of 1] by (auto simp: Let_def)
qed

text \<open>Three objects, of which the second and the third define \<open>f\<close>.\<close>

definition search_object :: "nat \<Rightarrow> sy_map" where
  "search_object m = \<lparr>sy_addr = of_nat m * 0x1000, l_map_start = of_nat m * 0x1000, l_map_end = of_nat m * 0x1000 + 0x1000,
     l_contiguous = True, l_phdr = [], l_loader = (if m = 2 then Some 0 else None), l_scope = [[0, 1, 2]],
     l_local_scope = [[0, 1, 2]], l_tls_modid = 0\<rparr>"

definition example_search :: "unit search_os" where
  "example_search = \<lparr>so_arch = ARCH_64, so_fuel = 1, so_lk = lk_example, so_objs = search_object, dl_ns = [[0, 1, 2]],
     so_handle = unat, so_add_dependency = (\<lambda>_ _ _. True), so_dynamic_weak = False, tls_get_addr = (\<lambda>_ _. 0), so_ifunc = (\<lambda>a. a),
     so_audit = [], so_any_plt = (\<lambda>_. False), so_bindflags = (\<lambda>_ _. 0)\<rparr>"

lemma example_search_ok:
  "search_ok example_search" "find_caller ARCH_64 search_object [[0, 1, 2]] 0x34 = Some 0" "find_caller ARCH_64 search_object [[0, 1, 2]] 0x1234 = Some 1"
  "caller_in ARCH_64 (search_object 1) 0x1234" "first_loader (Suc (length (concat [[0 :: nat, 1, 2]]))) search_object 1 = Inr 1"
  "sym_value example_search (1, 1) 1 = 0x1500" "sym_value example_search (2, 1) 2 = 0x2500"
  by (simp_all add: search_ok_def example_search_def find_caller_def search_object_def caller_in_def sym_value_def ref_sym_def
      lk_example_def lk_object_def lk_sym_def indirect_def STT_GNU_IFUNC_def STT_TLS_def)

lemma example_search_scope:
  assumes "rq = sym_request ''f'' None newest skip c"
  shows "scope_ok A lk_example rq [0, 1, 2]" "scope_ok A lk_example rq [2]"
    "skip = None \<Longrightarrow> first_definition lk_example rq [0, 1, 2] = Some (1, 1)"
    "skip = Some 1 \<Longrightarrow> first_definition lk_example rq [2] = Some (2, 1)"
proof -
  have d: "definition_in lk_example rq 1 = Some 1" "definition_in lk_example rq 2 = Some 1"
    using lk_example_defines [of _ rq] by (simp_all add: assms sym_request_def)
  have plain: "plain_request rq lk_example m" "st_bind (l_symtab (lk_example m) ! 1) = STB_GLOBAL" "lk_real (lk_example m) = m" for m
    by (simp_all add: plain_request_def assms sym_request_def lk_example_def lk_object_def lk_sym_def)
  have s: "skipped lk_example rq 0" "skip = None \<Longrightarrow> \<not> skipped lk_example rq 1" "skip = Some 1 \<Longrightarrow> \<not> skipped lk_example rq 2"
    by (simp_all add: skipped_def assms sym_request_def lk_example_def lk_object_def is_copy_def)
  show "scope_ok A lk_example rq [0, 1, 2]" "scope_ok A lk_example rq [2]"
    using s(1) d plain lk_example_table [of _ A] by (auto simp: scope_ok_def searched_def)
  show "skip = None \<Longrightarrow> first_definition lk_example rq [0, 1, 2] = Some (1, 1)"
    "skip = Some 1 \<Longrightarrow> first_definition lk_example rq [2] = Some (2, 1)"
    using s d plain(3) by (simp_all add: first_definition_def searched_def)
qed

lemma example_search_simps:
  "so_objs example_search = search_object" "dl_ns example_search = [[0, 1, 2]]" "so_lk example_search = lk_example"
  "so_arch example_search = ARCH_64" "so_add_dependency example_search = (\<lambda>_ _ _. True)" "l_scope (search_object m) = [[0, 1, 2]]"
  "l_local_scope (search_object m) = [[0, 1, 2]]" "lk_real (lk_example m) = m"
  by (simp_all add: example_search_def search_object_def lk_example_def lk_object_def)

theorem dlsym_next_witness:
  "\<exists>st. do_sym example_search RTLD_NEXT ''f'' 0x1234 None True resolve_state () = Inr (Inr (0x2500, st, ()))"
proof -
  have "first_index (\<lambda>x. x = 1) [0, 1, 2 :: nat] = Some 1" by simp
  then show ?thesis
    using dlsym_next [of example_search "0x1234" 1 1 "[0, 1, 2]" 1 "sym_request ''f'' None False (Some 1) 1" "''f''" None True resolve_state "()"]
      example_search_ok example_search_scope [OF refl]
    by (simp add: example_search_simps sym_result_def numeral_2_eq_2)
qed

theorem dlsym_profiled_definition_witness:
  "\<exists>g r st' ds'. bind_run ARCH_64 example_environ example_fixup_os
        (example_dlsym_os\<lparr>dl_sym := search_address example_search 0x34 resolve_state ()\<rparr>) example_maps
        [Resolve 2 (example_reloc ''g'' 0), Dlsym RTLD_DEFAULT ''f''] example_fixup_state fresh_dlsym = Inr ([g, r], st', ds') \<and>
     rrun ARCH_64 (vm_mem (fx_vm st')) 5 \<lparr>ip = r, ax = 7, stk = [42]\<rparr> = Some \<lparr>ip = 0x7000, ax = 0x7000, stk = [0x1500, 7, 42]\<rparr>"
proof -
  let ?os = "example_dlsym_os\<lparr>dl_sym := search_address example_search 0x34 resolve_state ()\<rparr>"
  have st: "\<not> initialized example_fixup_state" "elfperfFuncs example_fixup_state = None"
      "\<not> errorDuringElfperfFunctionLoad example_fixup_state" "\<not> dl_bind_not example_fixup_os" "fx_wrapper example_fixup_os = 0x7000"
      "attach (fx_ipc example_fixup_os) ELFPERF_SHARED_MEMORY_ID_REDIRECTOR_CONTEXT True \<noteq> None"
      "dlsym_env_ok example_fixup_os ?os" "dl_sym ?os = search_address example_search 0x34 resolve_state ()"
    using example_dlsym_env by (simp_all add: example_fixup_state_def example_fixup_os_def attach_def dlsym_env_ok_def)
  have ok: "event_ok ARCH_64 example_fixup_os ?os example_maps ''f:g'' (Resolve 2 (example_reloc ''g'' 0))" "''f'' \<noteq> r_name (example_reloc ''g'' 0)"
      "''f'' \<in> set (fn_words ''f:g'')"
    using example_fixup_env(3-7) by (simp_all add: example_reloc_def) (simp add: example_fixup_os_def symbol_value_def)
  show ?thesis
    using dlsym_profiled_definition [OF example_fixup_env(1) st(4,7,6) example_fixup_env(2) st(1-3) ok(1,3,2) st(8)
        example_search_ok(1), of 0 "sym_request ''f'' None True None 0" 1 1 "0x1500" 7 "[42]"]
      example_search_ok example_search_scope [OF refl] st(5)
    by (simp add: example_search_simps)
qed

end
