(* ===== verification/Elf_Hook.thy ===== *)
theory Elf_Hook
  imports Redirector
begin

text \<open>
  The other way to divert calls, \<^verbatim>\<open>calls-redir/elf_hook.c\<close>: the file of a loaded module is parsed
  for the relocations of an imported function, and their targets are overwritten. A file is its
  list of bytes; the structures are decoded at the offsets of \<^verbatim>\<open>elf.h\<close> for either class.
\<close>

section \<open>Structures\<close>

definition field :: "byte list \<Rightarrow> nat \<Rightarrow> nat \<Rightarrow> nat" where
  "field bs off n = of_le (take n (drop off bs))"

record Elf_Ehdr =
  e_shoff :: nat
  e_shnum :: nat
  e_shstrndx :: nat

record Elf_Shdr =
  sh_name :: nat
  sh_type :: nat
  sh_addr :: nat
  sh_offset :: nat
  sh_size :: nat
  sh_link :: nat

fun word_bytes :: "arch \<Rightarrow> nat" where
  "word_bytes ARCH_32 = 4"
| "word_bytes ARCH_64 = 8"

fun ehdr_size :: "arch \<Rightarrow> nat" where
  "ehdr_size ARCH_32 = 52"
| "ehdr_size ARCH_64 = 64"

fun shdr_size :: "arch \<Rightarrow> nat" where
  "shdr_size ARCH_32 = 40"
| "shdr_size ARCH_64 = 64"

fun sym_size :: "arch \<Rightarrow> nat" where
  "sym_size ARCH_32 = 16"
| "sym_size ARCH_64 = 24"

fun rel_size :: "arch \<Rightarrow> nat" where
  "rel_size ARCH_32 = 8"
| "rel_size ARCH_64 = 24"

fun decode_ehdr :: "arch \<Rightarrow> byte list \<Rightarrow> Elf_Ehdr" where
  "decode_ehdr ARCH_32 bs = \<lparr>e_shoff = field bs 32 4, e_shnum = field bs 48 2, e_shstrndx = field bs 50 2\<rparr>"
| "decode_ehdr ARCH_64 bs = \<lparr>e_shoff = field bs 40 8, e_shnum = field bs 60 2, e_shstrndx = field bs 62 2\<rparr>"

fun decode_shdr :: "arch \<Rightarrow> byte list \<Rightarrow> Elf_Shdr" where
  "decode_shdr ARCH_32 bs = \<lparr>sh_name = field bs 0 4, sh_type = field bs 4 4, sh_addr = field bs 12 4,
     sh_offset = field bs 16 4, sh_size = field bs 20 4, sh_link = field bs 24 4\<rparr>"
| "decode_shdr ARCH_64 bs = \<lparr>sh_name = field bs 0 4, sh_type = field bs 4 4, sh_addr = field bs 16 8,
     sh_offset = field bs 24 8, sh_size = field bs 32 8, sh_link = field bs 40 4\<rparr>"

text \<open>The entry of an array of structures of size \<open>k\<close>.\<close>

definition entry :: "nat \<Rightarrow> byte list \<Rightarrow> nat \<Rightarrow> byte list" where
  "entry k bs i = take k (drop (k * i) bs)"

fun REL_PLT :: "arch \<Rightarrow> string" where
  "REL_PLT ARCH_32 = ''.rel.plt''"
| "REL_PLT ARCH_64 = ''.rela.plt''"

fun REL_DYN :: "arch \<Rightarrow> string" where
  "REL_DYN ARCH_32 = ''.rel.dyn''"
| "REL_DYN ARCH_64 = ''.rela.dyn''"

definition SHT_DYNSYM :: nat where "SHT_DYNSYM = 11"

definition EINVAL :: nat where "EINVAL = 22"

section \<open>Reading the file\<close>

text \<open>
  \<^verbatim>\<open>lseek\<close> and \<^verbatim>\<open>read\<close>: an offset that is negative as \<^verbatim>\<open>off_t\<close> and a position at or after the end of
  the file fail with \<^verbatim>\<open>EINVAL\<close>, as does a request for no bytes; at the end fewer bytes are
  delivered, and the rest of the buffer is what \<^verbatim>\<open>malloc\<close> left there (\<open>junk\<close>).
\<close>

definition read_at :: "arch \<Rightarrow> (nat \<Rightarrow> byte) \<Rightarrow> byte list \<Rightarrow> nat \<Rightarrow> nat \<Rightarrow> byte list option" where
  "read_at A junk file off n =
     (if 2 ^ (8 * word_bytes A - 1) \<le> off \<or> length file \<le> off \<or> n = 0 then None
      else let bs = take n (drop off file) in Some (bs @ map junk [length bs..<n]))"

text \<open>A routine gives its return code, what it stores through its last argument and \<^verbatim>\<open>errno\<close>; a
  fault of an access is \<open>Inl\<close>.\<close>

type_synonym 'a io = "(nat \<times> 'a option \<times> nat) result"

definition io_read :: "'a option \<Rightarrow> nat \<Rightarrow> 'a io" where
  "io_read r errno = (case r of None \<Rightarrow> Inr (EINVAL, None, EINVAL) | Some x \<Rightarrow> Inr (0, Some x, errno))"

definition read_header :: "arch \<Rightarrow> (nat \<Rightarrow> byte) \<Rightarrow> byte list \<Rightarrow> nat \<Rightarrow> Elf_Ehdr io" where
  "read_header A junk file errno = io_read (map_option (decode_ehdr A) (read_at A junk file 0 (ehdr_size A))) errno"

definition read_section_table :: "arch \<Rightarrow> (nat \<Rightarrow> byte) \<Rightarrow> byte list \<Rightarrow> Elf_Ehdr \<Rightarrow> nat \<Rightarrow> Elf_Shdr list io" where
  "read_section_table A junk file header errno =
     io_read (map_option (\<lambda>bs. map (\<lambda>i. decode_shdr A (entry (shdr_size A) bs i)) [0..<e_shnum header])
                (read_at A junk file (e_shoff header) (e_shnum header * shdr_size A))) errno"

text \<open>The three tables of a section are read in the same way; a null section is \<^verbatim>\<open>EINVAL\<close>, and
  \<^verbatim>\<open>errno\<close> is not set then.\<close>

definition read_section :: "arch \<Rightarrow> (nat \<Rightarrow> byte) \<Rightarrow> byte list \<Rightarrow> Elf_Shdr option \<Rightarrow> nat \<Rightarrow> byte list io" where
  "read_section A junk file section errno =
     (case section of
        None \<Rightarrow> Inr (EINVAL, None, errno)
      | Some s \<Rightarrow> io_read (read_at A junk file (sh_offset s) (sh_size s)) errno)"

definition read_string_table :: "arch \<Rightarrow> (nat \<Rightarrow> byte) \<Rightarrow> byte list \<Rightarrow> Elf_Shdr option \<Rightarrow> nat \<Rightarrow> byte list io" where
  "read_string_table A junk file section errno = read_section A junk file section errno"

definition read_symbol_table :: "arch \<Rightarrow> (nat \<Rightarrow> byte) \<Rightarrow> byte list \<Rightarrow> Elf_Shdr option \<Rightarrow> nat \<Rightarrow> byte list list io" where
  "read_symbol_table A junk file section errno =
     bind_result (read_section A junk file section errno) (\<lambda>(rc, bs, e).
       Inr (rc, map_option (\<lambda>b. map (entry (sym_size A) b) [0..<length b div sym_size A]) bs, e))"

definition read_relocation_table :: "arch \<Rightarrow> (nat \<Rightarrow> byte) \<Rightarrow> byte list \<Rightarrow> Elf_Shdr option \<Rightarrow> nat \<Rightarrow> byte list list io" where
  "read_relocation_table A junk file section errno =
     bind_result (read_section A junk file section errno) (\<lambda>(rc, bs, e).
       Inr (rc, map_option (\<lambda>b. map (entry (rel_size A) b) [0..<length b div rel_size A]) bs, e))"

text \<open>The calls joined by \<^verbatim>\<open>||\<close>: the first one that returns a code other than zero ends the chain, and
  the caller returns \<^verbatim>\<open>errno\<close>.\<close>

definition and_then :: "'a io \<Rightarrow> ('a \<Rightarrow> nat \<Rightarrow> 'b io) \<Rightarrow> 'b io" where
  "and_then m f =
     bind_result m (\<lambda>(rc, x, e).
       if rc \<noteq> 0 then Inr (e, None, e) else case x of None \<Rightarrow> Inl SegFault | Some y \<Rightarrow> f y e)"

text \<open>\<^verbatim>\<open>strcmp\<close> of a name with the string at an offset of a table.\<close>

fun str_at :: "byte list \<Rightarrow> byte list \<Rightarrow> nat \<Rightarrow> bool result" where
  "str_at [] tab off = (if off < length tab then Inr (tab ! off = 0) else Inl OutOfBounds)"
| "str_at (c # cs) tab off =
     (if off < length tab then (if tab ! off = c then str_at cs tab (off + 1) else Inr False)
      else Inl OutOfBounds)"

definition bytes_of :: "string \<Rightarrow> byte list" where
  "bytes_of s = map of_char s"

text \<open>The first of a list whose name, at an offset that \<open>f\<close> gives, is the one looked for.\<close>

fun name_loop :: "byte list \<Rightarrow> byte list \<Rightarrow> ('a \<Rightarrow> nat) \<Rightarrow> 'a list \<Rightarrow> nat \<Rightarrow> (nat \<times> 'a) option result" where
  "name_loop nm tab f [] i = Inr None"
| "name_loop nm tab f (x # xs) i =
     bind_result (str_at nm tab (f x)) (\<lambda>b. if b then Inr (Some (i, x)) else name_loop nm tab f xs (Suc i))"


section \<open>Sections and symbols\<close>

definition section_by_index :: "arch \<Rightarrow> (nat \<Rightarrow> byte) \<Rightarrow> byte list \<Rightarrow> nat \<Rightarrow> nat \<Rightarrow> Elf_Shdr io" where
  "section_by_index A junk file index errno =
     and_then (read_header A junk file errno) (\<lambda>header e.
     and_then (read_section_table A junk file header e) (\<lambda>sections e.
       if index < e_shnum header then Inr (0, Some (sections ! index), e) else Inr (EINVAL, None, e)))"

text \<open>The two searches store a null pointer and return zero when there is no such section.\<close>

definition section_by_type :: "arch \<Rightarrow> (nat \<Rightarrow> byte) \<Rightarrow> byte list \<Rightarrow> nat \<Rightarrow> nat \<Rightarrow> Elf_Shdr io" where
  "section_by_type A junk file section_type errno =
     and_then (read_header A junk file errno) (\<lambda>header e.
     and_then (read_section_table A junk file header e) (\<lambda>sections e.
       Inr (0, find (\<lambda>s. section_type = sh_type s) sections, e)))"

definition section_by_name :: "arch \<Rightarrow> (nat \<Rightarrow> byte) \<Rightarrow> byte list \<Rightarrow> string \<Rightarrow> nat \<Rightarrow> Elf_Shdr io" where
  "section_by_name A junk file section_name errno =
     and_then (read_header A junk file errno) (\<lambda>header e.
     and_then (read_section_table A junk file header e) (\<lambda>sections e.
       if e_shstrndx header < length sections
       then and_then (read_string_table A junk file (Some (sections ! e_shstrndx header)) e) (\<lambda>strings e.
              bind_result (name_loop (bytes_of section_name) strings sh_name sections 0)
                (\<lambda>r. Inr (0, map_option snd r, e)))
       else Inl OutOfBounds))"

text \<open>The symbol's index; it is zero when there is no symbol of the name, or when a table cannot be
  found and \<^verbatim>\<open>errno\<close>, which is the return code, has not been set.\<close>

definition symbol_by_name ::
  "arch \<Rightarrow> (nat \<Rightarrow> byte) \<Rightarrow> byte list \<Rightarrow> Elf_Shdr option \<Rightarrow> string \<Rightarrow> nat \<Rightarrow> (nat \<times> nat \<times> nat) result" where
  "symbol_by_name A junk file section name errno =
     (case section of
        None \<Rightarrow> Inl SegFault
      | Some s \<Rightarrow>
          bind_result
            (and_then (section_by_index A junk file (sh_link s) errno) (\<lambda>strings_section e.
             and_then (read_string_table A junk file (Some strings_section) e) (\<lambda>strings e.
             and_then (read_symbol_table A junk file (Some s) e) (\<lambda>symbols e.
               bind_result (name_loop (bytes_of name) strings (\<lambda>b. field b 0 4)
                              (take (sh_size s div sym_size A) symbols) 0)
                 (\<lambda>r. Inr (0, Some (case r of None \<Rightarrow> 0 | Some (i, x) \<Rightarrow> i), e))))))
            (\<lambda>(rc, i, e). Inr (rc, (case i of None \<Rightarrow> 0 | Some k \<Rightarrow> k), e)))"

section \<open>The hook\<close>

text \<open>A relocation of the loaded module: the place and the index of its symbol.\<close>

definition size_t :: "arch \<Rightarrow> memory \<Rightarrow> u64 \<Rightarrow> u64" where
  "size_t A m a = of_nat (of_le (load m a (word_bytes A)))"

definition store_size_t :: "arch \<Rightarrow> memory \<Rightarrow> u64 \<Rightarrow> u64 \<Rightarrow> memory" where
  "store_size_t A m a v = store m a (le_bytes (word_bytes A) v)"

fun ELF_R_SYM :: "arch \<Rightarrow> nat \<Rightarrow> nat" where
  "ELF_R_SYM ARCH_32 i = i div 2 ^ 8"
| "ELF_R_SYM ARCH_64 i = i div 2 ^ 32"

definition rel_entry :: "arch \<Rightarrow> memory \<Rightarrow> u64 \<Rightarrow> nat \<Rightarrow> u64 \<times> nat" where
  "rel_entry A m table i =
     (let a = to_ptr A (table + of_nat (rel_size A * i))
      in (size_t A m a, ELF_R_SYM A (unat (size_t A m (to_ptr A (a + of_nat (word_bytes A)))))))"

text \<open>The loop over the PLT relocations: the first one of the symbol is replaced. The result is the
  original target, zero for \<^verbatim>\<open>NULL\<close>.\<close>

fun plt_loop :: "arch \<Rightarrow> u64 \<Rightarrow> u64 \<Rightarrow> u64 \<Rightarrow> nat \<Rightarrow> nat list \<Rightarrow> memory \<Rightarrow> u64 \<times> memory" where
  "plt_loop A base table subst name_index [] m = (0, m)"
| "plt_loop A base table subst name_index (i # is) m =
     (let (r_offset, s) = rel_entry A m table i
      in if s = name_index
         then (let a = to_ptr A (base + r_offset) in (size_t A m a, store_size_t A m a subst))
         else plt_loop A base table subst name_index is m)"

text \<open>The loop over the other relocations, which rewrites the argument of every relative call;
  \<open>mprotect\<close> gives zero or the error number, and an \<^verbatim>\<open>errno\<close> left from before counts as a failure.
  The result is \<open>None\<close> for an early \<^verbatim>\<open>return NULL\<close>.\<close>

fun dyn_loop :: "arch \<Rightarrow> (u64 \<Rightarrow> nat \<Rightarrow> nat) \<Rightarrow> u64 \<Rightarrow> u64 \<Rightarrow> u64 \<Rightarrow> nat \<Rightarrow> nat list \<Rightarrow> u64 \<Rightarrow> nat \<Rightarrow> memory \<Rightarrow>
    u64 option \<times> memory" where
  "dyn_loop A mprotect base table subst name_index [] original errno m = (Some original, m)"
| "dyn_loop A mprotect base table subst name_index (i # is) original errno m =
     (let (r_offset, s) = rel_entry A m table i
      in if s \<noteq> name_index then dyn_loop A mprotect base table subst name_index is original errno m
         else let a = to_ptr A (base + r_offset);
                  w = of_nat (word_bytes A);
                  orig = (if original = 0 then to_ptr A (size_t A m a + a + w) else original);
                  e1 = (if mprotect a 0 \<noteq> 0 then mprotect a 0 else errno)
              in if e1 \<noteq> 0 then (None, m)
                 else let m1 = store_size_t A m a (to_ptr A (subst - a - w))
                      in if mprotect a 1 \<noteq> 0
                         then (None, store_size_t A m1 a (to_ptr A (orig - a - w)))
                         else dyn_loop A mprotect base table subst name_index is orig errno m1)"

definition elf_hook ::
  "arch \<Rightarrow> (nat \<Rightarrow> byte) \<Rightarrow> (u64 \<Rightarrow> nat \<Rightarrow> nat) \<Rightarrow> byte list option \<Rightarrow> u64 \<Rightarrow> string option \<Rightarrow> u64 \<Rightarrow> nat \<Rightarrow>
   memory \<Rightarrow> (u64 \<times> memory) result" where
  "elf_hook A junk mprotect module_file base name subst errno0 m =
     (if base = 0 \<or> name = None \<or> subst = 0 then Inr (0, m)
      else case module_file of
        None \<Rightarrow> Inr (0, m)
      | Some file \<Rightarrow>
          bind_result (section_by_type A junk file SHT_DYNSYM errno0) (\<lambda>(rc, dynsym, e).
          if rc \<noteq> 0 then Inr (0, m) else
          bind_result (symbol_by_name A junk file dynsym (the name) e) (\<lambda>(rc, name_index, e).
          if rc \<noteq> 0 then Inr (0, m) else
          bind_result (section_by_name A junk file (REL_PLT A) e) (\<lambda>(rc, rel_plt, e).
          if rc \<noteq> 0 then Inr (0, m) else
          bind_result (section_by_name A junk file (REL_DYN A) e) (\<lambda>(rc, rel_dyn, e).
          if rc \<noteq> 0 then Inr (0, m) else
          case (rel_plt, rel_dyn) of
            (Some rp, Some rd) \<Rightarrow>
              (let (original, m1) = plt_loop A base (to_ptr A (base + of_nat (sh_addr rp))) subst name_index
                                      [0..<sh_size rp div rel_size A] m
               in if original \<noteq> 0 then Inr (original, m1)
                  else case dyn_loop A mprotect base (to_ptr A (base + of_nat (sh_addr rd))) subst name_index
                              [0..<sh_size rd div rel_size A] 0 e m1 of
                         (None, m2) \<Rightarrow> Inr (0, m2)
                       | (Some r, m2) \<Rightarrow> Inr (r, m2))
          | _ \<Rightarrow> Inl SegFault)))))"


section \<open>Names\<close>

text \<open>The string at an offset of a table.\<close>

definition has_str :: "byte list \<Rightarrow> nat \<Rightarrow> byte list \<Rightarrow> bool" where
  "has_str tab off nm \<longleftrightarrow>
     off + length nm < length tab \<and> take (length nm) (drop off tab) = nm \<and> tab ! (off + length nm) = 0"

lemma str_at_True: "str_at nm tab off = Inr True \<longleftrightarrow> has_str tab off nm"
proof (induction nm tab off rule: str_at.induct)
  case (1 tab off)
  then show ?case by (auto simp: has_str_def)
next
  case (2 c cs tab off)
  have "take (length (c # cs)) (drop off tab) = c # cs \<longleftrightarrow>
      tab ! off = c \<and> take (length cs) (drop (off + 1) tab) = cs" if "off < length tab"
    using that by (simp add: Cons_nth_drop_Suc [symmetric])
  then show ?case
    using 2 by (auto simp: has_str_def)
qed

lemma name_loop_first:
  assumes "\<forall>x \<in> set xs. \<exists>b. str_at nm tab (f x) = Inr b"
  shows "name_loop nm tab f xs i =
    Inr (map_option (\<lambda>j. (i + j, xs ! j)) (first_index (\<lambda>x. has_str tab (f x) nm) xs))"
  using assms
proof (induction xs arbitrary: i)
  case (Cons x xs)
  then obtain b where b: "str_at nm tab (f x) = Inr b" by auto
  then have "b \<longleftrightarrow> has_str tab (f x) nm"
    using str_at_True [of nm tab "f x"] by auto
  then show ?case
    using Cons b by (auto simp: option.map_comp comp_def)
qed simp

section \<open>Replacing a target\<close>

lemma plt_loop_first:
  assumes "i < n" "rel_entry A m table i = (off, k)" "\<forall>j < i. snd (rel_entry A m table j) \<noteq> k"
  shows "plt_loop A base table subst k [0..<n] m =
    (let a = to_ptr A (base + off) in (size_t A m a, store_size_t A m a subst))"
proof -
  have "plt_loop A base table subst k [j..<n] m = (let a = to_ptr A (base + off) in (size_t A m a, store_size_t A m a subst))"
    if "j \<le> i" for j
    using that
  proof (induction "i - j" arbitrary: j)
    case 0
    then show ?case using assms(1,2) by (simp add: upt_conv_Cons)
  next
    case (Suc d)
    then have "j < i" by simp
    then have "snd (rel_entry A m table j) \<noteq> k" "j < n" using assms(1,3) by simp_all
    then show ?case
      using Suc by (cases "rel_entry A m table j") (simp add: upt_conv_Cons)
  qed
  then show ?thesis by simp
qed

lemma load_store_size_t: "load (store_size_t A m a v) a (word_bytes A) = le_bytes (word_bytes A) v"
  unfolding store_size_t_def using load_store_same [of "le_bytes (word_bytes A) v" m a]
  by (cases A) simp_all

lemma to_ptr_mod: "unat (to_ptr A a) = unat a mod 256 ^ word_bytes A"
proof (cases A)
  case ARCH_64
  then show ?thesis using unsigned_less [of a, where ?'a = nat] by simp
qed (simp add: unsigned_ucast_eq unsigned_take_bit_eq, simp add: take_bit_eq_mod)

lemma size_t_store: "size_t A (store_size_t A m a v) a = to_ptr A v"
  by (simp add: size_t_def load_store_size_t of_le_le_bytes to_ptr_mod [symmetric])

lemma store_size_t_other:
  "word_bytes A \<le> unat (x - a) \<Longrightarrow> store_size_t A m a v x = m x"
  by (simp add: store_size_t_def store_def)

lemma size_t_store_other:
  assumes "disjoint_ranges a (word_bytes A) b (word_bytes A)"
  shows "size_t A (store_size_t A m a v) b = size_t A m b"
  using assms by (cases A) (simp_all add: size_t_def store_size_t_def load_store_disjoint)

section \<open>A module\<close>

text \<open>A 64-bit module of five sections that imports one function.\<close>

definition le64 :: "u64 \<Rightarrow> byte list" where "le64 = le_bytes 8"
definition example_shdr :: "u32 \<Rightarrow> u32 \<Rightarrow> u64 \<Rightarrow> u64 \<Rightarrow> u64 \<Rightarrow> u32 \<Rightarrow> byte list" where
  "example_shdr nm ty addr off sz link =
     le_bytes 4 nm @ le_bytes 4 ty @ replicate 8 0 @ le64 addr @ le64 off @ le64 sz @ le_bytes 4 link @ replicate 20 0"

definition example_module :: "byte list" where
  "example_module =
     replicate 40 0 @ le64 64 @ replicate 12 0 @ [5, 0, 1, 0]
     @ replicate 64 0
     @ example_shdr 0 3 0 384 26 0
     @ example_shdr 0 11 0 410 48 1
     @ example_shdr 1 4 0x100 0 24 2
     @ example_shdr 11 4 0x200 0 0 2
     @ 0 # bytes_of ''.rela.plt'' @ 0 # bytes_of ''.rela.dyn'' @ 0 # bytes_of ''puts'' @ [0]
     @ replicate 24 0
     @ [21, 0, 0, 0] @ replicate 20 0"

definition example_mem :: memory where
  "example_mem = store_size_t ARCH_64 (store_size_t ARCH_64 (store_size_t ARCH_64 (\<lambda>_. 0) 0x400100 0x300)
     0x400108 0x100000007) 0x400300 0x7777"

definition example_sections :: "Elf_Shdr list" where
  "example_sections =
    [\<lparr>sh_name = 0, sh_type = 0, sh_addr = 0, sh_offset = 0, sh_size = 0, sh_link = 0\<rparr>,
     \<lparr>sh_name = 0, sh_type = 3, sh_addr = 0, sh_offset = 384, sh_size = 26, sh_link = 0\<rparr>,
     \<lparr>sh_name = 0, sh_type = 11, sh_addr = 0, sh_offset = 410, sh_size = 48, sh_link = 1\<rparr>,
     \<lparr>sh_name = 1, sh_type = 4, sh_addr = 0x100, sh_offset = 0, sh_size = 24, sh_link = 2\<rparr>,
     \<lparr>sh_name = 11, sh_type = 4, sh_addr = 0x200, sh_offset = 0, sh_size = 0, sh_link = 2\<rparr>]"

lemma length_example_shdr [simp]: "length (example_shdr nm ty addr off sz link) = 64"
  by (simp add: example_shdr_def le64_def)

lemma example_rel_entry: "rel_entry ARCH_64 example_mem 0x400100 0 = (0x300, 1)"
  by (simp add: rel_entry_def example_mem_def size_t_store size_t_store_other disjoint_ranges_def)

lemma example_slot: "size_t ARCH_64 example_mem 0x400300 = 0x7777"
  by (simp add: example_mem_def size_t_store)

section \<open>Properties\<close>

text \<open>The index that \<^verbatim>\<open>symbol_by_name\<close> finds in tables that can be read: that of the first
  symbol with the name, and zero, which is also the index of the null symbol, when there is none.
  The return code is zero in both cases.\<close>

lemma symbol_by_name_exact:
  assumes "section_by_index A junk file (sh_link s) errno = Inr (0, Some ss, e1)"
    and "read_string_table A junk file (Some ss) e1 = Inr (0, Some strings, e2)"
    and "read_symbol_table A junk file (Some s) e2 = Inr (0, Some symbols, e3)"
    and "\<forall>b \<in> set (take (sh_size s div sym_size A) symbols). \<exists>r. str_at (bytes_of name) strings (field b 0 4) = Inr r"
  shows "symbol_by_name A junk file (Some s) name errno =
    Inr (0, (case first_index (\<lambda>b. has_str strings (field b 0 4) (bytes_of name)) (take (sh_size s div sym_size A) symbols) of
               None \<Rightarrow> 0 | Some i \<Rightarrow> i), e3)"
  using assms name_loop_first [OF assms(4), of 0]
  by (auto simp: symbol_by_name_def and_then_def split: option.split)

text \<open>
  What a file says, by the layout of the format alone: the section headers; the bytes of a section; the
  first section of a name; the first symbol of a name in a symbol table. Offsets and sizes are those of \<^verbatim>\<open>elf.h\<close> for 32
  and 64 bits.
\<close>

definition file_sections :: "arch \<Rightarrow> byte list \<Rightarrow> Elf_Shdr list" where
  "file_sections A file =
     (case A of
        ARCH_32 \<Rightarrow> map (\<lambda>i. let p = field file 32 4 + 40 * i
           in \<lparr>sh_name = field file p 4, sh_type = field file (p + 4) 4, sh_addr = field file (p + 12) 4,
               sh_offset = field file (p + 16) 4, sh_size = field file (p + 20) 4, sh_link = field file (p + 24) 4\<rparr>)
           [0..<field file 48 2]
      | ARCH_64 \<Rightarrow> map (\<lambda>i. let p = field file 40 8 + 64 * i
           in \<lparr>sh_name = field file p 4, sh_type = field file (p + 4) 4, sh_addr = field file (p + 16) 8,
               sh_offset = field file (p + 24) 8, sh_size = field file (p + 32) 8, sh_link = field file (p + 40) 4\<rparr>)
           [0..<field file 60 2])"

definition names_index :: "arch \<Rightarrow> byte list \<Rightarrow> nat" where
  "names_index A file = (case A of ARCH_32 \<Rightarrow> field file 50 2 | ARCH_64 \<Rightarrow> field file 62 2)"

definition section_bytes :: "byte list \<Rightarrow> Elf_Shdr \<Rightarrow> byte list" where
  "section_bytes file s = take (sh_size s) (drop (sh_offset s) file)"

definition section_names :: "arch \<Rightarrow> byte list \<Rightarrow> byte list" where
  "section_names A file = section_bytes file (file_sections A file ! names_index A file)"

definition section_named :: "arch \<Rightarrow> byte list \<Rightarrow> string \<Rightarrow> Elf_Shdr \<Rightarrow> bool" where
  "section_named A file nm s \<longleftrightarrow>
     find (\<lambda>x. has_str (section_names A file) (sh_name x) (bytes_of nm)) (file_sections A file) = Some s"

definition symbol_names :: "arch \<Rightarrow> byte list \<Rightarrow> Elf_Shdr \<Rightarrow> byte list" where
  "symbol_names A file s = section_bytes file (file_sections A file ! sh_link s)"

definition symbol_name_at :: "arch \<Rightarrow> byte list \<Rightarrow> Elf_Shdr \<Rightarrow> nat \<Rightarrow> nat" where
  "symbol_name_at A file s j = field file (sh_offset s + (case A of ARCH_32 \<Rightarrow> 16 | ARCH_64 \<Rightarrow> 24) * j) 4"

definition symbol_count :: "arch \<Rightarrow> Elf_Shdr \<Rightarrow> nat" where
  "symbol_count A s = sh_size s div (case A of ARCH_32 \<Rightarrow> 16 | ARCH_64 \<Rightarrow> 24)"

definition symbol_named :: "arch \<Rightarrow> byte list \<Rightarrow> Elf_Shdr \<Rightarrow> string \<Rightarrow> nat \<Rightarrow> bool" where
  "symbol_named A file s nm k \<longleftrightarrow>
     k < symbol_count A s \<and> has_str (symbol_names A file s) (symbol_name_at A file s k) (bytes_of nm)
     \<and> (\<forall>j < k. \<not> has_str (symbol_names A file s) (symbol_name_at A file s j) (bytes_of nm))"

text \<open>A relocation of the loaded module: the place and the number of the symbol.\<close>

definition relocation_at :: "arch \<Rightarrow> memory \<Rightarrow> u64 \<Rightarrow> Elf_Shdr \<Rightarrow> nat \<Rightarrow> u64 \<times> nat" where
  "relocation_at A m base s i =
     (case A of
        ARCH_32 \<Rightarrow> let p = to_ptr A (to_ptr A (base + of_nat (sh_addr s)) + of_nat (8 * i))
                   in (of_nat (of_le (load m p 4)), of_le (load m (to_ptr A (p + 4)) 4) div 256)
      | ARCH_64 \<Rightarrow> let p = base + of_nat (sh_addr s) + of_nat (24 * i)
                   in (of_nat (of_le (load m p 8)), of_le (load m (p + 8) 8) div 2 ^ 32))"

text \<open>A file that can be read: the tables lie in it, and every name of a section or a symbol ends.\<close>

definition inside_file :: "byte list \<Rightarrow> Elf_Shdr \<Rightarrow> bool" where
  "inside_file file s \<longleftrightarrow> sh_size s \<noteq> 0 \<and> sh_offset s + sh_size s \<le> length file"

definition ends :: "byte list \<Rightarrow> nat \<Rightarrow> bool" where
  "ends tab off \<longleftrightarrow> 0 \<in> set (drop off tab)"

definition module_ok :: "arch \<Rightarrow> byte list \<Rightarrow> Elf_Shdr \<Rightarrow> bool" where
  "module_ok A file s \<longleftrightarrow>
     (case A of
        ARCH_32 \<Rightarrow> 52 \<le> length file \<and> field file 32 4 + 40 * field file 48 2 \<le> length file \<and> length file < 2 ^ 31
      | ARCH_64 \<Rightarrow> 64 \<le> length file \<and> field file 40 8 + 64 * field file 60 2 \<le> length file \<and> length file < 2 ^ 63)
     \<and> names_index A file < length (file_sections A file) \<and> sh_link s < length (file_sections A file)
     \<and> inside_file file (file_sections A file ! names_index A file)
     \<and> inside_file file (file_sections A file ! sh_link s) \<and> inside_file file s
     \<and> (\<forall>x \<in> set (file_sections A file). ends (section_names A file) (sh_name x))
     \<and> (\<forall>j < symbol_count A s. ends (symbol_names A file s) (symbol_name_at A file s j))"

lemma field_inside: "off + n \<le> k \<Longrightarrow> field (take k (drop a file)) off n = field file (a + off) n"
  by (simp add: field_def take_drop add.commute)

lemma field_take: "off + n \<le> k \<Longrightarrow> field (take k file) off n = field file off n"
  using field_inside [where a = 0] by simp

lemma read_at_inside:
  assumes "off + n \<le> length file" "n \<noteq> 0" "length file < 2 ^ (8 * word_bytes A - 1)"
  shows "read_at A junk file off n = Some (take n (drop off file))"
  using assms by (simp add: read_at_def Let_def)

lemma read_section_inside:
  assumes "inside_file file s" "length file < 2 ^ (8 * word_bytes A - 1)"
  shows "read_section A junk file (Some s) e = Inr (0, Some (section_bytes file s), e)"
  using assms by (simp add: read_section_def io_read_def inside_file_def read_at_inside section_bytes_def)

lemma str_at_ends: "0 \<notin> set nm \<Longrightarrow> ends tab off \<Longrightarrow> \<exists>b. str_at nm tab off = Inr b"
proof (induction nm tab off rule: str_at.induct)
  case (1 tab off)
  then show ?case by (cases "off < length tab") (simp_all add: ends_def)
next
  case (2 c cs tab off)
  then have "off < length tab" by (cases "off < length tab") (simp_all add: ends_def)
  moreover from this have "tab ! off = c \<Longrightarrow> ends tab (off + 1)"
    using 2 by (auto simp: ends_def Cons_nth_drop_Suc [symmetric])
  ultimately show ?case using 2 by auto
qed

lemma name_loop_find:
  assumes "0 \<notin> set nm" "\<forall>x \<in> set xs. ends tab (f x)"
  shows "bind_result (name_loop nm tab f xs i) (\<lambda>r. Inr (0, map_option snd r, e)) =
    Inr (0, find (\<lambda>x. has_str tab (f x) nm) xs, e)"
proof -
  have "map_option (\<lambda>j. xs ! j) (first_index P xs) = find P xs" for P
    by (induction xs) (auto simp: option.map_comp comp_def)
  then show ?thesis
    using assms str_at_ends by (subst name_loop_first) (auto simp: option.map_comp comp_def)
qed

lemma module_length: "module_ok A file s \<Longrightarrow> length file < 2 ^ (8 * word_bytes A - 1)"
  by (cases A) (simp_all add: module_ok_def)

lemma entry_table:
  assumes "i < n"
  shows "entry k (take (n * k) (drop p file)) i = take k (drop (p + k * i) file)"
proof -
  have "Suc i * k \<le> n * k" using assms by (intro mult_le_mono1) simp
  then show ?thesis by (simp add: entry_def drop_take min_def add.commute mult.commute)
qed

lemma decode_shdr_at:
  "decode_shdr ARCH_32 (take 40 (drop p file)) =
     \<lparr>sh_name = field file p 4, sh_type = field file (p + 4) 4, sh_addr = field file (p + 12) 4,
      sh_offset = field file (p + 16) 4, sh_size = field file (p + 20) 4, sh_link = field file (p + 24) 4\<rparr>"
  "decode_shdr ARCH_64 (take 64 (drop p file)) =
     \<lparr>sh_name = field file p 4, sh_type = field file (p + 4) 4, sh_addr = field file (p + 16) 8,
      sh_offset = field file (p + 24) 8, sh_size = field file (p + 32) 8, sh_link = field file (p + 40) 4\<rparr>"
  by (simp_all add: field_inside)

lemma read_header_inside:
  "module_ok A file s \<Longrightarrow> read_header A junk file e = Inr (0, Some (decode_ehdr A (take (ehdr_size A) file)), e)"
  using module_length [of A "file" s] by (cases A) (simp_all add: read_header_def io_read_def read_at_inside module_ok_def)

lemma decode_ehdr_file:
  "e_shnum (decode_ehdr A (take (ehdr_size A) file)) = length (file_sections A file)"
  "e_shstrndx (decode_ehdr A (take (ehdr_size A) file)) = names_index A file"
  by (cases A; simp add: file_sections_def names_index_def field_take)+

lemma read_section_table_inside:
  assumes "module_ok A file s"
  shows "read_section_table A junk file (decode_ehdr A (take (ehdr_size A) file)) e = Inr (0, Some (file_sections A file), e)"
proof -
  define n where "n = length (file_sections A file)"
  define p where "p = e_shoff (decode_ehdr A (take (ehdr_size A) file))"
  have n: "0 < n" using assms by (auto simp: module_ok_def n_def)
  have "p + n * shdr_size A \<le> length file"
    using assms by (cases A) (simp_all add: module_ok_def p_def n_def file_sections_def field_take mult.commute)
  then have "read_at A junk file p (n * shdr_size A) = Some (take (n * shdr_size A) (drop p file))"
    using n module_length [OF assms] by (intro read_at_inside) (cases A; simp)+
  moreover have "map (\<lambda>i. decode_shdr A (entry (shdr_size A) (take (n * shdr_size A) (drop p file)) i)) [0..<n] = file_sections A file"
    unfolding file_sections_def
    by (cases A) (simp_all add: entry_table decode_shdr_at Let_def n_def p_def file_sections_def field_take del: decode_shdr.simps)
  ultimately show ?thesis
    by (simp add: read_section_table_def io_read_def decode_ehdr_file n_def p_def)
qed

text \<open>The searches of the code find what the file says.\<close>

lemma section_by_type_file:
  "module_ok A file s \<Longrightarrow>
   section_by_type A junk file ty e = Inr (0, find (\<lambda>x. ty = sh_type x) (file_sections A file), e)"
  by (simp add: section_by_type_def and_then_def read_header_inside read_section_table_inside)

lemma section_by_name_file:
  assumes "module_ok A file s" "0 \<notin> set (bytes_of nm)" "section_named A file nm x"
  shows "section_by_name A junk file nm e = Inr (0, Some x, e)"
proof -
  have "inside_file file (file_sections A file ! names_index A file)" "names_index A file < length (file_sections A file)"
      "\<forall>x \<in> set (file_sections A file). ends (section_names A file) (sh_name x)"
    using assms(1) by (simp_all add: module_ok_def)
  then show ?thesis
    using assms module_length [OF assms(1)] name_loop_find [OF assms(2), of "file_sections A file" "section_names A file" sh_name]
    by (simp add: section_by_name_def and_then_def read_header_inside read_section_table_inside decode_ehdr_file read_string_table_def
        read_section_inside section_names_def [symmetric] section_named_def)
qed

lemma symbol_entry_name:
  assumes "j < symbol_count A s"
  shows "field (entry (sym_size A) (section_bytes file s) j) 0 4 = symbol_name_at A file s j"
proof -
  have "Suc j * sym_size A \<le> sh_size s div sym_size A * sym_size A"
    using assms by (intro mult_le_mono1) (cases A; simp add: symbol_count_def)
  from order_trans [OF this div_times_less_eq_dividend] have "sym_size A * j + sym_size A \<le> sh_size s"
    by (simp add: mult.commute add.commute)
  then have "entry (sym_size A) (section_bytes file s) j = take (sym_size A) (drop (sh_offset s + sym_size A * j) file)"
    by (simp add: entry_def section_bytes_def drop_take min_def add.commute)
  then show ?thesis
    by (cases A) (simp_all add: symbol_name_at_def field_inside)
qed

lemma symbol_by_name_file:
  assumes "module_ok A file s" "0 \<notin> set (bytes_of nm)" "symbol_named A file s nm k"
  shows "symbol_by_name A junk file (Some s) nm e = Inr (0, k, e)"
proof -
  have m: "inside_file file (file_sections A file ! sh_link s)" "inside_file file s" "sh_link s < length (file_sections A file)"
      "\<forall>j < symbol_count A s. ends (symbol_names A file s) (symbol_name_at A file s j)"
    using assms(1) by (simp_all add: module_ok_def)
  define symbols where "symbols = map (entry (sym_size A) (section_bytes file s)) [0..<symbol_count A s]"
  have c: "symbol_count A s = sh_size s div sym_size A" by (cases A) (simp_all add: symbol_count_def)
  have l: "length (section_bytes file s) = sh_size s" using m(2) by (auto simp: section_bytes_def inside_file_def)
  have r: "section_by_index A junk file (sh_link s) e = Inr (0, Some (file_sections A file ! sh_link s), e)"
      "read_string_table A junk file (Some (file_sections A file ! sh_link s)) e = Inr (0, Some (symbol_names A file s), e)"
      "read_symbol_table A junk file (Some s) e = Inr (0, Some symbols, e)"
    using m(1-3) module_length [OF assms(1)] assms(1)
    by (simp_all add: section_by_index_def and_then_def read_header_inside read_section_table_inside decode_ehdr_file
        read_string_table_def read_symbol_table_def read_section_inside symbol_names_def symbols_def c l)
  have s: "take (sh_size s div sym_size A) symbols = symbols" by (simp add: symbols_def c)
  have "\<exists>r. str_at (bytes_of nm) (symbol_names A file s) (field b 0 4) = Inr r" if "b \<in> set symbols" for b
    using that m(4) str_at_ends [OF assms(2)] by (auto simp: symbols_def symbol_entry_name)
  then have "symbol_by_name A junk file (Some s) nm e =
      Inr (0, (case first_index (\<lambda>b. has_str (symbol_names A file s) (field b 0 4) (bytes_of nm)) symbols of None \<Rightarrow> 0 | Some i \<Rightarrow> i), e)"
    using symbol_by_name_exact [OF r] s by simp
  moreover have "first_index (\<lambda>b. has_str (symbol_names A file s) (field b 0 4) (bytes_of nm)) symbols = Some k"
    using assms(3) by (auto simp: first_index_Some_iff symbol_named_def symbols_def symbol_entry_name)
  ultimately show ?thesis by simp
qed

lemma rel_entry_relocation: "rel_entry A m (to_ptr A (base + of_nat (sh_addr s))) i = relocation_at A m base s i"
proof -
  have "unat (of_nat (of_le (load m p 4)) :: u64) = of_le (load m p 4)" "unat (of_nat (of_le (load m p 8)) :: u64) = of_le (load m p 8)" for p
    using of_le_less [of "load m p 4"] of_le_less [of "load m p 8"] by (simp_all add: unat_of_nat)
  then show ?thesis
    by (cases A) (simp_all add: rel_entry_def relocation_at_def size_t_def Let_def)
qed

text \<open>C24. In a module whose file can be read, with a first dynamic symbol table (the first section of type 11, the name of
  which is of no importance), an entry for the function there and the two sections of relocations, \<^verbatim>\<open>elf_hook\<close> returns the address
  in the slot of the first relocation of the section \<^verbatim>\<open>.rel.plt\<close> (\<^verbatim>\<open>.rela.plt\<close> for 64 bits) that has the number of the first symbol
  with the function's name, provided that this slot does not hold zero, and leaves the substitution there; no other
  byte of memory changes.\<close>

theorem elf_hook_replaces_plt_slot:
  assumes "base \<noteq> 0" "subst \<noteq> 0" "0 \<notin> set (bytes_of name)"
    and "find (\<lambda>x. sh_type x = 11) (file_sections A file) = Some dynsym" "module_ok A file dynsym"
    and "symbol_named A file dynsym name k"
    and "section_named A file (case A of ARCH_32 \<Rightarrow> ''.rel.plt'' | ARCH_64 \<Rightarrow> ''.rela.plt'') rp"
    and "section_named A file (case A of ARCH_32 \<Rightarrow> ''.rel.dyn'' | ARCH_64 \<Rightarrow> ''.rela.dyn'') rd"
    and "i < sh_size rp div (case A of ARCH_32 \<Rightarrow> 8 | ARCH_64 \<Rightarrow> 24)"
    and "relocation_at A m base rp i = (off, k)" "\<forall>j < i. snd (relocation_at A m base rp j) \<noteq> k"
    and "size_t A m (to_ptr A (base + off)) \<noteq> 0"
  shows "\<exists>m'. elf_hook A junk mprotect (Some file) base (Some name) subst e0 m =
      Inr (size_t A m (to_ptr A (base + off)), m') \<and>
    size_t A m' (to_ptr A (base + off)) = to_ptr A subst \<and>
    (\<forall>x. word_bytes A \<le> unat (x - to_ptr A (base + off)) \<longrightarrow> m' x = m x)"
proof (intro exI conjI)
  let ?a = "to_ptr A (base + off)"
  have names: "section_named A file (REL_PLT A) rp" "section_named A file (REL_DYN A) rd"
      "0 \<notin> set (bytes_of (REL_PLT A))" "0 \<notin> set (bytes_of (REL_DYN A))"
    using assms(7,8) by (cases A; simp add: bytes_of_def)+
  have "section_by_type A junk file SHT_DYNSYM e0 = Inr (0, Some dynsym, e0)"
    using assms(4) section_by_type_file [OF assms(5)] by (simp add: SHT_DYNSYM_def eq_commute)
  note found = this symbol_by_name_file [OF assms(5,3,6)] section_by_name_file [OF assms(5) names(3,1)]
    section_by_name_file [OF assms(5) names(4,2)]
  have "i < sh_size rp div rel_size A" using assms(9) by (cases A) simp_all
  from plt_loop_first [OF this, of A m "to_ptr A (base + of_nat (sh_addr rp))" off k base subst]
  show "elf_hook A junk mprotect (Some file) base (Some name) subst e0 m =
      Inr (size_t A m ?a, store_size_t A m ?a subst)"
    using assms(1,2,10-12) found by (simp add: elf_hook_def Let_def rel_entry_relocation)
  show "size_t A (store_size_t A m ?a subst) ?a = to_ptr A subst"
    by (rule size_t_store)
  show "\<forall>x. word_bytes A \<le> unat (x - ?a) \<longrightarrow> store_size_t A m ?a subst x = m x"
    by (simp add: store_size_t_other)
qed

lemma example_lookups:
  "field example_module 40 8 = 64" "field example_module 60 2 = 5" "field example_module 62 2 = 1" "length example_module = 458"
  "field example_module 410 4 = 0" "field example_module 434 4 = 21"
  by (simp_all add: field_def example_module_def example_shdr_def le64_def bytes_of_def of_le_le_bytes of_le_zeros)

lemma example_file:
  "file_sections ARCH_64 example_module = example_sections" "names_index ARCH_64 example_module = 1"
  "section_names ARCH_64 example_module =
     0 # bytes_of ''.rela.plt'' @ 0 # bytes_of ''.rela.dyn'' @ 0 # bytes_of ''puts'' @ [0]"
proof -
  show f: "file_sections ARCH_64 example_module = example_sections"
    by (simp add: file_sections_def example_lookups upt_rec) (simp add: example_sections_def field_def example_module_def
      example_shdr_def le64_def bytes_of_def of_le_le_bytes of_le_zeros)
  show n: "names_index ARCH_64 example_module = 1" by (simp add: names_index_def example_lookups)
  show "section_names ARCH_64 example_module =
     0 # bytes_of ''.rela.plt'' @ 0 # bytes_of ''.rela.dyn'' @ 0 # bytes_of ''puts'' @ [0]"
    by (simp add: section_names_def f n) (simp add: section_bytes_def example_sections_def example_module_def
      example_shdr_def le64_def bytes_of_def)
qed

theorem elf_hook_replaces_plt_slot_witness:
  "\<exists>m'. elf_hook ARCH_64 (\<lambda>_. 0) (\<lambda>_ _. 0) (Some example_module) 0x400000 (Some ''puts'') 0x8888 0 example_mem =
      Inr (0x7777, m') \<and> size_t ARCH_64 m' 0x400300 = 0x8888 \<and> (\<forall>x. 8 \<le> unat (x - 0x400300) \<longrightarrow> m' x = example_mem x)"
proof -
  let ?s = "\<lparr>sh_name = 0, sh_type = 11, sh_addr = 0, sh_offset = 410, sh_size = 48, sh_link = 1\<rparr>"
  let ?rp = "\<lparr>sh_name = 1, sh_type = 4, sh_addr = 0x100, sh_offset = 0, sh_size = 24, sh_link = 2\<rparr>"
  let ?rd = "\<lparr>sh_name = 11, sh_type = 4, sh_addr = 0x200, sh_offset = 0, sh_size = 0, sh_link = 2\<rparr>"
  have d: "find (\<lambda>x. sh_type x = 11) (file_sections ARCH_64 example_module) = Some ?s"
      "section_named ARCH_64 example_module ''.rela.plt'' ?rp" "section_named ARCH_64 example_module ''.rela.dyn'' ?rd"
    by (simp_all add: section_named_def example_file example_sections_def has_str_def bytes_of_def)
  have str: "symbol_names ARCH_64 example_module ?s =
      0 # bytes_of ''.rela.plt'' @ 0 # bytes_of ''.rela.dyn'' @ 0 # bytes_of ''puts'' @ [0]"
    using example_file by (simp add: symbol_names_def section_names_def)
  have at: "symbol_name_at ARCH_64 example_module ?s 0 = 0" "symbol_name_at ARCH_64 example_module ?s 1 = 21" "symbol_count ARCH_64 ?s = 2"
    by (simp_all add: symbol_name_at_def symbol_count_def example_lookups)
  have e: "example_sections ! 1 = \<lparr>sh_name = 0, sh_type = 3, sh_addr = 0, sh_offset = 384, sh_size = 26, sh_link = 0\<rparr>"
      "length example_sections = 5" "\<forall>x \<in> set example_sections. sh_name x \<le> 11"
    by (simp_all add: example_sections_def)
  have ends: "ends (0 # bytes_of ''.rela.plt'' @ 0 # bytes_of ''.rela.dyn'' @ 0 # bytes_of ''puts'' @ [0]) n" if "n \<le> 21" for n
    using that by (auto simp: ends_def bytes_of_def drop_Cons' )
  have ok: "module_ok ARCH_64 example_module ?s" "symbol_named ARCH_64 example_module ?s ''puts'' 1"
    using e ends
    by (simp_all add: module_ok_def symbol_named_def example_file example_lookups str at inside_file_def less_2_cases_iff del: One_nat_def)
      (auto simp: has_str_def bytes_of_def at [simplified])
  have "relocation_at ARCH_64 example_mem 0x400000 ?rp 0 = (0x300, 1)"
    using example_rel_entry rel_entry_relocation [of ARCH_64 example_mem "0x400000" ?rp 0] by simp
  then show ?thesis
    using elf_hook_replaces_plt_slot [OF _ _ _ d(1) ok, of "0x400000" "0x8888" ?rp ?rd 0 example_mem "0x300" "\<lambda>_. 0" "\<lambda>_ _. 0" 0]
      d(2,3) example_slot by (simp add: bytes_of_def)
qed

text \<open>A file without a dynamic symbol table makes \<^verbatim>\<open>elf_hook\<close> read through a null section
  header: the search for the section reports success and stores the null pointer.\<close>

lemma elf_hook_no_dynsym:
  assumes "base \<noteq> 0" "subst \<noteq> 0" "section_by_type A junk file SHT_DYNSYM e0 = Inr (0, None, e1)"
  shows "elf_hook A junk mprotect (Some file) base (Some name) subst e0 m = Inl SegFault"
  using assms by (simp add: elf_hook_def symbol_by_name_def)

end
