(* ===== verification/Results.thy ===== *)
theory Results
  imports Dl_Misc Global_Stats "HOL-Library.Signed_Division"
begin

text \<open>
  The report that the loader writes when the program ends, \<^verbatim>\<open>printElfperfResults\<close> of
  \<^verbatim>\<open>eglibc-2.11.3/elf/dl-fini.c\<close>, and the name of its file. The messages on the console are not
  modelled.
\<close>

section \<open>The name of the file\<close>

text \<open>Swapping from both ends; the string ends before its first null byte.\<close>

function reverse_loop :: "int \<Rightarrow> int \<Rightarrow> string \<Rightarrow> string" where
  "reverse_loop i j s =
     (if i < j then reverse_loop (i + 1) (j - 1) (s[nat i := s ! nat j, nat j := s ! nat i]) else s)"
  by pat_completeness auto

termination reverse_loop
  by (relation "measure (\<lambda>(i, j, _). nat (j - i))") auto

declare reverse_loop.simps [simp del]

definition strlen :: "string \<Rightarrow> nat" where
  "strlen s = length (takeWhile (\<lambda>c. c \<noteq> CHR 0x00) s)"

definition reverse :: "string \<Rightarrow> string" where
  "reverse s = reverse_loop 0 (int (strlen s) - 1) s"

text \<open>The digits are written to the buffer from its start, least significant first; a write past the
  end of the allocation is a fault.\<close>

function itoa_digits :: "int \<Rightarrow> nat \<Rightarrow> string \<Rightarrow> (nat \<times> string) result" where
  "itoa_digits n i s =
     (if i < length s
      then let s' = s[i := char_of (nat (n smod 10 + 48))]
           in if 0 < n sdiv 10 then itoa_digits (n sdiv 10) (Suc i) s' else Inr (Suc i, s')
      else Inl OutOfBounds)"
  by pat_completeness auto

termination itoa_digits
  by (relation "measure (\<lambda>(_, i, s). length s - i)") auto

declare itoa_digits.simps [simp del]

definition itoa :: "int \<Rightarrow> string \<Rightarrow> string result" where
  "itoa n s =
     bind_result (itoa_digits n 0 s) (\<lambda>(i, s').
       if i < length s' then Inr (reverse (s'[i := CHR 0x00])) else Inl OutOfBounds)"

definition FILENAME_TEMPLATE :: string where
  "FILENAME_TEMPLATE = ''elfperf_results_''"

definition PID_SIZE :: nat where "PID_SIZE = 10"

definition RESULT_NAME_SIZE :: nat where
  "RESULT_NAME_SIZE = PID_SIZE + length FILENAME_TEMPLATE"

text \<open>The buffer comes from \<^verbatim>\<open>malloc\<close> with any contents; the result is the buffer.\<close>

definition getFileNameWithPid :: "(nat \<Rightarrow> char) \<Rightarrow> u32 \<Rightarrow> string result" where
  "getFileNameWithPid junk pid =
     (let buf = map junk [0..<RESULT_NAME_SIZE];
          buf1 = FILENAME_TEMPLATE @ CHR 0x00 # drop (length FILENAME_TEMPLATE + 1) buf
      in bind_result (itoa (sint pid) (drop (length FILENAME_TEMPLATE) buf1)) (\<lambda>s. Inr (FILENAME_TEMPLATE @ s)))"

section \<open>The report\<close>

text \<open>The arguments of a line. On x86 the 64-bit count takes two words on the stack, as do the two
  halves of the time. The address of the name, which is not visible in the text, is given as zero.\<close>

fun stat_args :: "arch \<Rightarrow> FunctionStatistic \<Rightarrow> u64 list" where
  "stat_args ARCH_32 s =
     [0, realFuncAddr s, take_bit 32 (totalCallsNumber s), drop_bit 32 (totalCallsNumber s),
      take_bit 32 (totalDiffTime s), drop_bit 32 (totalDiffTime s)]"
| "stat_args ARCH_64 s = [0, realFuncAddr s, totalCallsNumber s, totalDiffTime s]"

fun stat_format :: "arch \<Rightarrow> string" where
  "stat_format ARCH_32 =
     ''Statistic for %s(%x) : total calls number = %u, total ticks number = %u %u'' @ [CHR 0x0A]"
| "stat_format ARCH_64 =
     ''Statistic for %s(%x) : total calls number = %u, total ticks number = %u '' @ [CHR 0x0A]"

text \<open>The loop over the records. A line is written only when the descriptor is not zero, and a function
  that is not in the table ends the report.\<close>

fun report_loop ::
  "arch \<Rightarrow> environ \<Rightarrow> u32 \<Rightarrow> int \<Rightarrow> stats_state \<Rightarrow> u64 \<Rightarrow> FunctionInfo list \<Rightarrow> u64 list \<Rightarrow> nat \<Rightarrow> string result" where
  "report_loop A env pid pFile st list tab ps 0 = Inr []"
| "report_loop A env pid pFile st list tab [] (Suc n) = Inl OutOfBounds"
| "report_loop A env pid pFile st list tab (p # ps) (Suc n) =
     (if p = 0 then Inr []
      else case stat_heap st p of
        None \<Rightarrow> Inl SegFault
      | Some s \<Rightarrow>
          bind_result (getInfoByAddr A env (realFuncAddr s) list (stat_shared st)) (\<lambda>r.
            case r of
              None \<Rightarrow> dl_dprintf A (\<lambda>_. None) pid (''Failed at %x'' @ [CHR 0x0A]) [realFuncAddr s]
            | Some j \<Rightarrow>
                bind_result
                  (if pFile \<noteq> 0 then dl_dprintf A (\<lambda>_. Some (fi_name (tab ! j))) pid (stat_format A) (stat_args A s)
                   else Inr [])
                  (\<lambda>l. bind_result (report_loop A env pid pFile st list tab ps n) (\<lambda>ls. Inr (l @ ls)))))"

text \<open>The text written to the file, whose descriptor is what \<^verbatim>\<open>open\<close> returned; writing to -1 has no
  effect. The final \<^verbatim>\<open>shmdt\<close> of a variable that was never set is left out.\<close>

definition printElfperfResults :: "arch \<Rightarrow> environ \<Rightarrow> ipc \<Rightarrow> u32 \<Rightarrow> int \<Rightarrow> stats_state \<Rightarrow> string result" where
  "printElfperfResults A env ipc pid pFile st =
     (if \<not> isElfPerfEnabled A env then Inr []
      else
       bind_result (dl_dprintf A (\<lambda>_. None) pid (''Profiling results for pid=%u'' @ [CHR 0x0A]) [ucast pid]) (\<lambda>l1.
       bind_result (dl_dprintf A (\<lambda>_. getenv A env ELFPERF_PROFILE_FUNCTION_ENV_VARIABLE) pid
          (''Functions: %s'' @ [CHR 0x0A]) [0]) (\<lambda>l2.
       bind_result
         (case getFunctionStatisticsStorage ipc of
            None \<Rightarrow> Inl SegFault
          | Some shm \<Rightarrow>
              let stat = seg_stat (stat_shared st);
                  list = getFunctionInfoStorage ipc (stat_shared st);
                  elfperfContext = getElfperfContextStorage ipc (stat_shared st)
              in if list = 0
                 then dl_dprintf A (\<lambda>_. None) pid (''Error - recieved null from getFunctionInfoStorage '' @ [CHR 0x0A]) []
                 else if stat = 0
                 then dl_dprintf A (\<lambda>_. None) pid (''Statistic is empty, exiting!'' @ [CHR 0x0A]) []
                 else case elfperfContext of
                        None \<Rightarrow> Inl SegFault
                      | Some c \<Rightarrow>
                          (case (info_heap (stat_shared st) list, stat_arrays st stat) of
                             (Some tab, Some ps) \<Rightarrow>
                               report_loop A env pid pFile st list tab ps (unat (count (rcontext c)))
                           | _ \<Rightarrow> if count (rcontext c) = 0 then Inr [] else Inl SegFault))
         (\<lambda>ls. Inr (if pFile = - 1 then [] else l1 @ l2 @ ls)))))"

section \<open>Digits and reversal\<close>

lemma reverse_loop_middle:
  "length a = i \<Longrightarrow> reverse_loop (int i) (int i + int (length m) - 1) (a @ m @ b) = a @ rev m @ b"
proof (induction "length m" arbitrary: a m b i rule: less_induct)
  case less
  show ?case
  proof (cases "length m \<le> 1")
    case True
    then have "rev m = m" by (cases m) auto
    then show ?thesis using True by (subst reverse_loop.simps) simp
  next
    case False
    then obtain x m' y where m: "m = x # m' @ [y]"
      by (metis One_nat_def append_butlast_last_id le_refl length_Cons list.exhaust list.size(3) not_less_eq_eq zero_le)
    let ?s = "a @ m @ b"
    have j: "nat (int i + int (length m) - 1) = i + length m' + 1" using m by simp
    have upd: "?s[i := ?s ! (i + length m' + 1), i + length m' + 1 := ?s ! i] = (a @ [y]) @ m' @ ([x] @ b)"
      using less.prems m by (auto simp: list_update_append nth_append)
    have "reverse_loop (int i) (int i + int (length m) - 1) ?s =
        reverse_loop (int i + 1) (int i + int (length m) - 1 - 1) ((a @ [y]) @ m' @ ([x] @ b))"
      using m upd j by (subst reverse_loop.simps) (simp add: nat_add_distrib)
    also have "\<dots> = reverse_loop (int (Suc i)) (int (Suc i) + int (length m') - 1) ((a @ [y]) @ m' @ ([x] @ b))"
      using m by (simp add: algebra_simps)
    also have "\<dots> = (a @ [y]) @ rev m' @ ([x] @ b)"
      using less.hyps [of m' "a @ [y]" "Suc i" "[x] @ b"] less.prems m by simp
    finally show ?thesis using m by simp
  qed
qed

lemma reverse_cstring: "CHR 0x00 \<notin> set d \<Longrightarrow> reverse (d @ CHR 0x00 # r) = rev d @ CHR 0x00 # r"
proof -
  assume d: "CHR 0x00 \<notin> set d"
  then have "strlen (d @ CHR 0x00 # r) = length d"
    by (subst strlen_def, subst takeWhile_append2) auto
  then show ?thesis
    using reverse_loop_middle [of "[]" 0 d "CHR 0x00 # r"] by (simp add: reverse_def)
qed

abbreviation decimal :: "nat \<Rightarrow> string" where
  "decimal v \<equiv> itoa_loop itoa_lower_digits 10 v []"

lemma itoa_loop_buf: "itoa_loop digits base v buf = itoa_loop digits base v [] @ buf"
proof (induction v arbitrary: buf rule: less_induct)
  case (less v)
  show ?case
  proof (cases "v div base \<noteq> 0 \<and> 2 \<le> base")
    case True
    then have "v div base < v" by (intro div_less_dividend) (auto intro: gr0I)
    then show ?thesis
      using True less [of "v div base" "digits ! (v mod base) # buf"] less [of "v div base" "[digits ! (v mod base)]"]
      by (simp add: itoa_loop.simps [of digits base v])
  qed (auto simp: itoa_loop.simps [of digits base v] Let_def)
qed

lemma digit_char: "v < 10 \<Longrightarrow> char_of (48 + v) = itoa_lower_digits ! v"
proof -
  assume "v < 10"
  then have "v \<in> {0, 1, 2, 3, 4, 5, 6, 7, 8, 9}" by auto
  then show ?thesis by (auto simp: itoa_lower_digits_def char_of_def bit_0)
qed

lemma decimal_simp:
  "decimal v = (if v < 10 then [] else decimal (v div 10)) @ [char_of (48 + v mod 10)]"
  using itoa_loop_buf [of itoa_lower_digits 10 "v div 10" "[itoa_lower_digits ! (v mod 10)]"]
  by (simp add: itoa_loop.simps [of itoa_lower_digits 10 v] digit_char div_eq_0_iff)

lemma decimal_no_null: "CHR 0x00 \<notin> set (decimal v)"
proof (induction v rule: less_induct)
  case (less v)
  have "of_char (char_of (48 + v mod 10) :: char) \<noteq> (of_char (CHR 0x00) :: nat)" by simp
  then have "char_of (48 + v mod 10) \<noteq> CHR 0x00" by metis
  then show ?case
    using less [of "v div 10"] by (subst decimal_simp) auto
qed

lemma decimal_length_lower: "10 ^ k \<le> v \<Longrightarrow> k < length (decimal v)"
proof (induction k arbitrary: v)
  case 0
  show ?case by (subst decimal_simp) simp
next
  case (Suc k)
  then have "10 ^ k \<le> v div 10" "\<not> v < 10"
    using div_le_mono [OF Suc.prems, of 10] by (auto simp: not_less intro: order.trans [OF _ Suc.prems])
  then show ?case using Suc.IH [of "v div 10"] by (subst decimal_simp) simp
qed

text \<open>The digits, least significant first, or a fault when the buffer is too short.\<close>

lemma itoa_digits_decimal:
  "itoa_digits (int v) i s =
     (if i + length (decimal v) \<le> length s
      then Inr (i + length (decimal v), take i s @ rev (decimal v) @ drop (i + length (decimal v)) s)
      else Inl OutOfBounds)"
proof (induction v arbitrary: i s rule: less_induct)
  case (less v)
  have d: "nat (int v smod 10 + 48) = 48 + v mod 10" "int v sdiv 10 = int (v div 10)"
    by (cases "v = 0"; simp add: signed_modulo_int_def signed_divide_int_def nat_add_distrib nat_mod_as_int zdiv_int)+
  show ?case
  proof (cases "i < length s")
    case False
    then show ?thesis by (subst itoa_digits.simps, subst (1 2) decimal_simp) simp
  next
    case True
    show ?thesis
    proof (cases "v < 10")
      case v: True
      then show ?thesis
        using True d by (subst itoa_digits.simps, subst (1 2 3 4) decimal_simp)
          (simp add: upd_conv_take_nth_drop)
    next
      case v: False
      then have "0 < v div 10" by (simp add: div_greater_zero_iff)
      let ?s = "s[i := char_of (48 + v mod 10)]"
      have "itoa_digits (int v) i s = itoa_digits (int (v div 10)) (Suc i) ?s"
        using True d \<open>0 < v div 10\<close> by (subst itoa_digits.simps) (simp add: Let_def)
      moreover have "take (Suc i) ?s = take i s @ [char_of (48 + v mod 10)]"
        using True by (simp add: take_Suc_conv_app_nth)
      ultimately show ?thesis
        using less [of "v div 10" "Suc i" ?s] v decimal_simp [of v] by simp
    qed
  qed
qed

lemma itoa_decimal:
  "itoa (int v) s =
     (if length (decimal v) < length s then Inr (decimal v @ CHR 0x00 # drop (Suc (length (decimal v))) s)
      else Inl OutOfBounds)"
proof -
  let ?n = "length (decimal v)"
  have "reverse ((rev (decimal v) @ drop ?n s)[?n := CHR 0x00]) = decimal v @ CHR 0x00 # drop (Suc ?n) s" if "?n < length s"
  proof -
    have "(rev (decimal v) @ drop ?n s)[?n := CHR 0x00] = rev (decimal v) @ CHR 0x00 # drop (Suc ?n) s"
      using that by (simp add: list_update_append Cons_nth_drop_Suc [symmetric])
    then show ?thesis using reverse_cstring [of "rev (decimal v)"] decimal_no_null [of v] by simp
  qed
  then show ?thesis by (auto simp: itoa_def itoa_digits_decimal)
qed

lemma sint_u32: "unat (w :: u32) < 2 ^ 31 \<Longrightarrow> sint w = int (unat w)"
proof -
  assume "unat w < 2 ^ 31"
  then have b: "uint w < 2 ^ 31" by (simp only: uint_nat of_nat_less_numeral_power_cancel_iff)
  have "signed_take_bit 31 (uint w) = uint w"
    by (rule signed_take_bit_int_eq_self) (use b uint_nonnegative [of w] in linarith, rule b)
  then have "sint w = uint w" unfolding sint_uint by simp
  then show ?thesis by (simp only: uint_nat)
qed

section \<open>The text of the report\<close>

text \<open>Numbers are printed with 32 bits. On x86 the two words after the count are its upper half and the
  lower half of the time.\<close>

definition low32 :: "u64 \<Rightarrow> u64" where
  "low32 w = ucast (ucast w :: u32)"

fun stat_line :: "arch \<Rightarrow> string \<Rightarrow> FunctionStatistic \<Rightarrow> string" where
  "stat_line ARCH_32 name s =
     ''Statistic for '' @ name @ ''('' @ itoa_word (low32 (realFuncAddr s)) 16 False
     @ '') : total calls number = '' @ itoa_word (low32 (totalCallsNumber s)) 10 False
     @ '', total ticks number = '' @ itoa_word (drop_bit 32 (totalCallsNumber s)) 10 False
     @ '' '' @ itoa_word (low32 (totalDiffTime s)) 10 False @ [CHR 0x0A]"
| "stat_line ARCH_64 name s =
     ''Statistic for '' @ name @ ''('' @ itoa_word (low32 (realFuncAddr s)) 16 False
     @ '') : total calls number = '' @ itoa_word (low32 (totalCallsNumber s)) 10 False
     @ '', total ticks number = '' @ itoa_word (low32 (totalDiffTime s)) 10 False @ '' '' @ [CHR 0x0A]"

lemma low32_bits [simp]:
  "low32 (take_bit 32 w) = low32 w" "low32 (drop_bit 32 w) = drop_bit 32 w"
  unfolding low32_def by (rule bit_word_eqI; auto simp: bit_simps dest: bit_imp_le_length)+

lemma low32_pid: "low32 (ucast (pid :: u32)) = ucast pid"
  unfolding low32_def by (rule bit_word_eqI) (auto simp: bit_simps dest: bit_imp_le_length)

lemma itoa_low32_fits:
  "\<not> 3 * sizeof_long A < length (itoa_word (low32 w) 10 False)" "\<not> 3 * sizeof_long A < length (itoa_word (low32 w) 16 False)"
  unfolding low32_def not_less by (rule itoa_word_u32_fits)+

lemma convert_u [simp]:
  "convert A strs \<lparr>sp_fill = f, sp_width = - 1, sp_prec = p, sp_long = False\<rparr> (CHR ''u'' # fmt) (w # ws) =
     Inr (itoa_word (low32 w) 10 False, ws)"
  using itoa_low32_fits(1) [of A w] by (simp add: convert_def va_int_def low32_def)

lemma convert_x [simp]:
  "convert A strs \<lparr>sp_fill = f, sp_width = - 1, sp_prec = p, sp_long = False\<rparr> (CHR ''x'' # fmt) (w # ws) =
     Inr (itoa_word (low32 w) 16 False, ws)"
  using itoa_low32_fits(2) [of A w] by (simp add: convert_def va_int_def low32_def)

lemma convert_s [simp]:
  "strs w = Some t \<Longrightarrow>
   convert A strs \<lparr>sp_fill = f, sp_width = - 1, sp_prec = - 1, sp_long = False\<rparr> (CHR ''s'' # fmt) (w # ws) = Inr (t, ws)"
  by (simp add: convert_def)

lemmas spec_simps = format_spec_def parse_fill_def parse_width_def parse_prec_def parse_long_def

lemma render_stat: "render A (\<lambda>_. Some name) (stat_format A) (stat_args A s) = Inr (stat_line A name s)"
  by (cases A) (simp_all add: spec_simps)

lemma dprintf_text:
  assumes "render A strs fmt args = Inr u" "2 * percents fmt < 64"
  shows "dl_dprintf A strs pid fmt args = Inr u"
  using vdprintf_loop_render [OF assms(1), of "[]" pid] assms(2)
  by (auto simp: dl_dprintf_def dl_debug_vdprintf_def NIOVMAX_def)

lemma dprintf_stat: "dl_dprintf A (\<lambda>_. Some name) pid (stat_format A) (stat_args A s) = Inr (stat_line A name s)"
  by (rule dprintf_text [OF render_stat]) (cases A; simp)

text \<open>The line of a record in a table of names.\<close>

definition record_line :: "arch \<Rightarrow> FunctionInfo list \<Rightarrow> FunctionStatistic \<Rightarrow> string" where
  "record_line A tab s =
     stat_line A (fi_name (tab ! the (first_index (\<lambda>x. fi_addr x = realFuncAddr s) tab))) s"

lemma report_loop_lines:
  assumes "table_ok A env list cnt (stat_shared st)" "info_heap (stat_shared st) list = Some tab" "pFile \<noteq> 0"
    and "\<forall>p \<in> set (takeWhile (\<lambda>p. p \<noteq> 0) (take n ps)). \<exists>s. stat_heap st p = Some s \<and> realFuncAddr s \<in> fi_addr ` set tab"
    and "n \<le> length ps"
  shows "report_loop A env pid pFile st list tab ps n =
    Inr (concat (map (\<lambda>p. record_line A tab (the (stat_heap st p))) (takeWhile (\<lambda>p. p \<noteq> 0) (take n ps))))"
  using assms(4,5)
proof (induction n arbitrary: ps)
  case (Suc n)
  then obtain p qs where ps: "ps = p # qs" by (cases ps) auto
  show ?case
  proof (cases "p = 0")
    case False
    then obtain s where s: "stat_heap st p = Some s" "realFuncAddr s \<in> fi_addr ` set tab"
      using Suc.prems(1) ps by auto
    then obtain j where j: "first_index (\<lambda>x. fi_addr x = realFuncAddr s) tab = Some j"
      using first_index_None_iff [of "\<lambda>x. fi_addr x = realFuncAddr s" tab] by auto
    then have "getInfoByAddr A env (realFuncAddr s) list (stat_shared st) = Inr (Some j)"
      using shm_table.by_addr_first [OF assms(1)] assms(2) by simp
    then show ?thesis
      using Suc ps False s j assms(3) by (simp add: dprintf_stat record_line_def)
  qed (simp add: ps)
qed simp

lemma report_header:
  "dl_dprintf A strs pid (''Profiling results for pid=%u'' @ [CHR 0x0A]) [ucast pid] =
     Inr (''Profiling results for pid='' @ itoa_word (ucast pid) 10 False @ [CHR 0x0A])"
  "dl_dprintf A (\<lambda>_. Some v) pid (''Functions: %s'' @ [CHR 0x0A]) [0] = Inr (''Functions: '' @ v @ [CHR 0x0A])"
  by (rule dprintf_text; simp add: spec_simps low32_pid)+

text \<open>The report of a profiled run: the process id, the value of the variable with the function list, and
  one line per record up to the first null pointer, in the order of the array, with the name that the
  table has for the record's address.\<close>

lemma report_text:
  assumes "isElfPerfEnabled A env" "getenv A env ELFPERF_PROFILE_FUNCTION_ENV_VARIABLE = Some v"
    and "getFunctionStatisticsStorage ipc = Some shm" "getElfperfContextStorage ipc (stat_shared st) = Some c"
    and "list = getFunctionInfoStorage ipc (stat_shared st)" "table_ok A env list cnt (stat_shared st)"
    and "info_heap (stat_shared st) list = Some tab"
    and "seg_stat (stat_shared st) \<noteq> 0" "stat_arrays st (seg_stat (stat_shared st)) = Some ps"
    and "unat (count (rcontext c)) \<le> length ps" "pFile \<noteq> 0" "pFile \<noteq> - 1"
    and "live = takeWhile (\<lambda>p. p \<noteq> 0) (take (unat (count (rcontext c))) ps)"
    and "\<forall>p \<in> set live. \<exists>s. stat_heap st p = Some s \<and> realFuncAddr s \<in> fi_addr ` set tab"
  shows "printElfperfResults A env ipc pid pFile st =
    Inr (''Profiling results for pid='' @ itoa_word (ucast pid) 10 False @ [CHR 0x0A]
       @ ''Functions: '' @ v @ [CHR 0x0A]
       @ concat (map (\<lambda>p. record_line A tab (the (stat_heap st p))) live))"
proof -
  have "list \<noteq> 0" using assms(6) by (simp add: table_ok_def)
  then show ?thesis
    using assms report_loop_lines [OF assms(6,7,11), of "unat (count (rcontext c))" ps]
    by (simp add: printElfperfResults_def report_header del: append_Cons append.simps)
qed

section \<open>Properties\<close>

text \<open>C28. The name of the report's file is the template followed by the decimal digits of the process
  id and a null byte when the id has at most nine digits. With ten digits, which the macro
  \<^verbatim>\<open>PID_SIZE\<close> allows for, the terminator is written past the end of the buffer.\<close>

theorem getFileNameWithPid_exact:
  assumes "unat pid < 2 ^ 31"
  shows "getFileNameWithPid junk pid =
    (let digits = itoa_word (ucast pid) 10 False
     in if unat pid < 10 ^ 9
        then Inr (FILENAME_TEMPLATE @ digits @ CHR 0x00 # map junk [17 + length digits..<26])
        else Inl OutOfBounds)"
proof -
  have d: "itoa_word (ucast pid) 10 False = decimal (unat pid)"
    using unsigned_less [of pid, where ?'a = nat] by (simp add: itoa_word_def unsigned_ucast_eq take_bit_nat_eq_self)
  have template: "length FILENAME_TEMPLATE = 16" by (simp add: FILENAME_TEMPLATE_def)
  have "length (decimal (unat pid)) < 10 \<longleftrightarrow> unat pid < 10 ^ 9"
    using itoa_loop_length [of 10 "unat pid" 9 itoa_lower_digits "[]"] decimal_length_lower [of 9 "unat pid"]
    by (cases "unat pid < 10 ^ 9") simp_all
  then show ?thesis
    unfolding d getFileNameWithPid_def sint_u32 [OF assms] itoa_decimal
    by (simp add: RESULT_NAME_SIZE_def PID_SIZE_def drop_map Let_def template del: upt_rec_numeral)
qed

theorem getFileNameWithPid_exact_witness:
  "getFileNameWithPid (\<lambda>_. CHR ''x'') 42 = Inr (''elfperf_results_42'' @ CHR 0x00 # replicate 7 (CHR ''x''))"
proof -
  have "itoa_word 42 10 False = ''42''"
    by (simp add: itoa_word_def itoa_loop.simps itoa_lower_digits_def)
  then show ?thesis
    using getFileNameWithPid_exact [of 42 "\<lambda>_. CHR ''x''"] by (simp add: FILENAME_TEMPLATE_def map_replicate_const)
qed

end
