(* ===== verification/Dl_Fini.thy ===== *)
theory Dl_Fini
  imports Elfperf_Prelude "HOL-Library.Multiset"
begin

text \<open>
  The end of a program, \<^verbatim>\<open>eglibc-2.11.3/elf/dl-fini.c\<close>: the loaded objects are sorted so that an
  object comes before those it depends on, and their destructors are called in that order. (The
  report that is written first is in \<open>Results\<close>.)
\<close>

section \<open>Data\<close>

text \<open>Objects are named by numbers; the fields of \<^verbatim>\<open>struct link_map\<close> that the routines use. The
  dependencies are the objects before the null at the end of \<^verbatim>\<open>l_initfini\<close> and the active part of
  \<^verbatim>\<open>l_reldeps\<close>; the destructors are given by their addresses.\<close>

record fini_map =
  l_real :: nat
  l_idx :: int
  l_initfini :: "nat list option"
  l_reldeps :: "nat list option"
  l_init_called :: bool
  l_direct_opencount :: u32
  l_auditing :: bool
  l_fini_array :: "u64 list option"
  l_fini :: "u64 option"

type_synonym objects = "nat \<Rightarrow> fini_map"

record namespace =
  ns_loaded :: "nat list"
  ns_nloaded :: nat

definition LM_ID_BASE :: nat where "LM_ID_BASE = 0"

section \<open>Sorting\<close>

text \<open>The \<^verbatim>\<open>memmove\<close> that puts element \<open>k\<close> in place \<open>j\<close> and moves those between up by one.\<close>

definition move :: "nat \<Rightarrow> nat \<Rightarrow> 'a list \<Rightarrow> 'a list" where
  "move j k xs = take j xs @ xs ! k # take (k - j) (drop j xs) @ drop (Suc k) xs"

text \<open>The condition of the loop reads \<^verbatim>\<open>maps[j]\<close> before the assertion in its body compares \<open>j\<close> with the number
  of objects: an object that is not in the array is looked for one place behind it.\<close>

function find_place :: "nat \<Rightarrow> nat list \<Rightarrow> nat \<Rightarrow> nat result" where
  "find_place l maps j =
     bind_result (get maps j) (\<lambda>m.
       if m = l then Inr j else if j < length maps then find_place l maps (Suc j) else Inl AssertFailed)"
  by pat_completeness auto

termination find_place
  by (relation "measure (\<lambda>(_, maps, j). length maps - j)") auto

declare find_place.simps [simp del]

definition depends :: "nat list option \<Rightarrow> nat \<Rightarrow> bool" where
  "depends ds l \<longleftrightarrow> (case ds of None \<Rightarrow> False | Some xs \<Rightarrow> l \<in> set xs)"

text \<open>One round of the inner loop. The second test reads \<^verbatim>\<open>maps[k]\<close> again, after a move of the first.\<close>

definition fini_step ::
  "objects \<Rightarrow> nat \<Rightarrow> nat \<Rightarrow> nat \<times> nat list \<times> bool list option \<Rightarrow> nat \<times> nat list \<times> bool list option" where
  "fini_step objs l k = (\<lambda>(j, maps, used).
     let (j1, maps1, used1) =
           (if depends (l_initfini (objs (maps ! k))) l
            then (Suc j, move j k maps, map_option (move j k) used) else (j, maps, used))
     in if depends (l_reldeps (objs (maps1 ! k))) l
        then (j1, move j1 k maps1, map_option (move j1 k) used1) else (j1, maps1, used1))"

definition fini_round ::
  "objects \<Rightarrow> nat \<Rightarrow> nat \<Rightarrow> nat list \<times> bool list option \<Rightarrow> (nat list \<times> bool list option) result" where
  "fini_round objs ns l = (\<lambda>(maps, used).
     bind_result (find_place l maps (if ns = LM_ID_BASE then 1 else 0)) (\<lambda>j.
       Inr (snd (fold (fini_step objs l) [Suc j..<length maps] (j, maps, used)))))"

fun sort_loop :: "objects \<Rightarrow> nat \<Rightarrow> nat list \<Rightarrow> nat list \<times> bool list option \<Rightarrow> (nat list \<times> bool list option) result" where
  "sort_loop objs ns [] mu = Inr mu"
| "sort_loop objs ns (l # ls) mu =
     (if l = l_real (objs l) \<and> l_idx (objs l) \<noteq> - 1
      then bind_result (fini_round objs ns l mu) (sort_loop objs ns ls)
      else sort_loop objs ns ls mu)"

definition dl_sort_fini ::
  "objects \<Rightarrow> nat list \<Rightarrow> nat list \<Rightarrow> bool list option \<Rightarrow> nat \<Rightarrow> (nat list \<times> bool list option) result" where
  "dl_sort_fini objs ls maps used ns =
     sort_loop objs ns (if ns = LM_ID_BASE then tl ls else ls) (maps, used)"

section \<open>Calling the destructors\<close>

text \<open>What the loader does that is visible: it calls a destructor, and it tells an auditing library,
  by its number, that an object is closed. The code of the destructors is not modelled and does not
  change the loader's data.\<close>

datatype event = CallFini u64 | ObjClose nat nat

record fini_state =
  fs_objs :: objects
  fs_trace :: "event list"

text \<open>Collecting the objects of a namespace; the array has room for \<^verbatim>\<open>nloaded\<close> of them.\<close>

fun collect :: "nat \<Rightarrow> nat list \<Rightarrow> nat list \<Rightarrow> objects \<Rightarrow> (nat list \<times> objects) result" where
  "collect nloaded [] maps objs = Inr (maps, objs)"
| "collect nloaded (l # ls) maps objs =
     (if l = l_real (objs l)
      then if length maps < nloaded
           then collect nloaded ls (maps @ [l])
                  (objs(l := (objs l)\<lparr>l_idx := int (length maps),
                                       l_direct_opencount := l_direct_opencount (objs l) + 1\<rparr>))
           else Inl AssertFailed
      else collect nloaded ls maps objs)"

definition fini_events :: "fini_map \<Rightarrow> event list" where
  "fini_events l =
     (case l_fini_array l of None \<Rightarrow> [] | Some array \<Rightarrow> map CallFini (rev array))
     @ (case l_fini l of None \<Rightarrow> [] | Some a \<Rightarrow> [CallFini a])"

text \<open>\<open>objclose\<close> tells which auditing libraries have the callback.\<close>

definition fini_one :: "bool \<Rightarrow> bool list \<Rightarrow> nat \<Rightarrow> fini_state \<Rightarrow> fini_state" where
  "fini_one do_audit objclose i st =
     (let l = fs_objs st i;
          st1 = (if l_init_called l
                 then \<lparr>fs_objs = (fs_objs st)(i := l\<lparr>l_init_called := False\<rparr>),
                       fs_trace = fs_trace st @ fini_events l
                         @ (if do_audit then [] else map (\<lambda>c. ObjClose c i) (filter (\<lambda>c. objclose ! c) [0..<length objclose]))\<rparr>
                 else st)
      in st1\<lparr>fs_objs := (fs_objs st1)(i := (fs_objs st1 i)\<lparr>l_direct_opencount := l_direct_opencount (fs_objs st1 i) - 1\<rparr>)\<rparr>)"

definition fini_namespace :: "bool \<Rightarrow> bool list \<Rightarrow> nat \<times> namespace \<Rightarrow> fini_state \<Rightarrow> fini_state result" where
  "fini_namespace do_audit objclose = (\<lambda>(ns, space) st.
     if ns_nloaded space = 0 then Inr st
     else case ns_loaded space of
       [] \<Rightarrow> Inl SegFault
     | l # _ \<Rightarrow>
         if l_auditing (fs_objs st l) \<noteq> do_audit then Inr st
         else bind_result (collect (ns_nloaded space) (ns_loaded space) [] (fs_objs st)) (\<lambda>(maps, objs).
              let i = length maps in
              if ns = LM_ID_BASE \<and> i \<noteq> ns_nloaded space
                 \<or> ns \<noteq> LM_ID_BASE \<and> i \<noteq> ns_nloaded space \<and> Suc i \<noteq> ns_nloaded space
              then Inl AssertFailed
              else bind_result
                (if i \<noteq> 0 then dl_sort_fini objs (ns_loaded space) maps None ns else Inr (maps, None)) (\<lambda>(maps', _).
                Inr (fold (fini_one do_audit objclose) maps' (st\<lparr>fs_objs := objs\<rparr>)))))"

fun fini_pass :: "bool \<Rightarrow> bool list \<Rightarrow> (nat \<times> namespace) list \<Rightarrow> fini_state \<Rightarrow> fini_state result" where
  "fini_pass do_audit objclose [] st = Inr st"
| "fini_pass do_audit objclose (x # xs) st =
     bind_result (fini_namespace do_audit objclose x st) (fini_pass do_audit objclose xs)"

definition dl_fini :: "bool list \<Rightarrow> namespace list \<Rightarrow> fini_state \<Rightarrow> fini_state result" where
  "dl_fini objclose spaces st =
     bind_result (fini_pass False objclose (rev (enumerate 0 spaces)) st) (\<lambda>st1.
       if objclose \<noteq> [] then fini_pass True objclose (rev (enumerate 0 spaces)) st1 else Inr st1)"

section \<open>The sort as a stable partition\<close>

lemma move_append: "move (length xs) (length xs + length ys) (xs @ ys @ z # zs) = xs @ z # ys @ zs"
  by (simp add: move_def nth_append)

lemma mset_move: "j \<le> k \<Longrightarrow> k < length xs \<Longrightarrow> mset (move j k xs) = mset xs"
proof -
  assume "j \<le> k" "k < length xs"
  then have "xs = take j xs @ take (k - j) (drop j xs) @ xs ! k # drop (Suc k) xs"
    by (metis append_take_drop_id drop_drop id_take_nth_drop le_add_diff_inverse2 append_assoc take_add add.commute)
  then show ?thesis
    unfolding move_def by (metis (no_types, lifting) add_mset_add_single mset.simps(2) mset_append union_commute union_assoc)
qed

lemma find_place_split: "l \<notin> set b \<Longrightarrow> i \<le> length b \<Longrightarrow> find_place l (b @ l # a) i = Inr (length b)"
proof (induction "length b - i" arbitrary: i)
  case 0
  then have "i = length b" by simp
  then show ?case by (subst find_place.simps) (simp add: get_def)
next
  case (Suc n)
  then have "i < length b" "b ! i \<noteq> l" by (auto simp: in_set_conv_nth)
  then show ?case using Suc by (subst find_place.simps) (simp add: get_def nth_append)
qed

text \<open>Without run-time dependencies, a round moves the objects that depend on \<open>l\<close> in front of it and
  keeps the order otherwise.\<close>

lemma fini_steps:
  assumes "\<forall>x. l_reldeps (objs x) = None"
  shows "fold (fini_step objs l) [length b + length (a1 :: nat list) + 1..<length b + length a1 + length a2 + 1]
      (length b + length (filter (\<lambda>x. depends (l_initfini (objs x)) l) a1),
       b @ filter (\<lambda>x. depends (l_initfini (objs x)) l) a1 @ l # filter (\<lambda>x. \<not> depends (l_initfini (objs x)) l) a1 @ a2, None)
    = (length b + length (filter (\<lambda>x. depends (l_initfini (objs x)) l) (a1 @ a2)),
       b @ filter (\<lambda>x. depends (l_initfini (objs x)) l) (a1 @ a2) @ l # filter (\<lambda>x. \<not> depends (l_initfini (objs x)) l) (a1 @ a2), None)"
proof (induction a2 arbitrary: a1)
  case (Cons x a2)
  let ?d = "\<lambda>x. depends (l_initfini (objs x)) l"
  let ?pre = "b @ filter ?d a1" and ?mid = "l # filter (\<lambda>x. \<not> ?d x) a1"
  let ?k = "length b + length a1 + 1"
  have k: "?k = length ?pre + length ?mid"
    using sum_length_filter_compl [of ?d a1] by simp
  have nth: "(?pre @ ?mid @ x # a2) ! ?k = x" unfolding k by (simp add: nth_append)
  have mv: "move (length ?pre) ?k (?pre @ ?mid @ x # a2) = ?pre @ x # ?mid @ a2"
    unfolding k by (rule move_append)
  have r: "[?k..<length b + length a1 + length (x # a2) + 1] = ?k # [Suc ?k..<length b + length a1 + length (x # a2) + 1]"
    by (rule upt_conv_Cons) simp
  have step: "fini_step objs l ?k (length ?pre, ?pre @ ?mid @ x # a2, None) =
      (length (b @ filter ?d (a1 @ [x])), (b @ filter ?d (a1 @ [x])) @ l # filter (\<lambda>x. \<not> ?d x) (a1 @ [x]) @ a2, None)"
    unfolding fini_step_def split_conv nth mv using assms by (simp add: depends_def [of None] Let_def)
  show ?case
    using Cons [of "a1 @ [x]"] step r by simp
qed simp

lemma fini_round_partition:
  assumes "\<forall>x. l_reldeps (objs x) = None" "l \<notin> set b" "ns = LM_ID_BASE \<longrightarrow> b \<noteq> []"
  shows "fini_round objs ns l (b @ l # a, None) =
    Inr (b @ filter (\<lambda>x. depends (l_initfini (objs x)) l) a @ l # filter (\<lambda>x. \<not> depends (l_initfini (objs x)) l) a, None)"
proof -
  have "find_place l (b @ l # a) (if ns = LM_ID_BASE then 1 else 0) = Inr (length b)"
    using assms(2,3) by (intro find_place_split) (auto simp: Suc_le_eq)
  then show ?thesis
    using fini_steps [OF assms(1), of l b "[]" a] by (simp add: fini_round_def del: upt_Suc)
qed

text \<open>The order that is wanted: no object of \<open>P\<close> comes before one that depends on it.\<close>

definition dependents_first :: "objects \<Rightarrow> nat set \<Rightarrow> nat list \<Rightarrow> bool" where
  "dependents_first objs P maps \<longleftrightarrow>
     sorted_wrt (\<lambda>x y. \<not> (x \<in> P \<and> depends (l_initfini (objs y)) x)) maps"

definition closed_deps :: "objects \<Rightarrow> bool" where
  "closed_deps objs \<longleftrightarrow>
     (\<forall>x. l_reldeps (objs x) = None)
     \<and> (\<forall>x y z. depends (l_initfini (objs x)) y \<longrightarrow> depends (l_initfini (objs y)) z \<longrightarrow> depends (l_initfini (objs x)) z)
     \<and> (\<forall>x y. depends (l_initfini (objs x)) y \<longrightarrow> depends (l_initfini (objs y)) x \<longrightarrow> x = y)"

lemma sorted_wrt_filter_mono:
  "sorted_wrt R xs \<Longrightarrow> (\<And>x y. x \<in> set xs \<Longrightarrow> y \<in> set xs \<Longrightarrow> R x y \<Longrightarrow> S x y) \<Longrightarrow> sorted_wrt S (filter Q xs)"
  by (rule sorted_wrt_mono_rel [OF _ sorted_wrt_filter]) auto

lemma partition_sorts:
  assumes "closed_deps objs" "distinct (b @ l # a)" "dependents_first objs P (b @ l # a)"
  shows "dependents_first objs (insert l P)
    (b @ filter (\<lambda>x. depends (l_initfini (objs x)) l) a @ l # filter (\<lambda>x. \<not> depends (l_initfini (objs x)) l) a)"
proof -
  let ?d = "\<lambda>x y. depends (l_initfini (objs x)) y"
  let ?R = "\<lambda>x y. \<not> (x \<in> P \<and> ?d y x)" and ?S = "\<lambda>x y. \<not> (x \<in> insert l P \<and> ?d y x)"
  have o: "sorted_wrt ?R b" "sorted_wrt ?R a" "\<forall>x \<in> set b. \<forall>y \<in> set (l # a). ?R x y" "l \<notin> set b" "l \<notin> set a"
    using assms(2,3) by (auto simp: dependents_first_def sorted_wrt_append)
  have tr: "?d y x \<Longrightarrow> ?d x l \<Longrightarrow> ?d y l" and asym: "?d x l \<Longrightarrow> ?d l x \<Longrightarrow> x = l" for x y
    using assms(1) unfolding closed_deps_def by blast+
  have "sorted_wrt ?S b" using o by (auto intro: sorted_wrt_mono_rel [of b ?R])
  moreover have "sorted_wrt ?S (filter Q a)" for Q
    using o(2) by (rule sorted_wrt_filter_mono) (use o(5) in auto)
  ultimately show ?thesis
    using o tr asym unfolding dependents_first_def sorted_wrt_append by (auto; metis)
qed

lemma sort_loop_sorts:
  assumes "closed_deps objs" "distinct maps" "dependents_first objs P maps" "ns = LM_ID_BASE \<longrightarrow> maps \<noteq> []"
    and "\<forall>l \<in> set ls. l = l_real (objs l) \<and> l_idx (objs l) \<noteq> - 1 \<longrightarrow> l \<in> set (if ns = LM_ID_BASE then tl maps else maps)"
  shows "\<exists>maps'. sort_loop objs ns ls (maps, None) = Inr (maps', None) \<and> mset maps' = mset maps
    \<and> (ns = LM_ID_BASE \<longrightarrow> hd maps' = hd maps)
    \<and> dependents_first objs (P \<union> {l \<in> set ls. l = l_real (objs l) \<and> l_idx (objs l) \<noteq> - 1}) maps'"
  using assms(2-5)
proof (induction ls arbitrary: maps P)
  case (Cons l ls)
  show ?case
  proof (cases "l = l_real (objs l) \<and> l_idx (objs l) \<noteq> - 1")
    case True
    then have l: "l \<in> set (if ns = LM_ID_BASE then tl maps else maps)" using Cons.prems(4) by simp
    then have "l \<in> set maps" by (cases maps) (auto split: if_splits)
    then obtain b a where m: "maps = b @ l # a" "l \<notin> set b" using split_list_first [of l maps] by blast
    have b: "ns = LM_ID_BASE \<longrightarrow> b \<noteq> []" using l m Cons.prems(1) by (cases b) auto
    let ?m = "b @ filter (\<lambda>x. depends (l_initfini (objs x)) l) a @ l # filter (\<lambda>x. \<not> depends (l_initfini (objs x)) l) a"
    have r: "fini_round objs ns l (maps, None) = Inr (?m, None)"
      using fini_round_partition [OF _ m(2) b, of objs a] assms(1) m(1) by (simp add: closed_deps_def)
    have ms: "mset ?m = mset maps" 
      using m multiset_partition [of "mset a" "\<lambda>x. depends (l_initfini (objs x)) l"] by simp
    have h: "ns = LM_ID_BASE \<longrightarrow> hd ?m = hd maps" using b m by auto
    have "set ?m = set maps" using ms by (metis set_mset_mset)
    moreover have d: "distinct ?m" using ms Cons.prems(1) by (metis mset_eq_imp_distinct_iff)
    ultimately have t: "set (if ns = LM_ID_BASE then tl ?m else ?m) = set (if ns = LM_ID_BASE then tl maps else maps)"
      using h b m Cons.prems(1) by (cases b) auto
    have p: "dependents_first objs (insert l P) ?m"
      using partition_sorts [OF assms(1)] Cons.prems(1,2) m by simp
    have q: "insert l P \<union> {l \<in> set ls. l = l_real (objs l) \<and> l_idx (objs l) \<noteq> - 1} =
        P \<union> {k \<in> set (l # ls). k = l_real (objs k) \<and> l_idx (objs k) \<noteq> - 1}"
      using True by auto
    obtain maps' where "sort_loop objs ns ls (?m, None) = Inr (maps', None)" "mset maps' = mset ?m"
        "ns = LM_ID_BASE \<longrightarrow> hd maps' = hd ?m"
        "dependents_first objs (insert l P \<union> {l \<in> set ls. l = l_real (objs l) \<and> l_idx (objs l) \<noteq> - 1}) maps'"
      using Cons.IH [OF d p] Cons.prems(4) t b by auto
    then show ?thesis
      unfolding q using h ms r True by (intro exI [of _ maps']) simp
  next
    case False
    then have "{k \<in> set (l # ls). k = l_real (objs k) \<and> l_idx (objs k) \<noteq> - 1} =
        {k \<in> set ls. k = l_real (objs k) \<and> l_idx (objs k) \<noteq> - 1}"
      by auto
    moreover have "sort_loop objs ns (l # ls) (maps, None) = sort_loop objs ns ls (maps, None)"
      using False by (simp only: sort_loop.simps if_False)
    moreover have "\<forall>l \<in> set ls. l = l_real (objs l) \<and> l_idx (objs l) \<noteq> - 1 \<longrightarrow>
        l \<in> set (if ns = LM_ID_BASE then tl maps else maps)"
      using Cons.prems(4) unfolding list.set ball_simps by blast
    ultimately show ?thesis
      using Cons.IH [OF Cons.prems(1,2,3)] by (simp only:)
  qed
qed simp

section \<open>A namespace\<close>

lemma collect_all:
  assumes "distinct ls" "\<forall>l \<in> set ls. l = l_real (objs l)" "length maps + length ls \<le> nloaded"
  shows "\<exists>objs'. collect nloaded ls maps objs = Inr (maps @ ls, objs')
    \<and> (\<forall>i. \<exists>n. objs' i = (if i \<in> set ls
           then (objs i)\<lparr>l_idx := int n, l_direct_opencount := l_direct_opencount (objs i) + 1\<rparr> else objs i))"
  using assms
proof (induction ls arbitrary: maps objs)
  case (Cons l ls)
  let ?o = "objs(l := (objs l)\<lparr>l_idx := int (length maps), l_direct_opencount := l_direct_opencount (objs l) + 1\<rparr>)"
  have "\<forall>k \<in> set ls. k = l_real (?o k)" using Cons.prems(1,2) by fastforce
  from Cons.IH [OF _ this, of "maps @ [l]"] Cons.prems(1,3) obtain objs' where
    "collect nloaded ls (maps @ [l]) ?o = Inr ((maps @ [l]) @ ls, objs')"
    and o: "\<forall>i. \<exists>n. objs' i = (if i \<in> set ls
       then (?o i)\<lparr>l_idx := int n, l_direct_opencount := l_direct_opencount (?o i) + 1\<rparr> else ?o i)"
    by (auto simp del: fun_upd_apply)
  then have "collect nloaded (l # ls) maps objs = Inr (maps @ l # ls, objs')"
    using Cons.prems by simp
  moreover have "\<exists>n. objs' i = (if i \<in> set (l # ls)
       then (objs i)\<lparr>l_idx := int n, l_direct_opencount := l_direct_opencount (objs i) + 1\<rparr> else objs i)" for i
  proof (cases "i = l")
    case True
    then have "objs' i = ?o l" using o [rule_format, of i] Cons.prems(1) by simp
    then show ?thesis using True by (intro exI [of _ "length maps"]) simp
  next
    case False
    then have "?o i = objs i" by simp
    then show ?thesis
      using o [rule_format, of i] False by (simp only: list.set insert_iff simp_thms)
  qed
  ultimately show ?case by blast
qed simp

lemma clear_called:
  "\<not> l_init_called l \<Longrightarrow> l\<lparr>l_init_called := False, l_direct_opencount := c\<rparr> = l\<lparr>l_direct_opencount := c\<rparr>"
  by (cases l) simp

lemma fini_all:
  assumes "distinct maps"
  shows "fold (fini_one False []) maps st =
    \<lparr>fs_objs = (\<lambda>i. if i \<in> set maps
        then (fs_objs st i)\<lparr>l_init_called := False, l_direct_opencount := l_direct_opencount (fs_objs st i) - 1\<rparr>
        else fs_objs st i),
     fs_trace = fs_trace st
       @ concat (map (\<lambda>i. fini_events (fs_objs st i)) (filter (\<lambda>i. l_init_called (fs_objs st i)) maps))\<rparr>"
  using assms
proof (induction maps arbitrary: st)
  case (Cons i maps)
  let ?l = "fs_objs st i"
  have "fini_one False [] i st =
     \<lparr>fs_objs = (fs_objs st)(i := ?l\<lparr>l_init_called := False, l_direct_opencount := l_direct_opencount ?l - 1\<rparr>),
      fs_trace = fs_trace st @ (if l_init_called ?l then fini_events ?l else [])\<rparr>"
  proof (cases "l_init_called ?l")
    case False
    then show ?thesis by (cases st) (simp add: fini_one_def Let_def clear_called)
  qed (simp add: fini_one_def Let_def)
  moreover have "filter (\<lambda>j. l_init_called (((fs_objs st)(i := x)) j)) maps = filter (\<lambda>j. l_init_called (fs_objs st j)) maps"
      "map (\<lambda>j. fini_events (((fs_objs st)(i := x)) j)) (filter Q maps) = map (\<lambda>j. fini_events (fs_objs st j)) (filter Q maps)" for x Q
    using Cons.prems by (auto intro!: filter_cong)
  ultimately show ?case
    using Cons by (auto simp: fun_eq_iff intro!: arg_cong [where f = concat])
qed simp

section \<open>Properties\<close>

text \<open>C30. Sorting for termination. When the recorded dependencies are transitive and without cycles
  and there are no run-time dependencies, the result is a rearrangement of the objects in which every
  handled object comes after all the objects that depend on it; the main program stays first.\<close>

theorem dl_sort_fini_dependents_first:
  assumes "closed_deps objs" "distinct maps" "ns = LM_ID_BASE \<longrightarrow> maps \<noteq> []"
    and "handled = {l \<in> set (if ns = LM_ID_BASE then tl ls else ls). l = l_real (objs l) \<and> l_idx (objs l) \<noteq> - 1}"
    and "handled \<subseteq> set (if ns = LM_ID_BASE then tl maps else maps)"
  shows "\<exists>maps'. dl_sort_fini objs ls maps None ns = Inr (maps', None) \<and> mset maps' = mset maps
    \<and> (ns = LM_ID_BASE \<longrightarrow> hd maps' = hd maps)
    \<and> (\<forall>i j. i < j \<longrightarrow> j < length maps' \<longrightarrow> maps' ! i \<in> handled \<longrightarrow> \<not> depends (l_initfini (objs (maps' ! j))) (maps' ! i))"
proof -
  let ?ls = "if ns = LM_ID_BASE then tl ls else ls"
  have e: "dependents_first objs {} maps" by (simp add: dependents_first_def sorted_wrt_iff_nth_less)
  have "\<forall>l \<in> set ?ls. l = l_real (objs l) \<and> l_idx (objs l) \<noteq> - 1 \<longrightarrow> l \<in> set (if ns = LM_ID_BASE then tl maps else maps)"
    using assms(4,5) by blast
  from sort_loop_sorts [OF assms(1,2) e assms(3) this]
  obtain maps' where m: "sort_loop objs ns ?ls (maps, None) = Inr (maps', None)" "mset maps' = mset maps"
      "ns = LM_ID_BASE \<longrightarrow> hd maps' = hd maps" "dependents_first objs handled maps'"
    unfolding assms(4) [symmetric] Un_empty_left by blast
  show ?thesis
    using m by (intro exI [of _ maps']) (simp add: dl_sort_fini_def dependents_first_def sorted_wrt_iff_nth_less)
qed

text \<open>Objects for examples: number, its dependencies as recorded, no destructors of the old style.\<close>

definition fini_object :: "nat \<Rightarrow> nat list \<Rightarrow> fini_map" where
  "fini_object i deps = \<lparr>l_real = i, l_idx = int i, l_initfini = Some (i # deps), l_reldeps = None,
     l_init_called = True, l_direct_opencount = 0, l_auditing = False,
     l_fini_array = Some [of_nat (16 * i)], l_fini = None\<rparr>"

theorem dl_sort_fini_dependents_first_witness:
  "\<exists>maps'. dl_sort_fini (\<lambda>i. fini_object i (if i = 0 then [1, 2] else if i = 2 then [1] else [])) [0, 1, 2] [0, 1, 2] None LM_ID_BASE
      = Inr (maps', None) \<and> mset maps' = mset [0, 1, 2] \<and> hd maps' = 0"
proof -
  let ?objs = "\<lambda>i. fini_object i (if i = 0 then [1, 2] else if i = 2 then [1] else [])"
  have "closed_deps ?objs" by (auto simp: closed_deps_def fini_object_def depends_def)
  from dl_sort_fini_dependents_first [OF this, of "[0, 1, 2]" LM_ID_BASE "{1, 2}" "[0, 1, 2]"]
  show ?thesis by (auto simp: fini_object_def)
qed

text \<open>With the direct dependencies only, as they are recorded for objects other than the main
  program, the order can be wrong although there is no cycle: object 4 depends on 2, 2 on 3 and 3 on 1,
  and the destructors of 2 come before those of 4.\<close>

lemma dl_sort_fini_misorders:
  "dl_sort_fini (\<lambda>i. fini_object i ([[], [], [3], [1], [2]] ! i)) [0, 1, 2, 3, 4] [0, 1, 2, 3, 4] None LM_ID_BASE
     = Inr ([0, 2, 3, 1, 4], None)
   \<and> depends (l_initfini (fini_object 4 [2])) 2"
  by (simp add: dl_sort_fini_def fini_object_def LM_ID_BASE_def fini_round_def find_place.simps get_def fini_step_def depends_def move_def upt_rec)

text \<open>C29. The end of a program with one namespace and without auditing libraries, when the dependencies that the objects record
  are transitive and acyclic and none was added at run time: the destructors of every object whose constructors ran are
  called exactly once, those of an object before those of its dependencies and those of the main program first; afterwards
  every object counts as finished and the open counts are as before. (With the direct dependencies only the order can be
  wrong, as \<open>dl_sort_fini_misorders\<close> shows.)\<close>

theorem dl_fini_runs_destructors:
  assumes "closed_deps (fs_objs st)" "ls \<noteq> []" "distinct ls" "\<forall>l \<in> set ls. l = l_real (fs_objs st l)"
    and "\<not> l_auditing (fs_objs st (hd ls))"
  shows "\<exists>maps st'. dl_fini [] [\<lparr>ns_loaded = ls, ns_nloaded = length ls\<rparr>] st = Inr st'
    \<and> mset maps = mset ls \<and> hd maps = hd ls
    \<and> (\<forall>i j. i < j \<longrightarrow> j < length maps \<longrightarrow> maps ! i \<in> set (tl ls) \<longrightarrow>
          \<not> depends (l_initfini (fs_objs st (maps ! j))) (maps ! i))
    \<and> fs_trace st' = fs_trace st
        @ concat (map (\<lambda>i. fini_events (fs_objs st i)) (filter (\<lambda>i. l_init_called (fs_objs st i)) maps))
    \<and> (\<forall>i. l_direct_opencount (fs_objs st' i) = l_direct_opencount (fs_objs st i))
    \<and> (\<forall>i \<in> set ls. \<not> l_init_called (fs_objs st' i))"
proof -
  obtain objs' where c: "collect (length ls) ls [] (fs_objs st) = Inr (ls, objs')"
    and o: "\<forall>i. \<exists>n. objs' i = (if i \<in> set ls
       then (fs_objs st i)\<lparr>l_idx := int n, l_direct_opencount := l_direct_opencount (fs_objs st i) + 1\<rparr> else fs_objs st i)"
    using collect_all [OF assms(3,4), of "[]" "length ls"] by auto
  have f: "l_initfini (objs' i) = l_initfini (fs_objs st i)" "l_reldeps (objs' i) = l_reldeps (fs_objs st i)"
      "l_real (objs' i) = l_real (fs_objs st i)" "l_init_called (objs' i) = l_init_called (fs_objs st i)"
      "fini_events (objs' i) = fini_events (fs_objs st i)"
      "l_direct_opencount (objs' i) = l_direct_opencount (fs_objs st i) + (if i \<in> set ls then 1 else 0)"
      "i \<in> set ls \<Longrightarrow> l_idx (objs' i) \<noteq> - 1" for i
    using o [rule_format, of i] by (auto simp: fini_events_def split: if_splits)
  have cd: "closed_deps objs'" using assms(1) by (simp add: closed_deps_def f)
  have h: "{l \<in> set (tl ls). l = l_real (objs' l) \<and> l_idx (objs' l) \<noteq> - 1} = set (tl ls)"
    using assms(2,4) f by (cases ls) auto
  have e: "dependents_first objs' {} ls" by (simp add: dependents_first_def sorted_wrt_iff_nth_less)
  obtain maps where m: "sort_loop objs' LM_ID_BASE (tl ls) (ls, None) = Inr (maps, None)" "mset maps = mset ls"
      "hd maps = hd ls" "dependents_first objs' (set (tl ls)) maps"
    using sort_loop_sorts [OF cd assms(3) e, of LM_ID_BASE "tl ls"] assms(2) h by auto
  have d: "distinct maps" "set maps = set ls"
    using m(2) assms(3) by (metis mset_eq_imp_distinct_iff, metis set_mset_mset)
  obtain l ls' where ls: "ls = l # ls'" using assms(2) by (cases ls) auto
  have "dl_fini [] [\<lparr>ns_loaded = ls, ns_nloaded = length ls\<rparr>] st = Inr (fold (fini_one False []) maps (st\<lparr>fs_objs := objs'\<rparr>))"
    using c m(1) assms(5) ls
    by (simp add: dl_fini_def fini_namespace_def dl_sort_fini_def LM_ID_BASE_def)
  then show ?thesis
    using m(2-4) d
    by (intro exI [of _ maps] exI [of _ "fold (fini_one False []) maps (st\<lparr>fs_objs := objs'\<rparr>)"])
      (simp add: fini_all f dependents_first_def sorted_wrt_iff_nth_less)
qed

theorem dl_fini_runs_destructors_witness:
  "\<exists>maps st'. dl_fini [] [\<lparr>ns_loaded = [0, 1, 2], ns_nloaded = 3\<rparr>]
        \<lparr>fs_objs = (\<lambda>i. fini_object i (if i = 0 then [1, 2] else if i = 2 then [1] else [])), fs_trace = []\<rparr> = Inr st'
      \<and> mset maps = mset [0, 1, 2]
      \<and> fs_trace st' = map (\<lambda>i. CallFini (of_nat (16 * i))) maps"
proof -
  let ?objs = "\<lambda>i. fini_object i (if i = 0 then [1, 2] else if i = 2 then [1] else [])"
  let ?st = "\<lparr>fs_objs = ?objs, fs_trace = []\<rparr>"
  have c: "closed_deps (fs_objs ?st)" by (auto simp: closed_deps_def fini_object_def depends_def)
  have r: "\<forall>l \<in> set [0, 1, 2]. l = l_real (fs_objs ?st l)" "\<not> l_auditing (fs_objs ?st (hd [0, 1, 2]))"
    by (simp_all add: fini_object_def)
  have "[0::nat, 1, 2] \<noteq> []" "distinct [0::nat, 1, 2]" by simp_all
  note d = dl_fini_runs_destructors [OF c this r]
  then obtain maps st' where *: "dl_fini [] [\<lparr>ns_loaded = [0, 1, 2], ns_nloaded = length [0::nat, 1, 2]\<rparr>] ?st = Inr st'"
      "mset maps = mset [0, 1, 2]"
      "fs_trace st' = fs_trace ?st @ concat (map (\<lambda>i. fini_events (fs_objs ?st i)) (filter (\<lambda>i. l_init_called (fs_objs ?st i)) maps))"
    by blast
  moreover have "fini_events (?objs i) = [CallFini (of_nat (16 * i))]" "l_init_called (?objs i)" for i
    by (simp_all add: fini_object_def fini_events_def)
  ultimately have "fs_trace st' = map (\<lambda>i. CallFini (of_nat (16 * i))) maps"
    by (simp add: concat_map_singleton)
  then show ?thesis
    using *(1,2) by (intro exI [of _ maps] exI [of _ st']) (simp add: numeral_3_eq_3)
qed

end
