(* ===== verification/Importer.thy ===== *)
theory Importer
  imports Elfperf_Prelude
begin

text \<open>
  The importer, \<^verbatim>\<open>src/importer\<close>: it runs \<^verbatim>\<open>objdump\<close> and \<^verbatim>\<open>ldd\<close> on a program and lists, for each shared
  library, the functions that the program imports from it. The commands are a parameter: what a
  command writes, or \<open>None\<close> when \<^verbatim>\<open>popen\<close> fails.
\<close>

section \<open>Parsing the output\<close>

text \<open>A pointer into a line is an offset; reading beyond the terminator is a fault.\<close>

definition skip_spaces :: "string \<Rightarrow> string" where
  "skip_spaces s = dropWhile (\<lambda>c. c = CHR '' '') s"

fun symbols_loop :: "string list \<Rightarrow> string \<Rightarrow> string list result" where
  "symbols_loop [] section = Inr []"
| "symbols_loop (line # lines) section =
     (case strstr line section of
        None \<Rightarrow> symbols_loop lines section
      | Some key \<Rightarrow>
          if length line < key + 16 then Inl OutOfBounds
          else bind_result (symbols_loop lines section) (\<lambda>ss. Inr (skip_spaces (drop (key + 16) line) # ss)))"

text \<open>The list and the count; without data the count is not set (the assignment is written as a
  comparison).\<close>

definition getSymbols :: "string list option \<Rightarrow> string \<Rightarrow> (string list \<times> nat option) result" where
  "getSymbols data section =
     (case data of
        None \<Rightarrow> Inr ([], None)
      | Some [] \<Rightarrow> Inr ([], None)
      | Some lines \<Rightarrow> bind_result (symbols_loop lines section) (\<lambda>ss. Inr (ss, Some (length ss))))"

text \<open>The loop that skips spaces up to the right bound.\<close>

function skip_to :: "string \<Rightarrow> int \<Rightarrow> int \<Rightarrow> int" where
  "skip_to line lb rb =
     (if cstr_at line (nat lb) = CHR '' '' \<and> lb < rb then skip_to line (lb + 1) rb else lb)"
  by pat_completeness auto

termination skip_to
  by (relation "measure (\<lambda>(_, lb, rb). nat (rb - lb))") auto

declare skip_to.simps [simp del]

text \<open>The library of a line of \<^verbatim>\<open>ldd\<close>; a negative length becomes a huge \<^verbatim>\<open>size_t\<close>, so that the rest of
  the line is copied.\<close>

definition lib_of_line :: "string \<Rightarrow> string option" where
  "lib_of_line line =
     (let leftBound = (case strstr line ''=>'' of None \<Rightarrow> 1 | Some p \<Rightarrow> int p + 2)
      in case strstr line ''('' of
           None \<Rightarrow> None
         | Some r \<Rightarrow>
             if int r < leftBound then None
             else let rightBound = int r - 1; lb = skip_to line leftBound rightBound
                  in if lb = rightBound then None
                     else Some (if lb < rightBound then strndup (drop (nat lb) line) (nat (rightBound - lb))
                                else drop (nat lb) line))"

definition getSharedLibs :: "string list option \<Rightarrow> string list \<times> nat option" where
  "getSharedLibs data =
     (case data of
        None \<Rightarrow> ([], None)
      | Some [] \<Rightarrow> ([], None)
      | Some lines \<Rightarrow> let libs = List.map_filter lib_of_line lines in (libs, Some (length libs)))"

section \<open>Running the commands\<close>

definition BUFSIZ :: nat where "BUFSIZ = 8192"

text \<open>The lines of one buffer: what follows the last newline is dropped. \<^verbatim>\<open>strndup\<close> stops at a null
  byte.\<close>

fun buffer_lines :: "string \<Rightarrow> string \<Rightarrow> string list" where
  "buffer_lines cur [] = []"
| "buffer_lines cur (c # cs) =
     (if c = CHR 0x0A then takeWhile (\<lambda>x. x \<noteq> CHR 0x00) cur # buffer_lines [] cs
      else buffer_lines (cur @ [c]) cs)"

function read_loop :: "string \<Rightarrow> string list" where
  "read_loop stream =
     (let buffer = take BUFSIZ stream
      in if buffer = [] then [] else buffer_lines [] buffer @ read_loop (drop BUFSIZ stream))"
  by pat_completeness auto

termination read_loop
  by (relation "measure length") (auto simp: BUFSIZ_def)

declare read_loop.simps [simp del]

type_synonym commands = "string \<Rightarrow> string option"

text \<open>The result is a null pointer when there is no line; a failed \<^verbatim>\<open>popen\<close> is followed by \<^verbatim>\<open>pclose\<close> of
  a null pointer.\<close>

definition execCommand :: "commands \<Rightarrow> string \<Rightarrow> string list option result" where
  "execCommand popen cmd =
     (case popen cmd of
        None \<Rightarrow> Inl SegFault
      | Some stream \<Rightarrow> let output = read_loop stream in Inr (if output = [] then None else Some output))"

text \<open>The command is built in 100 bytes.\<close>

definition command :: "string list \<Rightarrow> string result" where
  "command parts = (let c = concat parts in if length c < 100 then Inr c else Inl OutOfBounds)"

record Import =
  lib :: string
  im_functions :: "string list"

text \<open>The entry of a library whose command gives no line is counted, but not filled in: \<open>None\<close>.\<close>

definition getSymbols' :: "string list option \<Rightarrow> string \<Rightarrow> string list result" where
  "getSymbols' data section = bind_result (getSymbols data section) (\<lambda>(ss, n). Inr ss)"

fun imports_loop :: "commands \<Rightarrow> string list \<Rightarrow> string list \<Rightarrow> Import option list result" where
  "imports_loop popen symbols [] = Inr []"
| "imports_loop popen symbols (l # libs) =
     bind_result (command [''objdump -T '', l, '' | grep -w .text | c++filt'']) (\<lambda>cmd.
     bind_result (execCommand popen cmd) (\<lambda>output.
     bind_result
       (case output of
          None \<Rightarrow> Inr None
        | Some lines \<Rightarrow>
            bind_result (getSymbols' output ''.text'') (\<lambda>sharedSymbols.
              Inr (Some \<lparr>lib = l, im_functions = filter (\<lambda>s. s \<in> set symbols) sharedSymbols\<rparr>))) (\<lambda>i.
     bind_result (imports_loop popen symbols libs) (\<lambda>is. Inr (i # is)))))"

definition getImports :: "commands \<Rightarrow> string \<Rightarrow> Import option list option result" where
  "getImports popen filename =
     bind_result (command [''objdump -T '', filename, '' | grep '', [CHR 0x22], [CHR 0x5C], ''*UND'', [CHR 0x5C], ''*'', [CHR 0x22], '' | c++filt'']) (\<lambda>cmd.
     bind_result (execCommand popen cmd) (\<lambda>output.
     if output = None then Inr None
     else bind_result (getSymbols' output ''*UND*'') (\<lambda>symbols.
     bind_result (command [''ldd '', filename]) (\<lambda>cmd.
     bind_result (execCommand popen cmd) (\<lambda>output.
     if output = None then Inr None
     else bind_result (imports_loop popen symbols (fst (getSharedLibs output))) (\<lambda>imports.
            Inr (if imports = [] then None else Some imports)))))))"

text \<open>The printed lines; reading an entry that was not filled in is a fault.\<close>

fun print_imports :: "Import option list \<Rightarrow> string list result" where
  "print_imports [] = Inr []"
| "print_imports (None # is) = Inl SegFault"
| "print_imports (Some i # is) =
     bind_result (print_imports is) (\<lambda>ls. Inr ([[], ''===== '' @ lib i @ '' =====''] @ im_functions i @ ls))"

definition readImports :: "commands \<Rightarrow> string \<Rightarrow> string list result" where
  "readImports popen filename =
     bind_result (getImports popen filename) (\<lambda>imports.
       case imports of None \<Rightarrow> Inr [''Error while getting imports from the file''] | Some is \<Rightarrow> print_imports is)"

definition printUsage :: "string \<Rightarrow> string list" where
  "printUsage programName =
     [''Usage: '' @ programName @ '' options [ inputfile ... ]'',
      ''  -h, --help                 Display usage information.'',
      ''  -i, --imports filename     Process getting imports from ELF file with filename.'']"

definition printNoArgsMsg :: "string \<Rightarrow> string list" where
  "printNoArgsMsg programName =
     [programName @ '': missing file arguments'',
      ''Try '' @ [CHR 0x27] @ programName @ '' --help'' @ [CHR 0x27] @ '' for more information.'']"

text \<open>What \<^verbatim>\<open>getopt_long\<close> returns: an option with its argument, or -1. The result of \<^verbatim>\<open>main\<close> is the exit status
  and the lines; \<^verbatim>\<open>printUsage\<close> ends the program.\<close>

datatype next_option = Opt char "string option" | NoOption

definition importer_main :: "commands \<Rightarrow> string \<Rightarrow> next_option \<Rightarrow> (int \<times> string list) result" where
  "importer_main popen programName opt =
     (case opt of
        NoOption \<Rightarrow> Inr (1, printUsage programName)
      | Opt c optarg \<Rightarrow>
          if c = CHR ''h'' then Inr (0, printUsage programName)
          else if c = CHR ''i''
          then (case optarg of
                  None \<Rightarrow> Inl SegFault
                | Some filename \<Rightarrow> bind_result (readImports popen filename) (\<lambda>ls. Inr (0, ls)))
          else if c = CHR ''?'' then Inr (1, printUsage programName)
          else Inr (0, printNoArgsMsg programName))"

section \<open>Well-formed output\<close>

definition unlines :: "string list \<Rightarrow> string" where
  "unlines ls = concat (map (\<lambda>l. l @ [CHR 0x0A]) ls)"

definition short_output :: "string list \<Rightarrow> bool" where
  "short_output ls \<longleftrightarrow>
     ls \<noteq> [] \<and> length (unlines ls) \<le> BUFSIZ \<and> (\<forall>l \<in> set ls. CHR 0x0A \<notin> set l \<and> CHR 0x00 \<notin> set l)"

text \<open>A line of \<^verbatim>\<open>objdump\<close>: what is before the section, eleven characters, the symbol.\<close>

definition sym_line :: "string \<Rightarrow> string \<times> string \<times> string \<Rightarrow> string" where
  "sym_line section = (\<lambda>(pre, mid, name). pre @ section @ mid @ name)"

definition sym_line_ok :: "string \<Rightarrow> string \<times> string \<times> string \<Rightarrow> bool" where
  "sym_line_ok section = (\<lambda>(pre, mid, name). hd section \<notin> set pre \<and> length section = 5 \<and> length mid = 11)"

definition sym_name :: "string \<times> string \<times> string \<Rightarrow> string" where
  "sym_name = (\<lambda>(pre, mid, name). skip_spaces name)"

text \<open>The lines of \<^verbatim>\<open>ldd\<close>, which start with a tab: a library with the path where it was found; an object that is named by its
  path, as the loader is; an object that has no file, as the one of the kernel; a library that was not found.\<close>

datatype ldd_entry =
    Mapped string string string
  | Direct string string
  | NoFile string string
  | NotFound string

fun ldd_line :: "ldd_entry \<Rightarrow> string" where
  "ldd_line (Mapped name path addr) = CHR 0x09 # name @ '' => '' @ path @ '' ('' @ addr"
| "ldd_line (Direct path addr) = CHR 0x09 # path @ '' ('' @ addr"
| "ldd_line (NoFile name addr) = CHR 0x09 # name @ '' =>  ('' @ addr"
| "ldd_line (NotFound name) = CHR 0x09 # name @ '' => not found''"

text \<open>Names and paths have no parenthesis, and in front of the place where an arrow is looked for there is no equals sign.\<close>

fun ldd_line_ok :: "ldd_entry \<Rightarrow> bool" where
  "ldd_line_ok (Mapped name path addr) \<longleftrightarrow>
     CHR ''='' \<notin> set name \<and> CHR ''('' \<notin> set name \<and> CHR ''('' \<notin> set path \<and> path \<noteq> [] \<and> hd path \<noteq> CHR '' ''"
| "ldd_line_ok (Direct path addr) \<longleftrightarrow>
     CHR ''='' \<notin> set path \<and> CHR ''='' \<notin> set addr \<and> CHR ''('' \<notin> set path \<and> path \<noteq> [] \<and> hd path \<noteq> CHR '' ''"
| "ldd_line_ok (NoFile name addr) \<longleftrightarrow> CHR ''='' \<notin> set name \<and> CHR ''('' \<notin> set name"
| "ldd_line_ok (NotFound name) \<longleftrightarrow> CHR ''('' \<notin> set name"

text \<open>The libraries that are examined: those with a path.\<close>

fun ldd_path :: "ldd_entry \<Rightarrow> string option" where
  "ldd_path (Mapped name path addr) = Some path"
| "ldd_path (Direct path addr) = Some path"
| "ldd_path (NoFile name addr) = None"
| "ldd_path (NotFound name) = None"

lemma buffer_lines_line:
  "CHR 0x0A \<notin> set l \<Longrightarrow> buffer_lines cur (l @ CHR 0x0A # r) = takeWhile (\<lambda>x. x \<noteq> CHR 0x00) (cur @ l) # buffer_lines [] r"
  by (induction l arbitrary: cur) auto

lemma buffer_lines_unlines:
  "\<forall>l \<in> set ls. CHR 0x0A \<notin> set l \<and> CHR 0x00 \<notin> set l \<Longrightarrow> buffer_lines [] (unlines ls) = ls"
proof (induction ls)
  case (Cons l ls)
  then have "takeWhile (\<lambda>x. x \<noteq> CHR 0x00) l = l" by (auto simp: takeWhile_eq_all_conv)
  then show ?case using Cons by (simp add: unlines_def buffer_lines_line)
qed (simp add: unlines_def)

lemma execCommand_short:
  assumes "popen cmd = Some (unlines ls)" "short_output ls"
  shows "execCommand popen cmd = Inr (Some ls)"
proof -
  have "unlines ls \<noteq> []" using assms(2) by (cases ls) (auto simp: short_output_def unlines_def)
  moreover have "read_loop [] = []" by (subst read_loop.simps) simp
  ultimately have "read_loop (unlines ls) = ls"
    using assms(2) buffer_lines_unlines [of ls]
    by (subst read_loop.simps) (auto simp: short_output_def Let_def BUFSIZ_def)
  then show ?thesis using assms by (simp add: execCommand_def short_output_def)
qed

lemma strstr_first: "c \<notin> set p \<Longrightarrow> strstr (p @ (c # cs) @ r) (c # cs) = Some (length p)"
proof (induction p)
  case Nil
  then show ?case by (cases "(c # cs) @ r") auto
next
  case (Cons x p)
  then have "x \<noteq> c" by auto
  then show ?case using Cons by simp
qed

lemma symbols_loop_lines:
  "\<forall>u \<in> set us. sym_line_ok section u \<Longrightarrow> symbols_loop (map (sym_line section) us) section = Inr (map sym_name us)"
proof (induction us)
  case (Cons u us)
  obtain p m n where u: "u = (p, m, n)" by (cases u)
  obtain c cs where "section = c # cs"
    using Cons.prems u by (cases "section") (auto simp: sym_line_ok_def)
  then have "strstr (sym_line section u) section = Some (length p)"
    using Cons.prems u strstr_first [of c p cs "m @ n"] by (simp add: sym_line_def sym_line_ok_def)
  moreover have "length (sym_line section u) \<ge> length p + 16" "drop (length p + 16) (sym_line section u) = n" "sym_name u = skip_spaces n"
    using Cons.prems u by (simp_all add: sym_line_def sym_line_ok_def sym_name_def)
  ultimately show ?case
    using Cons by simp
qed simp

lemma strstr_absent: "c \<notin> set s \<Longrightarrow> strstr s (c # cs) = None"
  by (induction s) (auto simp: prefix_def)

lemma lib_of_mapped: "ldd_line_ok (Mapped name path addr) \<Longrightarrow> lib_of_line (ldd_line (Mapped name path addr)) = Some path"
proof -
  assume ok: "ldd_line_ok (Mapped name path addr)"
  define pre where "pre = CHR 0x09 # name @ '' ''"
  obtain c cs where path: "path = c # cs" "c \<noteq> CHR '' ''" using ok by (cases path) auto
  let ?l = "ldd_line (Mapped name path addr)" and ?n = "int (length pre)"
  have t: "?l = pre @ ''=> '' @ path @ '' ('' @ addr" by (simp add: pre_def)
  have l: "strstr ?l ''=>'' = Some (length pre)" "strstr ?l ''('' = Some (length pre + 3 + length path + 1)"
    using ok strstr_first [of "CHR ''=''" pre "''>''" "'' '' @ path @ '' ('' @ addr"]
      strstr_first [of "CHR ''(''" "pre @ ''=> '' @ path @ '' ''" "[]" addr]
    unfolding t by (simp_all add: pre_def)
  have n: "cstr_at ?l (length pre + 2) = CHR '' ''" "cstr_at ?l (length pre + 3) = c"
    unfolding t using path by (simp_all add: cstr_at_def nth_append)
  have "skip_to ?l (?n + 2) (?n + 3 + int (length path)) = skip_to ?l (?n + 3) (?n + 3 + int (length path))"
    using n(1) by (subst skip_to.simps) (simp add: nat_add_distrib add.commute)
  also have "\<dots> = ?n + 3"
    using n(2) path(2) by (subst skip_to.simps) (simp add: nat_add_distrib)
  finally show ?thesis
    using l path(1) unfolding t by (simp add: lib_of_line_def Let_def strndup_def nat_add_distrib algebra_simps)
qed

lemma lib_of_direct: "ldd_line_ok (Direct path addr) \<Longrightarrow> lib_of_line (ldd_line (Direct path addr)) = Some path"
proof -
  assume ok: "ldd_line_ok (Direct path addr)"
  obtain c cs where path: "path = c # cs" "c \<noteq> CHR '' ''" using ok by (cases path) auto
  let ?l = "ldd_line (Direct path addr)"
  have l: "strstr ?l ''=>'' = None" "strstr ?l ''('' = Some (length path + 2)"
    using ok strstr_absent [of "CHR ''=''" ?l "''>''"] strstr_first [of "CHR ''(''" "CHR 0x09 # path @ '' ''" "[]" addr]
    by simp_all
  have "skip_to ?l 1 (int (length path) + 1) = 1"
    using path by (subst skip_to.simps) (simp add: cstr_at_def)
  then show ?thesis
    using l path(1) by (simp add: lib_of_line_def Let_def strndup_def nat_add_distrib algebra_simps)
qed

lemma lib_of_no_file: "ldd_line_ok (NoFile name addr) \<Longrightarrow> lib_of_line (ldd_line (NoFile name addr)) = None"
proof -
  assume ok: "ldd_line_ok (NoFile name addr)"
  define pre where "pre = CHR 0x09 # name @ '' ''"
  let ?l = "ldd_line (NoFile name addr)" and ?n = "int (length pre)"
  have t: "?l = pre @ ''=>  ('' @ addr" by (simp add: pre_def)
  have l: "strstr ?l ''=>'' = Some (length pre)" "strstr ?l ''('' = Some (length pre + 4)"
    using ok strstr_first [of "CHR ''=''" pre "''>''" "''  ('' @ addr"] strstr_first [of "CHR ''(''" "pre @ ''=>  ''" "[]" addr]
    unfolding t by (simp_all add: pre_def)
  have "cstr_at ?l (length pre + 2) = CHR '' ''"
    unfolding t by (simp add: cstr_at_def nth_append)
  then have "skip_to ?l (?n + 2) (?n + 3) = skip_to ?l (?n + 3) (?n + 3)"
    by (subst skip_to.simps) (simp add: nat_add_distrib add.commute)
  also have "\<dots> = ?n + 3" by (subst skip_to.simps) simp
  finally show ?thesis
    using l by (simp add: lib_of_line_def Let_def algebra_simps del: ldd_line.simps)
qed

lemma lib_of_ldd_line: "ldd_line_ok e \<Longrightarrow> lib_of_line (ldd_line e) = ldd_path e"
proof (cases e)
  case (NotFound name)
  assume "ldd_line_ok e"
  then have "strstr (ldd_line e) ''('' = None" using NotFound by (intro strstr_absent) simp
  then show ?thesis using NotFound by (simp add: lib_of_line_def Let_def)
qed (use lib_of_mapped lib_of_direct lib_of_no_file in \<open>simp_all del: ldd_line.simps ldd_line_ok.simps\<close>)

lemma getSharedLibs_lines:
  assumes "es \<noteq> []" "\<forall>e \<in> set es. ldd_line_ok e"
  shows "fst (getSharedLibs (Some (map ldd_line es))) = List.map_filter ldd_path es"
proof -
  have "List.map_filter lib_of_line (map ldd_line es) = List.map_filter ldd_path es"
    using assms(2) by (induction es) (simp_all add: List.map_filter_simps lib_of_ldd_line split: option.split)
  then show ?thesis using assms(1) by (cases es) (auto simp: getSharedLibs_def Let_def)
qed

lemma getSymbols'_lines:
  assumes "us \<noteq> []" "\<forall>u \<in> set us. sym_line_ok section u"
  shows "getSymbols' (Some (map (sym_line section) us)) section = Inr (map sym_name us)"
  using symbols_loop_lines [OF assms(2)] assms(1)
  by (cases us) (auto simp: getSymbols'_def getSymbols_def)

definition text_cmd :: "string \<Rightarrow> string" where
  "text_cmd l = ''objdump -T '' @ l @ '' | grep -w .text | c++filt''"

definition und_cmd :: "string \<Rightarrow> string" where
  "und_cmd f = ''objdump -T '' @ f @ '' | grep '' @ [CHR 0x22, CHR 0x5C] @ ''*UND'' @ [CHR 0x5C] @ ''*'' @ [CHR 0x22] @ '' | c++filt''"

text \<open>What is asked of the output of \<^verbatim>\<open>objdump\<close>: no lines at all, or well-formed ones that fit in a buffer.\<close>

definition objdump_ok :: "commands \<Rightarrow> string \<Rightarrow> string \<Rightarrow> (string \<times> string \<times> string) list \<Rightarrow> bool" where
  "objdump_ok popen cmd section us \<longleftrightarrow>
     length cmd < 100 \<and> popen cmd = Some (unlines (map (sym_line section) us))
     \<and> (us = [] \<or> short_output (map (sym_line section) us)) \<and> (\<forall>u \<in> set us. sym_line_ok section u)"

lemma objdump_output:
  assumes "objdump_ok popen cmd section us"
  shows "execCommand popen cmd = Inr (if us = [] then None else Some (map (sym_line section) us))"
    and "us \<noteq> [] \<Longrightarrow> getSymbols' (Some (map (sym_line section) us)) section = Inr (map sym_name us)"
proof -
  have "read_loop [] = []" by (subst read_loop.simps) simp
  then show "execCommand popen cmd = Inr (if us = [] then None else Some (map (sym_line section) us))"
    using assms execCommand_short [of popen cmd "map (sym_line section) us"]
    by (cases "us = []") (auto simp: objdump_ok_def execCommand_def [of popen] unlines_def [of "[]"])
  show "us \<noteq> [] \<Longrightarrow> getSymbols' (Some (map (sym_line section) us)) section = Inr (map sym_name us)"
    using assms by (intro getSymbols'_lines) (auto simp: objdump_ok_def)
qed

text \<open>The entry of a library: the functions of its text section that are among the imported ones; it is left empty when \<^verbatim>\<open>objdump\<close>
  finds none at all.\<close>

definition import_entry :: "string list \<Rightarrow> (string \<Rightarrow> (string \<times> string \<times> string) list) \<Rightarrow> string \<Rightarrow> Import option" where
  "import_entry symbols shared l =
     (if shared l = [] then None
      else Some \<lparr>lib = l, im_functions = filter (\<lambda>s. s \<in> set symbols) (map sym_name (shared l))\<rparr>)"

lemma imports_loop_lines:
  assumes "\<forall>l \<in> set libs. objdump_ok popen (text_cmd l) ''.text'' (shared l)"
  shows "imports_loop popen symbols libs = Inr (map (import_entry symbols shared) libs)"
  using assms
proof (induction libs)
  case (Cons l libs)
  then have ok: "objdump_ok popen (text_cmd l) ''.text'' (shared l)" by simp
  have "command [''objdump -T '', l, '' | grep -w .text | c++filt''] = Inr (text_cmd l)"
    using ok by (simp add: command_def text_cmd_def objdump_ok_def)
  then show ?case using Cons objdump_output [OF ok] by (cases "shared l = []") (simp_all add: import_entry_def)
qed simp

section \<open>Properties\<close>

text \<open>C31. With well-formed output of the commands that fits in one buffer and commands of fewer than
  100 characters, the importer lists every library of \<^verbatim>\<open>ldd\<close> with a path, in order, and for each the
  functions of its text section that the program imports, in the order of the library. The loader, which \<^verbatim>\<open>ldd\<close> names by its
  path alone, is one of them; an object without a file and a library that was not found are left out. The entry of a
  library for which \<^verbatim>\<open>objdump\<close> gives nothing is not filled in. Without libraries the result is null.\<close>

theorem getImports_exact:
  assumes "objdump_ok popen (und_cmd filename) ''*UND*'' us" "us \<noteq> []"
    and "length filename < 95" "popen (''ldd '' @ filename) = Some (unlines (map ldd_line es))"
    and "short_output (map ldd_line es)" "\<forall>e \<in> set es. ldd_line_ok e"
    and "libs = List.map_filter ldd_path es" "\<forall>l \<in> set libs. objdump_ok popen (text_cmd l) ''.text'' (shared l)"
  shows "getImports popen filename =
    Inr (if libs = [] then None else Some (map (\<lambda>l.
      if shared l = [] then None
      else Some \<lparr>lib = l, im_functions = filter (\<lambda>s. s \<in> set (map sym_name us)) (map sym_name (shared l))\<rparr>) libs))"
proof -
  have es: "es \<noteq> []" using assms(5) by (auto simp: short_output_def)
  have "command [''objdump -T '', filename, '' | grep '', [CHR 0x22], [CHR 0x5C], ''*UND'', [CHR 0x5C], ''*'', [CHR 0x22], '' | c++filt'']
      = Inr (und_cmd filename)"
    using assms(1) by (simp add: command_def und_cmd_def objdump_ok_def)
  moreover have "command [''ldd '', filename] = Inr (''ldd '' @ filename)"
    using assms(3) by (simp add: command_def)
  moreover have "execCommand popen (''ldd '' @ filename) = Inr (Some (map ldd_line es))"
    using assms(4,5) by (rule execCommand_short)
  ultimately show ?thesis
    using objdump_output [OF assms(1)] assms(2,7) getSharedLibs_lines [OF es assms(6)] imports_loop_lines [OF assms(8)]
    unfolding getImports_def import_entry_def [abs_def] by (simp del: append.simps append_Cons)
qed

text \<open>A program whose only library is the C library, with the lines for the kernel's object and the loader.\<close>

definition example_commands :: commands where
  "example_commands cmd =
     (if cmd = und_cmd ''a'' then Some (unlines [''0 DF *UND*  00000000  puts''])
      else if cmd = ''ldd a''
      then Some (unlines [CHR 0x09 # ''linux-vdso =>  (0x7f)'', CHR 0x09 # ''libc => /libc (0x1)'', CHR 0x09 # ''/ld.so (0x2)''])
      else if cmd = text_cmd ''/libc'' then Some (unlines [''1 DF .text  00000010  gets'', ''2 DF .text  00000010  puts''])
      else if cmd = text_cmd ''/ld.so'' then Some (unlines [''3 DF .text  00000010  malloc''])
      else None)"

theorem getImports_exact_witness:
  "getImports example_commands ''a'' =
     Inr (Some [Some \<lparr>lib = ''/libc'', im_functions = [''puts'']\<rparr>, Some \<lparr>lib = ''/ld.so'', im_functions = []\<rparr>])"
proof -
  let ?u = "[(''0 DF '', ''  00000000 '', '' puts'')]"
  let ?e = "[NoFile ''linux-vdso'' ''0x7f)'', Mapped ''libc'' ''/libc'' ''0x1)'', Direct ''/ld.so'' ''0x2)'']"
  let ?s = "\<lambda>l. if l = ''/libc'' then [(''1 DF '', ''  00000010 '', '' gets''), (''2 DF '', ''  00000010 '', '' puts'')]
    else [(''3 DF '', ''  00000010 '', '' malloc'')]"
  have o1: "objdump_ok example_commands (und_cmd ''a'') ''*UND*'' ?u"
    by (simp add: objdump_ok_def example_commands_def short_output_def sym_line_def sym_line_ok_def unlines_def BUFSIZ_def)
      (simp add: und_cmd_def)
  have o2: "objdump_ok example_commands (text_cmd ''/libc'') ''.text'' (?s ''/libc'')"
    by (simp add: objdump_ok_def example_commands_def short_output_def sym_line_def sym_line_ok_def unlines_def BUFSIZ_def)
      (simp add: und_cmd_def text_cmd_def)
  have o3: "objdump_ok example_commands (text_cmd ''/ld.so'') ''.text'' (?s ''/ld.so'')"
    by (simp add: objdump_ok_def example_commands_def short_output_def sym_line_def sym_line_ok_def unlines_def BUFSIZ_def)
      (simp add: und_cmd_def text_cmd_def)
  have l: "example_commands (''ldd '' @ ''a'') = Some (unlines (map ldd_line ?e))"
    by (simp add: example_commands_def und_cmd_def)
  have p: "[''/libc'', ''/ld.so''] = List.map_filter ldd_path ?e" by (simp add: List.map_filter_simps)
  have s: "short_output (map ldd_line ?e)" "\<forall>e \<in> set ?e. ldd_line_ok e"
    by (simp_all add: short_output_def unlines_def BUFSIZ_def)
  have "\<forall>l \<in> set [''/libc'', ''/ld.so'']. objdump_ok example_commands (text_cmd l) ''.text'' (?s l)" using o2 o3 by simp
  from getImports_exact [OF o1 _ _ l s p this]
  show ?thesis by (simp add: sym_name_def skip_spaces_def)
qed

end
