(* ===== verification/Prototype.thy ===== *)
theory Prototype
  imports Redirector Global_Stats
begin

text \<open>
  The first prototype of the profiler, \<^verbatim>\<open>src/wrappers\<close> and \<^verbatim>\<open>src/timers\<close>, for x86: its redirectors load the
  address of the function behind its prologue into \<^verbatim>\<open>%eax\<close> and jump through a variable with the address of
  the wrapper; contexts of active calls come from a fixed array; durations can also be taken from the
  monotonic clock. Definitions that have the name of one of \<^verbatim>\<open>libelfperf.c\<close> carry the suffix \<open>_p\<close>.
\<close>

section \<open>Redirectors\<close>

text \<open>The static variables of \<^verbatim>\<open>wrapper_redirector.c\<close>. The variable \<^verbatim>\<open>s_wrapperAddress\<close> is read by the
  machine code, so it is four bytes of memory, at the address \<open>cell\<close>.\<close>

record proto =
  s_redirectors :: u64
  s_names :: "string list"
  s_count :: u32

definition writeRedirectionCode_p :: "u64 \<Rightarrow> memory \<Rightarrow> u64 \<Rightarrow> u64 \<Rightarrow> memory" where
  "writeRedirectionCode_p cell m redirector fcnPtr =
     (let functionPointer = (ucast fcnPtr :: u32) + 3;
          m = store m redirector [0xb8];
          m = store m (redirector + 1) (le_bytes 4 functionPointer);
          m = store m (redirector + 5) [0xbb];
          m = store m (redirector + 6) (le_bytes 4 (ucast cell :: u32));
          m = store m (redirector + 10) [0xff];
          m = store m (redirector + 11) [0x23];
          m = store m (redirector + 12) [0x90];
          m = store m (redirector + 13) [0x90];
          m = store m (redirector + 14) [0x90]
      in store m (redirector + 15) [0x90])"

text \<open>A name that is not found has index zero.\<close>

definition getFunctionIndex_p :: "string \<Rightarrow> proto \<Rightarrow> u32" where
  "getFunctionIndex_p name st =
     (case index_loop name (take (unat (s_count st)) (s_names st)) 0 of Some i \<Rightarrow> i | None \<Rightarrow> 0)"

definition getRedirectorAddressForName_p :: "string \<Rightarrow> proto \<Rightarrow> u64" where
  "getRedirectorAddressForName_p name st =
     to_ptr ARCH_32 (s_redirectors st + ucast (4 * getFunctionIndex_p name st * 4))"

definition addNewFunction_p :: "u64 \<Rightarrow> memory \<Rightarrow> string \<Rightarrow> u64 \<Rightarrow> proto \<Rightarrow> memory" where
  "addNewFunction_p cell m name functionAddr st =
     writeRedirectionCode_p cell m (getRedirectorAddressForName_p name st) functionAddr"

text \<open>\<open>area\<close> is what \<^verbatim>\<open>malloc\<close> returns for the slots, \<open>mprotect\<close> the return code for a page and \<open>errno\<close>
  its error; the copies of the names can be allocated. Reading more names than there are is a fault.\<close>

definition alloc_size_p :: "u32 \<Rightarrow> u32" where
  "alloc_size_p cnt = 4 * 4 * cnt + 4096 - 1"

definition pages_p :: "u64 \<Rightarrow> u32 \<Rightarrow> u64 list" where
  "pages_p r cnt = map (\<lambda>i. to_ptr ARCH_32 (r + 4096 * of_nat i)) [0..<unat (alloc_size_p cnt div 4096 + 1)]"

definition initWrapperRedirectors_p ::
  "u64 \<Rightarrow> u64 \<Rightarrow> (u64 \<Rightarrow> int) \<Rightarrow> int \<Rightarrow> string list \<Rightarrow> u32 \<Rightarrow> u64 \<Rightarrow> vm \<Rightarrow> (proto \<times> vm) result" where
  "initWrapperRedirectors_p cell area mprotect errno nms cnt wrapperAddr v0 =
     (let v = v0\<lparr>vm_mem := store (vm_mem v0) cell (le_bytes 4 (ucast wrapperAddr :: u32))\<rparr>;
          r = align_up ARCH_32 4096 area
      in case mprotect_loop mprotect (pages_p r cnt) v of
           (False, v) \<Rightarrow> Inl (Exit errno)
         | (True, v) \<Rightarrow>
             if length nms < unat cnt then Inl OutOfBounds
             else Inr (\<lparr>s_redirectors = r, s_names = take (unat cnt) nms, s_count = cnt\<rparr>, v))"

section \<open>Executing a slot\<close>

text \<open>\<open>b8\<close> and \<open>bb\<close> load an immediate into \<^verbatim>\<open>%eax\<close> and \<^verbatim>\<open>%ebx\<close>, \<open>ff 23\<close> jumps to the address that
  \<^verbatim>\<open>%ebx\<close> points to, \<open>90\<close> does nothing.\<close>

record pcpu =
  p_ip :: u64
  p_ax :: u32
  p_bx :: u32

definition pstep :: "memory \<Rightarrow> pcpu \<Rightarrow> pcpu option" where
  "pstep m c =
     (let op = m (p_ip c); imm = word_of_nat (of_le (load m (p_ip c + 1) 4)) :: u32
      in if op = 0xb8 then Some (c\<lparr>p_ip := to_ptr ARCH_32 (p_ip c + 5), p_ax := imm\<rparr>)
         else if op = 0xbb then Some (c\<lparr>p_ip := to_ptr ARCH_32 (p_ip c + 5), p_bx := imm\<rparr>)
         else if op = 0xff \<and> m (p_ip c + 1) = 0x23
         then Some (c\<lparr>p_ip := ucast (word_of_nat (of_le (load m (ucast (p_bx c)) 4)) :: u32)\<rparr>)
         else if op = 0x90 then Some (c\<lparr>p_ip := to_ptr ARCH_32 (p_ip c + 1)\<rparr>)
         else None)"

fun prun :: "memory \<Rightarrow> nat \<Rightarrow> pcpu \<Rightarrow> pcpu option" where
  "prun m 0 c = Some c"
| "prun m (Suc n) c = (case pstep m c of None \<Rightarrow> None | Some c' \<Rightarrow> prun m n c')"

definition proto_code :: "u64 \<Rightarrow> u64 \<Rightarrow> byte list" where
  "proto_code cell f = [0xb8] @ le_bytes 4 ((ucast f :: u32) + 3) @ [0xbb] @ le_bytes 4 (ucast cell :: u32)
     @ [0xff, 0x23, 0x90, 0x90, 0x90, 0x90]"

lemma length_proto_code [simp]: "length (proto_code cell f) = 16"
  by (simp add: proto_code_def)

lemma writeRedirectionCode_p_eq: "writeRedirectionCode_p cell m r f = store m r (proto_code cell f)"
  by (simp add: writeRedirectionCode_p_def proto_code_def Let_def store_seq)

lemma run_proto:
  assumes "load m a 16 = proto_code cell f" "unat a + 16 \<le> 2 ^ 32" "unat cell < 2 ^ 32" "unat wr < 2 ^ 32"
    and "load m cell 4 = le_bytes 4 (ucast wr :: u32)"
  shows "prun m 3 \<lparr>p_ip = a, p_ax = x, p_bx = y\<rparr> = Some \<lparr>p_ip = wr, p_ax = ucast f + 3, p_bx = ucast cell\<rparr>"
proof -
  have b: "m a = 0xb8" "m (a + 5) = 0xbb" "m (a + 10) = 0xff" "m (a + 11) = 0x23"
    using load_nth [OF assms(1), of 0] load_nth [OF assms(1), of 5] load_nth [OF assms(1), of 10] load_nth [OF assms(1), of 11]
    by (simp_all add: proto_code_def nth_append)
  have i: "load m (a + 1) 4 = le_bytes 4 ((ucast f :: u32) + 3)" "load m (a + 6) 4 = le_bytes 4 (ucast cell :: u32)"
    using load_sub [OF assms(1), of 1 4] load_sub [OF assms(1), of 6 4] by (simp_all add: proto_code_def)
  have p: "to_ptr ARCH_32 (a + 5) = a + 5" "to_ptr ARCH_32 (a + 10) = a + 10"
      "(ucast (ucast wr :: u32) :: u64) = wr" "(ucast (ucast cell :: u32) :: u64) = cell"
    using to_ptr_offset [of a 5 ARCH_32] to_ptr_offset [of a 10 ARCH_32] to_ptr_id [of wr ARCH_32]
      to_ptr_id [of cell ARCH_32] assms(2-4)
    by simp_all
  have n: "3 = Suc (Suc (Suc 0))" by simp
  show ?thesis unfolding n
    by (simp add: pstep_def Let_def b i p le_bytes_u32 add.assoc assms(5) del: to_ptr.simps)
qed

section \<open>The table\<close>

definition proto_ok :: "proto \<Rightarrow> bool" where
  "proto_ok st \<longleftrightarrow> length (s_names st) = unat (s_count st) \<and> unat (s_redirectors st) + 16 * length (s_names st) \<le> 2 ^ 32"

definition slot_p :: "string \<Rightarrow> proto \<Rightarrow> nat" where
  "slot_p name st = (case first_index (\<lambda>n. n = name) (s_names st) of Some i \<Rightarrow> i | None \<Rightarrow> 0)"

lemma slot_p_listed: "name \<in> set (s_names st) \<Longrightarrow> slot_p name st < length (s_names st)"
  using first_index_None_iff [of "\<lambda>n. n = name" "s_names st"]
  by (auto simp: slot_p_def first_index_Some_iff split: option.splits)

lemma slot_p_inj:
  assumes "n \<in> set (s_names st)" "n' \<in> set (s_names st)" "slot_p n st = slot_p n' st"
  shows "n = n'"
  using assms first_index_None_iff [of "\<lambda>x. x = n" "s_names st"] first_index_None_iff [of "\<lambda>x. x = n'" "s_names st"]
  by (auto simp: slot_p_def first_index_Some_iff split: option.splits)

lemma slot_addr_p:
  assumes "proto_ok st" "slot_p name st < length (s_names st)"
  shows "getRedirectorAddressForName_p name st = s_redirectors st + of_nat (16 * slot_p name st)"
proof -
  have l: "16 * slot_p name st < 2 ^ 32" "unat (s_redirectors st) + 16 * slot_p name st < 2 ^ 32"
    using assms by (auto simp: proto_ok_def)
  have "getFunctionIndex_p name st = of_nat (slot_p name st)"
    using assms(1) by (auto simp: getFunctionIndex_p_def slot_p_def index_loop_first proto_ok_def split: option.splits)
  then have "4 * getFunctionIndex_p name st * 4 = of_nat (16 * slot_p name st)" by simp
  moreover have "unat (of_nat (16 * slot_p name st) :: u32) = 16 * slot_p name st"
    using l(1) by (simp add: unat_of_nat del: of_nat_mult)
  ultimately have "ucast (4 * getFunctionIndex_p name st * 4) = (of_nat (16 * slot_p name st) :: u64)"
    by (metis of_nat_unat)
  then show ?thesis
    using to_ptr_offset [of "s_redirectors st" "16 * slot_p name st" ARCH_32] l(2)
    by (simp add: getRedirectorAddressForName_p_def del: to_ptr.simps of_nat_mult)
qed

interpretation pt: code_table getRedirectorAddressForName_p "addNewFunction_p cell" "\<lambda>_. proto_code cell" 16
  "\<lambda>n st. n \<in> set (s_names st)" proto_ok
  for cell
proof (unfold_locales, goal_cases)
  case (2 c n m f)
  then show ?case
    unfolding addNewFunction_p_def writeRedirectionCode_p_eq by (intro load_store_same) simp
next
  case (3 c n n' m f)
  note l = slot_p_listed [OF 3(2)] slot_p_listed [OF 3(3)]
  have "disjoint_ranges (getRedirectorAddressForName_p n c) 16 (getRedirectorAddressForName_p n' c) 16"
    unfolding slot_addr_p [OF 3(1) l(1)] slot_addr_p [OF 3(1) l(2)]
    using 3 slot_p_inj [OF 3(2,3)] l by (intro slot_disjoint) (auto simp: proto_ok_def)
  then show ?case
    unfolding addNewFunction_p_def writeRedirectionCode_p_eq by (intro load_store_disjoint) simp_all
qed simp

section \<open>Initialisation\<close>

lemma mprotect_loop_mem: "mprotect_loop mprotect ps v = (b, v') \<Longrightarrow> vm_mem v' = vm_mem v"
  by (induction ps arbitrary: v) (auto split: if_splits)

lemma mprotect_loop_fst: "fst (mprotect_loop mprotect ps v) \<longleftrightarrow> (\<forall>p \<in> set ps. mprotect p = 0)"
  by (induction ps arbitrary: v) auto

lemma init_p_Inr:
  assumes "initWrapperRedirectors_p cell area mprotect errno nms cnt wr v = Inr (st, v')"
  shows "s_redirectors st = align_up ARCH_32 4096 area" "s_names st = take (unat cnt) nms" "s_count st = cnt"
    "length (s_names st) = unat cnt" "vm_mem v' = store (vm_mem v) cell (le_bytes 4 (ucast wr :: u32))"
  using assms by (auto simp: initWrapperRedirectors_p_def Let_def not_less split: prod.splits bool.splits if_splits
      dest!: mprotect_loop_mem)

lemma table_in_block:
  assumes "unat area + 16 * unat cnt + 4095 < 2 ^ 32"
  shows "unat area \<le> unat (align_up ARCH_32 4096 area)" "unat (align_up ARCH_32 4096 area) \<le> unat area + 4095"
    "unat (alloc_size_p cnt) = 16 * unat cnt + 4095"
proof -
  have r: "unat (align_up ARCH_32 4096 area) = (unat area + 4095) div 4096 * 4096"
    using align_up_eq(2) [of area ARCH_32] assms by simp
  show "unat area \<le> unat (align_up ARCH_32 4096 area)" "unat (align_up ARCH_32 4096 area) \<le> unat area + 4095"
    unfolding r using mod_div_mult_eq [of "unat area + 4095" 4096] mod_less_divisor [of 4096 "unat area + 4095"] by linarith+
  have "unat (16 * cnt) = 16 * unat cnt"
    using unat_mult_lem [of 16 cnt] assms by simp
  then have "unat (16 * cnt + 4095) = 16 * unat cnt + 4095"
    using assms unat_plus_if' [of "16 * cnt" 4095] by simp
  moreover have "alloc_size_p cnt = 16 * cnt + 4095" by (simp add: alloc_size_p_def)
  ultimately show "unat (alloc_size_p cnt) = 16 * unat cnt + 4095" by (simp only:)
qed

lemma cell_slot_disjoint:
  assumes "unat cell + 4 \<le> unat a \<or> unat a + 16 \<le> unat cell" "unat cell < 2 ^ 32" "unat a < 2 ^ 32"
  shows "disjoint_ranges a 16 cell 4"
  using assms by (auto simp: disjoint_ranges_def unat_sub_if_size word_size)

lemma fold_add_cell:
  assumes "proto_ok st" "unat cell < 2 ^ 32" "\<forall>(n, f) \<in> set ps. n \<in> set (s_names st)"
    and "unat cell + 4 \<le> unat (s_redirectors st) \<or> unat (s_redirectors st) + 16 * length (s_names st) \<le> unat cell"
  shows "load (fold (\<lambda>(n, f) m. addNewFunction_p cell m n f st) ps m) cell 4 = load m cell 4"
  using assms(3)
proof (induction ps arbitrary: m)
  case (Cons p ps)
  obtain n f where p: "p = (n, f)" by (cases p)
  let ?s = "slot_p n st"
  have s: "?s < length (s_names st)" using Cons.prems p by (auto intro: slot_p_listed)
  have a: "unat (getRedirectorAddressForName_p n st) = unat (s_redirectors st) + 16 * ?s"
    unfolding slot_addr_p [OF assms(1) s] using unat_offset [of "s_redirectors st" "16 * ?s"] s assms(1)
    by (simp add: proto_ok_def del: of_nat_mult)
  have "disjoint_ranges (getRedirectorAddressForName_p n st) 16 cell 4"
    using assms(1,4) s by (intro cell_slot_disjoint [OF _ assms(2)]) (auto simp: a proto_ok_def)
  then have "load (addNewFunction_p cell m n f st) cell 4 = load m cell 4"
    unfolding addNewFunction_p_def writeRedirectionCode_p_eq by (intro load_store_disjoint) simp_all
  then show ?case using Cons p by simp
qed simp

text \<open>A name that is not listed gets the slot of the first name.\<close>

lemma unlisted_overwrites_first:
  assumes "proto_ok st" "s_names st = g # gs" "name \<notin> set (s_names st)"
  shows "load (addNewFunction_p cell m name f st) (getRedirectorAddressForName_p g st) 16 = proto_code cell f"
proof -
  have "first_index (\<lambda>n. n = name) (s_names st) = None" using assms(3) by (auto simp: first_index_None_iff)
  then have "slot_p name st = 0" "slot_p g st = 0" by (simp_all add: slot_p_def assms(2))
  then have "getRedirectorAddressForName_p name st = getRedirectorAddressForName_p g st"
    using assms(1,2) by (simp add: slot_addr_p)
  then show ?thesis
    using load_store_same [of "proto_code cell f" m "getRedirectorAddressForName_p g st"]
    by (simp add: addNewFunction_p_def writeRedirectionCode_p_eq)
qed

section \<open>Contexts and measurement\<close>

text \<open>A context is given by its index in the array. The wrapper stores the address that the redirector
  passes, three bytes into the function, in the new context.\<close>

definition CONTEXT_PREALLOCATED_NUMBER :: nat where
  "CONTEXT_PREALLOCATED_NUMBER = 100000"

definition FCN_PTR_OFFSET :: u32 where
  "FCN_PTR_OFFSET = 3"

record WrappingContext_p =
  realReturnAddr_p :: u32
  oldEbpLocVar :: u32
  eax :: u32
  doubleResult :: u64
  functionPointer :: u32
  startTime_p :: u64
  endTime_p :: u64

record cdecl_state =
  contextArray :: "WrappingContext_p list"
  freeContextNumber :: nat
  cd_stats :: stats_state

definition getNewContext :: "cdecl_state \<Rightarrow> (nat \<times> cdecl_state) result" where
  "getNewContext st =
     (if freeContextNumber st < CONTEXT_PREALLOCATED_NUMBER
      then Inr (freeContextNumber st, st\<lparr>freeContextNumber := freeContextNumber st + 1\<rparr>)
      else Inl (Exit 1))"

text \<open>\<open>t\<close> is the time stamp that \<^verbatim>\<open>getRdtscTicks\<close> returns; \<^verbatim>\<open>updateStat\<close> has the same text as in
  \<^verbatim>\<open>libelfperf\<close>.\<close>

definition record_start_time_p :: "u64 \<Rightarrow> nat \<Rightarrow> cdecl_state \<Rightarrow> cdecl_state result" where
  "record_start_time_p t cont st =
     (if cont < length (contextArray st)
      then Inr (st\<lparr>contextArray := (contextArray st)[cont := (contextArray st ! cont)\<lparr>startTime_p := t\<rparr>]\<rparr>)
      else Inl SegFault)"

definition record_end_time_p ::
  "environ \<Rightarrow> stats_os \<Rightarrow> u64 \<Rightarrow> nat \<Rightarrow> cdecl_state \<Rightarrow> cdecl_state result" where
  "record_end_time_p env os t cont st =
     (if cont < length (contextArray st)
      then let c = (contextArray st ! cont)\<lparr>endTime_p := t\<rparr>;
               duration = endTime_p c - startTime_p c
           in bind_result (updateStat ARCH_32 env os (ucast (functionPointer c - FCN_PTR_OFFSET)) duration (cd_stats st))
                (\<lambda>s. Inr (st\<lparr>contextArray := (contextArray st)[cont := c], cd_stats := s\<rparr>))
      else Inl SegFault)"

text \<open>A measured call of the function at \<open>f\<close> that starts at \<open>t0\<close> and ends at \<open>t1\<close>: what the wrapper does
  with the context of the call.\<close>

definition measured_call :: "environ \<Rightarrow> stats_os \<Rightarrow> u64 \<times> u64 \<times> u64 \<Rightarrow> cdecl_state \<Rightarrow> cdecl_state result" where
  "measured_call env os e st =
     (case e of (f, t0, t1) \<Rightarrow>
        bind_result (getNewContext st) (\<lambda>(c, st).
        bind_result (record_start_time_p t0 c
            (st\<lparr>contextArray := (contextArray st)[c := (contextArray st ! c)\<lparr>functionPointer := ucast f + 3\<rparr>]\<rparr>))
          (record_end_time_p env os t1 c)))"

fun measured_calls :: "environ \<Rightarrow> stats_os \<Rightarrow> (u64 \<times> u64 \<times> u64) list \<Rightarrow> cdecl_state \<Rightarrow> cdecl_state result" where
  "measured_calls env os [] st = Inr st"
| "measured_calls env os (e # es) st = bind_result (measured_call env os e st) (measured_calls env os es)"

definition fresh_cdecl :: "stats_state \<Rightarrow> cdecl_state" where
  "fresh_cdecl s = \<lparr>contextArray = replicate CONTEXT_PREALLOCATED_NUMBER
      \<lparr>realReturnAddr_p = 0, oldEbpLocVar = 0, eax = 0, doubleResult = 0, functionPointer = 0, startTime_p = 0, endTime_p = 0\<rparr>,
     freeContextNumber = 0, cd_stats = s\<rparr>"

lemma measured_call_stat:
  assumes "freeContextNumber st < CONTEXT_PREALLOCATED_NUMBER" "length (contextArray st) = CONTEXT_PREALLOCATED_NUMBER"
    and "unat f < 2 ^ 32" "updateStat ARCH_32 env os f (t1 - t0) (cd_stats st) = Inr s"
  shows "\<exists>st'. measured_call env os (f, t0, t1) st = Inr st' \<and> cd_stats st' = s
    \<and> freeContextNumber st' = freeContextNumber st + 1 \<and> length (contextArray st') = CONTEXT_PREALLOCATED_NUMBER"
proof -
  have "(ucast (ucast f + 3 - FCN_PTR_OFFSET :: u32) :: u64) = f"
    using to_ptr_id [of f ARCH_32] assms(3) by (simp add: FCN_PTR_OFFSET_def)
  then show ?thesis
    using assms(1,2,4)
    by (simp add: measured_call_def getNewContext_def record_start_time_p_def record_end_time_p_def Let_def)
qed

lemma measured_calls_upds:
  assumes "freeContextNumber st + length es \<le> CONTEXT_PREALLOCATED_NUMBER"
    and "length (contextArray st) = CONTEXT_PREALLOCATED_NUMBER" "\<forall>(f, t0, t1) \<in> set es. unat f < 2 ^ 32"
    and "upds (updateStat ARCH_32 env os) (map (\<lambda>(f, t0, t1). (f, t1 - t0)) es) (cd_stats st) = Inr s"
  shows "\<exists>st'. measured_calls env os es st = Inr st' \<and> cd_stats st' = s
    \<and> freeContextNumber st' = freeContextNumber st + length es"
  using assms
proof (induction es arbitrary: st)
  case (Cons e es)
  obtain f t0 t1 where e: "e = (f, t0, t1)" by (cases e)
  obtain s1 where s1: "updateStat ARCH_32 env os f (t1 - t0) (cd_stats st) = Inr s1"
    using Cons.prems(4) by (auto simp: e bind_result_Inr_iff)
  obtain st1 where st1: "measured_call env os e st = Inr st1" "cd_stats st1 = s1"
      "freeContextNumber st1 = freeContextNumber st + 1" "length (contextArray st1) = CONTEXT_PREALLOCATED_NUMBER"
    using measured_call_stat [OF _ Cons.prems(2) _ s1] Cons.prems(1,3) by (auto simp: e)
  show ?case
    using Cons.IH [of st1] Cons.prems st1 s1 by (auto simp: e)
qed simp

section \<open>Durations of the monotonic clock\<close>

text \<open>\<^verbatim>\<open>diff\<close> of \<^verbatim>\<open>hpet_cntrs.c\<close>. The fields are far from the limits of \<^verbatim>\<open>long\<close>: the nanoseconds of a time
  are below one billion, and the clock starts at zero.\<close>

record timespec =
  tv_sec :: int
  tv_nsec :: int

definition diff :: "timespec \<Rightarrow> timespec \<Rightarrow> timespec" where
  "diff start stop =
     (if tv_nsec stop - tv_nsec start < 0
      then \<lparr>tv_sec = tv_sec stop - tv_sec start - 1, tv_nsec = 1000000000 + tv_nsec stop - tv_nsec start\<rparr>
      else \<lparr>tv_sec = tv_sec stop - tv_sec start, tv_nsec = tv_nsec stop - tv_nsec start\<rparr>)"

definition nanoseconds :: "timespec \<Rightarrow> int" where
  "nanoseconds t = 1000000000 * tv_sec t + tv_nsec t"

lemma diff_exact:
  assumes "0 \<le> tv_nsec start" "tv_nsec start < 1000000000" "0 \<le> tv_nsec stop" "tv_nsec stop < 1000000000"
  shows "nanoseconds (diff start stop) = nanoseconds stop - nanoseconds start"
    and "0 \<le> tv_nsec (diff start stop)" "tv_nsec (diff start stop) < 1000000000"
  using assms by (simp_all add: nanoseconds_def diff_def)

section \<open>Properties\<close>

text \<open>C40. The redirectors of the prototype: after an initialisation that returns and any sequence of
  registrations of different listed functions, executing the slot of one of them arrives at the wrapper
  after three instructions, with the address three bytes into that function in \<^verbatim>\<open>%eax\<close>.\<close>

theorem prototype_redirectors_run:
  assumes "initWrapperRedirectors_p cell area mprotect errno nms cnt wr v = Inr (st, v')"
    and "unat area + 16 * unat cnt + 4095 < 2 ^ 32" "unat cell < 2 ^ 32" "unat wr < 2 ^ 32"
    and "unat cell + 4 \<le> unat area \<or> unat area + 16 * unat cnt + 4095 \<le> unat cell"
    and "\<forall>(n, f) \<in> set ps. n \<in> set (take (unat cnt) nms)" "distinct (map fst ps)" "(n, f) \<in> set ps"
  shows "prun (fold (\<lambda>(n, f) m. addNewFunction_p cell m n f st) ps (vm_mem v')) 3
      \<lparr>p_ip = getRedirectorAddressForName_p n st, p_ax = x, p_bx = y\<rparr> =
    Some \<lparr>p_ip = wr, p_ax = ucast f + 3, p_bx = ucast cell\<rparr>"
proof -
  note st = init_p_Inr [OF assms(1)] and blk = table_in_block [OF assms(2)]
  have ok: "proto_ok st" using st blk assms(2) by (simp add: proto_ok_def)
  have listed: "\<forall>(n, f) \<in> set ps. n \<in> set (s_names st)" "n \<in> set (s_names st)"
    using assms(6,8) by (auto simp: st(2))
  have s: "slot_p n st < length (s_names st)" by (rule slot_p_listed) (rule listed(2))
  let ?m = "fold (\<lambda>(n, f) m. addNewFunction_p cell m n f st) ps (vm_mem v')"
  have "load ?m cell 4 = le_bytes 4 (ucast wr :: u32)"
    using fold_add_cell [OF ok assms(3) listed(1), of "vm_mem v'"] assms(5) blk st(1,4,5)
      load_store_same [of "le_bytes 4 (ucast wr :: u32)" "vm_mem v" cell] by force
  moreover have "unat (getRedirectorAddressForName_p n st) + 16 \<le> 2 ^ 32"
    unfolding slot_addr_p [OF ok s] using unat_offset [of "s_redirectors st" "16 * slot_p n st"] s ok
    by (simp add: proto_ok_def del: of_nat_mult)
  moreover have "load ?m (getRedirectorAddressForName_p n st) 16 = proto_code cell f"
    using pt.fold_add_code [OF ok listed(1) assms(7,8), of cell] by simp
  ultimately show ?thesis using assms(3,4) by (intro run_proto)
qed

theorem prototype_redirectors_run_witness:
  "\<exists>st v'. initWrapperRedirectors_p 0x8000 0x10008 (\<lambda>_. 0) 12 [''f'', ''g''] 2 0x4000 \<lparr>vm_mem = \<lambda>_. 0, rwx = []\<rparr> = Inr (st, v')
    \<and> prun (fold (\<lambda>(n, f) m. addNewFunction_p 0x8000 m n f st) [(''g'', 0x500), (''f'', 0x600)] (vm_mem v')) 3
        \<lparr>p_ip = getRedirectorAddressForName_p ''f'' st, p_ax = 0, p_bx = 0\<rparr> = Some \<lparr>p_ip = 0x4000, p_ax = 0x603, p_bx = 0x8000\<rparr>"
proof -
  let ?ps = "[(''g'', 0x500), (''f'', 0x600)] :: (string \<times> u64) list"
  obtain st v' where i: "initWrapperRedirectors_p 0x8000 0x10008 (\<lambda>_. 0) 12 [''f'', ''g''] 2 0x4000 \<lparr>vm_mem = \<lambda>_. 0, rwx = []\<rparr> = Inr (st, v')"
    by (simp add: initWrapperRedirectors_p_def Let_def mprotect_loop_ok)
  show ?thesis
    using prototype_redirectors_run [OF i, of ?ps "''f''" "0x600" 0 0] i by simp
qed

text \<open>The pages that the prototype makes executable: the aligned table lies in the allocated block and in
  the pages, but the last page always ends behind the block; so a kernel that refuses pages which are not
  in the block makes the initialisation exit with the error.\<close>

lemma prototype_pages:
  assumes "unat area + 16 * unat cnt + 4095 < 2 ^ 32" "r = align_up ARCH_32 4096 area"
    and "unat r + 4096 * length (pages_p r cnt) < 2 ^ 32"
    and "\<forall>p. unat area + unat (alloc_size_p cnt) < unat p + 4096 \<longrightarrow> mprotect p \<noteq> 0"
  shows "unat area \<le> unat r \<and> unat r + 16 * unat cnt \<le> unat area + unat (alloc_size_p cnt)
    \<and> 16 * unat cnt \<le> 4096 * length (pages_p r cnt)
    \<and> unat area + unat (alloc_size_p cnt) < unat (last (pages_p r cnt)) + 4096
    \<and> initWrapperRedirectors_p cell area mprotect errno nms cnt wr v = Inl (Exit errno)"
proof -
  note blk = table_in_block [OF assms(1), folded assms(2)]
  have "unat (alloc_size_p cnt div 4096) = (16 * unat cnt + 4095) div 4096"
    using blk(3) by (simp add: unat_div)
  then have n: "length (pages_p r cnt) = Suc ((16 * unat cnt + 4095) div 4096)"
    using assms(1) unat_plus_if' [of "alloc_size_p cnt div 4096" 1] by (simp add: pages_p_def)
  let ?k = "(16 * unat cnt + 4095) div 4096"
  have k: "16 * unat cnt + 4095 < 4096 * ?k + 4096" by linarith
  have "last (pages_p r cnt) = to_ptr ARCH_32 (r + of_nat (4096 * ?k))"
    using n by (simp add: pages_p_def last_map del: to_ptr.simps)
  moreover have "unat r + 4096 * ?k < 2 ^ 32" using assms(3) n by simp
  ultimately have l: "unat (last (pages_p r cnt)) = unat r + 4096 * ?k"
    using to_ptr_offset [of r "4096 * ?k" ARCH_32] unat_offset [of r "4096 * ?k"]
    by (simp del: to_ptr.simps of_nat_mult)
  then have e: "unat area + unat (alloc_size_p cnt) < unat (last (pages_p r cnt)) + 4096"
    using k blk by linarith
  then have "\<not> fst (mprotect_loop mprotect (pages_p r cnt) (v\<lparr>vm_mem := store (vm_mem v) cell (le_bytes 4 (ucast wr :: u32))\<rparr>))"
    unfolding mprotect_loop_fst using assms(4) n by (metis last_in_set list.size(3) nat.distinct(1))
  then have "initWrapperRedirectors_p cell area mprotect errno nms cnt wr v = Inl (Exit errno)"
    by (auto simp: initWrapperRedirectors_p_def Let_def assms(2) split: prod.split bool.split)
  then show ?thesis using e blk n k by linarith
qed

text \<open>The measurement of the prototype: up to 100000 measured calls of at most as many functions as are
  configured are recorded under the addresses of the functions with their durations. Contexts are never
  given back, so the next call ends the program with status 1.\<close>

lemma prototype_measures:
  assumes "stats_os_ok os" "getenv ARCH_32 env ELFPERF_PROFILE_FUNCTION_ENV_VARIABLE = Some v" "c_string v" "v \<noteq> []"
    and "card (fst ` set es) \<le> length (fn_words v)" "length es \<le> 100000" "\<forall>(f, t0, t1) \<in> set es. unat f < 2 ^ 32"
  shows "\<exists>st. measured_calls env os es (fresh_cdecl (fresh_stats sh)) = Inr st
    \<and> printFunctionStatistics (cd_stats st) =
        Inr (map (\<lambda>(a, n, t). (a, t, n)) (stat_rows (map (\<lambda>(f, t0, t1). (f, t1 - t0)) es)))
    \<and> (length es = 100000 \<longrightarrow> measured_call env os e st = Inl (Exit 1))"
proof -
  let ?es = "map (\<lambda>(f, t0, t1). (f, t1 - t0)) es"
  have fst: "fst ` set ?es = fst ` set es" by force
  have "card (fst ` set es) \<le> 100000"
    using card_image_le [of "set es" fst] card_length [of es] assms(6) by simp
  then have "card (fst ` set ?es) \<le> store_room ARCH_32 env os (fresh_stats sh)"
    using assms(5) fresh_room(2) [OF assms(1-4), of sh] unfolding fst by (simp add: store_room_def STATS_LIMIT_def)
  then obtain s where s: "upds (updateStat ARCH_32 env os) ?es (fresh_stats sh) = Inr s"
      "store_inv ARCH_32 env os s" "table_of s = stat_rows ?es"
    using gs.upds_rows [OF fresh_room(1) [OF assms(1-4)] fresh_stats_ok(2)] by blast
  obtain st where st: "measured_calls env os es (fresh_cdecl (fresh_stats sh)) = Inr st" "cd_stats st = s"
      "freeContextNumber st = length es"
    using measured_calls_upds [OF _ _ assms(7), of "fresh_cdecl (fresh_stats sh)" env os s] s(1) assms(6)
    by (auto simp: fresh_cdecl_def CONTEXT_PREALLOCATED_NUMBER_def)
  have "length es = 100000 \<Longrightarrow> measured_call env os e st = Inl (Exit 1)"
    using st(3) by (simp add: measured_call_def getNewContext_def CONTEXT_PREALLOCATED_NUMBER_def split: prod.split)
  then show ?thesis
    using st s print_rows [of s] by (auto simp: store_inv_def)
qed

end
