(* ===== verification/Spec2Isabelle.thy ===== *)
theory Spec2Isabelle
  imports Profiled_Call Spinlock Dl_Search Elf_Hook Results Dl_Fini Importer Prototype
begin

text \<open>
  ELFPERF, a profiler of calls to shared libraries, and the parts of the eglibc-2.11.3 loader that it
  changes or relies on.

  \<^bold>\<open>How the program works.\<close> The user names functions in \<^verbatim>\<open>ELFPERF_PROFILE_FUNCTION\<close> and sets
  \<^verbatim>\<open>ELFPERF_ENABLE\<close>. When the loader resolves the first call of a listed function
  (\<^verbatim>\<open>_dl_fixup\<close> of \<^verbatim>\<open>elf/dl-runtime.c\<close>), it finds the routines of \<^verbatim>\<open>libelfperf.so\<close>, lets them create a table of
  redirectors, writes the redirector of the function and stores its address in the GOT instead of the
  function's. A call then runs the redirector, which passes the function's address to the wrapper; the
  wrapper calls \<^verbatim>\<open>preProfile\<close>, enters the function with a changed return address, and on return calls
  \<^verbatim>\<open>postProfile\<close>, which updates the statistics, and goes back to the caller. At the end of the program
  \<^verbatim>\<open>_dl_fini\<close> runs the destructors and \<^verbatim>\<open>printElfperfResults\<close> writes the report from the statistics that it
  finds in shared memory.

  \<^bold>\<open>Theories and sources\<close> (paths below \<^verbatim>\<open>src/\<close>):

  \<^item> \<open>Elfperf_Prelude\<close>: word types, byte memory, little-endian numbers, the C string functions, and the
    type \<open>'a result\<close> with the faults \<open>SegFault\<close>, \<open>OutOfBounds\<close>, \<open>Exit\<close>, \<open>AssertFailed\<close>, \<open>Diverges\<close>.
  \<^item> \<open>Fn_List\<close> (\<^verbatim>\<open>src/libelfperf/ld-routines.h\<close>, \<^verbatim>\<open>src/fn_getters/fngetter.c\<close>): the environment and the parser of
    the function list; the parser is the reference split at colons, joining is inverse to it, the
    stand-alone copy computes the same, and what the two builds of \<^verbatim>\<open>getenv\<close> do.
  \<^item> \<open>Shared_Storage\<close> (\<^verbatim>\<open>ld-routines.h\<close>): the shared segments and the table of function names; the locale
    \<open>function_table\<close> is what its clients rely on.
  \<^item> \<open>Redirector\<close> (\<^verbatim>\<open>libelfperf.c\<close>): the slots, their machine code and its execution, the initialisation;
    locales \<open>code_table\<close> and \<open>redirector_table\<close>.
  \<^item> \<open>X86_Machine\<close>, \<open>Wrappers\<close> (\<^verbatim>\<open>libelfperf.c\<close>): a machine for the instructions of the two wrappers and
    the wrappers as instruction lists.
  \<^item> \<open>Global_Stats\<close>, \<open>Profiler\<close>, \<open>Spinlock\<close> (\<^verbatim>\<open>global_stats.c\<close>, \<^verbatim>\<open>rdtsc_cntrs.c\<close>, \<^verbatim>\<open>libelfperf.c\<close>): the statistics
    refine a table of calls and times (locale \<open>stat_store\<close>); the hooks keep a list of contexts that refines
    the stack of active calls; the lock with interleaved threads as a step relation,
    with mutual exclusion, no lost update and progress.
  \<^item> \<open>Wrapped_Call\<close>: machine code and hooks together; a profiled call is transparent for its caller.
  \<^item> \<open>Dl_Runtime\<close> (\<^verbatim>\<open>eglibc-2.11.3/elf/dl-runtime.c\<close>): resolution with and without redirection.
  \<^item> \<open>Profiled_Call\<close>: the loader, the redirector and the wrapper together; a profiled call from the reference to the
    return.
  \<^item> \<open>Dl_Lookup\<close> (\<^verbatim>\<open>elf/dl-lookup.c\<close>, \<^verbatim>\<open>sysdeps/generic/dl-hash.h\<close>): hash functions, hash tables, versions,
    bindings, unique symbols and scopes.
  \<^item> \<open>Dl_Dependency\<close> (\<^verbatim>\<open>elf/dl-lookup.c\<close>): dependencies added at run time while other threads load and unload
    objects; what they do between any two accesses to shared data is a parameter with a rely condition.
  \<^item> \<open>Dl_Resolve\<close>: the resolver with the loader's own lookup in place of its parameter, and the reading of
    symbol versions. A lookup that reports an error ends the program unless there is a receiver.
  \<^item> \<open>Dl_Audit\<close> (\<^verbatim>\<open>elf/dl-runtime.c\<close>): the resolver of programs run under \<^verbatim>\<open>LD_PROFILE\<close> or \<^verbatim>\<open>LD_AUDIT\<close>, its agreement with
    the plain one, and what it remembers of the auditors' answers.
  \<^item> \<open>Dl_Sym\<close> (\<^verbatim>\<open>dlfcn/dlsym.c\<close>): \<^verbatim>\<open>dlsym\<close> as the other client of the redirectors, which it finds through the
    context that the loader publishes; any sequence of first calls and calls of \<^verbatim>\<open>dlsym\<close> is consistent.
  \<^item> \<open>Dl_Search\<close> (\<^verbatim>\<open>elf/dl-sym.c\<close>): the search behind \<^verbatim>\<open>dlsym\<close>, and \<^verbatim>\<open>dlsym\<close> with it.
  \<^item> \<open>Dl_Misc\<close> (\<^verbatim>\<open>elf/dl-misc.c\<close>, \<^verbatim>\<open>stdio-common/_itoa.h\<close>): the printf of the loader and its helpers; a
    format is what it is made of, directives with their arguments, and its text is defined on these.
  \<^item> \<open>Results\<close>, \<open>Dl_Fini\<close> (\<^verbatim>\<open>elf/dl-fini.c\<close>): the report, and the order of the destructors.
  \<^item> \<open>Elf_Hook\<close> (\<^verbatim>\<open>src/calls-redir/elf_hook.c\<close>): the other way to divert calls, by changing relocations;
    what it has to find is defined on the bytes of the file.
  \<^item> \<open>Importer\<close> (\<^verbatim>\<open>src/importer\<close>): the lister of functions that can be profiled.
  \<^item> \<open>Prototype\<close> (\<^verbatim>\<open>src/wrappers\<close>, \<^verbatim>\<open>src/timers\<close>): the first version of redirectors, contexts and time
    measurement; a second instance of \<open>code_table\<close>.
  \<^item> this theory: the composition of the statistics and the report.

  \<^bold>\<open>State and parameters.\<close> Each component has a record with its static variables and the memory that it
  owns, by address; operations pass it on. The kernel (\<^verbatim>\<open>mmap\<close>, \<^verbatim>\<open>mprotect\<close>, \<^verbatim>\<open>shmget\<close>, \<^verbatim>\<open>shmat\<close>, the time stamp
  counter), the external commands of the importer and the profiled functions are parameters; predicates
  such as \<open>stats_os_ok\<close> state the documented behaviour that a property needs. Both architectures are
  modelled: an \<open>arch\<close> argument selects the build. Machine integers keep their width.

  \<^bold>\<open>Loops and fuel.\<close> Most loops are structural or have a termination proof. Three loops of \<open>Dl_Lookup\<close>
  need not end in the code. The chain of a System V hash table has the length of the chain array plus one as
  fuel, since a walk that visits more entries visits one twice and never ends; the two double-hashing loops
  over the table of unique symbols have the size of the table, since the probe sequence has a period of at
  most that. When the fuel is used up the value is \<open>Diverges\<close>. The theorems on these routines show that they
  return. The lookup is repeated after a failed \<^verbatim>\<open>add_dependency\<close>, with the number of attempts as fuel. The walk
  to the first loader in \<open>Dl_Search\<close> has one step for each object.

  \<^bold>\<open>Not modelled.\<close> \<^verbatim>\<open>src/qelfperf\<close>, \<^verbatim>\<open>src/elfperf\<close> and \<^verbatim>\<open>src/common\<close> are C++ front ends. \<^verbatim>\<open>src/libelfperf/storage.c\<close> is
  generated filler (no-operation instructions). \<^verbatim>\<open>src/libprofiler\<close> holds a copy of \<^verbatim>\<open>elf_hook.c\<close>, and
  \<^verbatim>\<open>src/libelfperf_x64\<close> and \<^verbatim>\<open>src/timers\<close> hold earlier copies of modelled files. The inline assembler of
  \<^verbatim>\<open>src/wrappers/cdecl_wrapper.c\<close> stands between code that the compiler chooses, so its effect is not
  determined by the source. Locks, console messages and debugging output of the loader are left out. The
  rest of eglibc is third-party code that the profiler does not touch.
\<close>

section \<open>The statistics at the end of a run\<close>

text \<open>What the updates leave alone: the other segments, and the unused part of the array, which is null.\<close>

definition report_frame :: "shared_state \<Rightarrow> stats_state \<Rightarrow> bool" where
  "report_frame sh st \<longleftrightarrow>
     (stat_shared st)\<lparr>seg_stat := 0\<rparr> = sh\<lparr>seg_stat := 0\<rparr>
     \<and> (isSharedMemoryInited st \<longrightarrow>
          s_stats st \<noteq> 0 \<and> (\<forall>ps. stat_arrays st (s_stats st) = Some ps \<longrightarrow> set (drop (unat (s_statsCount st)) ps) \<subseteq> {0}))"

lemma report_frame_lock [simp]: "report_frame sh (st\<lparr>updateStatSpinlock := l\<rparr>) = report_frame sh st"
  by (simp add: report_frame_def)

lemma frame_init:
  assumes "report_frame sh st" "\<not> isSharedMemoryInited st" "initSharedMemory A env os st = Inr st'"
    and "os_array os (unat (snd (get_fn_list A env ELFPERF_PROFILE_FUNCTION_ENV_VARIABLE))) = Some (p, m)" "p \<noteq> 0"
  shows "report_frame sh st'" "isSharedMemoryInited st'"
  using assms
  by (auto simp: report_frame_def initSharedMemory_def initStats_def Let_def split: if_splits option.splits
      dest: in_set_dropD)

lemma frame_add:
  assumes "report_frame sh st" "addNewStat A env os a d st = Inr (q, st')"
    and "os_array os (unat (snd (get_fn_list A env ELFPERF_PROFILE_FUNCTION_ENV_VARIABLE))) = Some (p, m)" "p \<noteq> 0"
  shows "report_frame sh st'"
proof -
  obtain st1 ps r where st1: "(if isSharedMemoryInited st then Inr st else initSharedMemory A env os st) = Inr st1"
      "s_statsCount st1 < STATS_LIMIT" "stat_arrays st1 (s_stats st1) = Some ps"
      "st' = st1\<lparr>stat_heap := (stat_heap st1)(r \<mapsto> \<lparr>totalDiffTime = d, totalCallsNumber = 1, realFuncAddr = a\<rparr>),
        s_statsCount := s_statsCount st1 + 1,
        stat_arrays := (stat_arrays st1)(s_stats st1 \<mapsto> ps[unat (s_statsCount st1) := r])\<rparr>"
    using assms(2) by (auto simp: addNewStat_def not_le bind_result_Inr_iff split: if_splits option.splits)
  then have f: "report_frame sh st1" "isSharedMemoryInited st1"
    using assms frame_init [OF assms(1) _ _ assms(3,4)] by (auto split: if_splits)
  have "unat (s_statsCount st1 + 1) = Suc (unat (s_statsCount st1))"
    using st1(2) by (simp add: unat_plus_if' STATS_LIMIT_def word_less_nat_alt)
  then show ?thesis
    using f st1(3,4) set_drop_subset_set_drop [of "unat (s_statsCount st1)" "Suc (unat (s_statsCount st1))" ps]
    by (auto simp: report_frame_def)
qed


lemma frame_update:
  assumes "report_frame sh st" "updateStat A env os a d st = Inr st'"
    and "os_array os (unat (snd (get_fn_list A env ELFPERF_PROFILE_FUNCTION_ENV_VARIABLE))) = Some (p, m)" "p \<noteq> 0"
  shows "report_frame sh st'"
proof -
  have "report_frame sh (st\<lparr>stat_heap := h, updateStatSpinlock := 0\<rparr>)" for h
    using assms(1) by (simp add: report_frame_def)
  moreover have "report_frame sh (st1\<lparr>updateStatSpinlock := 0\<rparr>)"
    if "addNewStat A env os a d (st\<lparr>updateStatSpinlock := l\<rparr>) = Inr (q, st1)" for l q st1
    using frame_add [OF _ that assms(3,4), of sh] assms(1) by simp
  ultimately show ?thesis
    using assms(2) by (auto simp: updateStat_def Let_def bind_result_Inr_iff split: if_splits option.splits)
qed

lemma frame_upds:
  assumes "os_array os (unat (snd (get_fn_list A env ELFPERF_PROFILE_FUNCTION_ENV_VARIABLE))) = Some (p, m)" "p \<noteq> 0"
  shows "report_frame sh st \<Longrightarrow> upds (updateStat A env os) es st = Inr st' \<Longrightarrow> report_frame sh st'"
  by (induction "updateStat A env os" es st rule: upds.induct) (auto simp: bind_result_Inr_iff dest: frame_update [OF _ _ assms])

lemma frame_live:
  assumes "report_frame sh st" "stats_ok st" "isSharedMemoryInited st" "stat_arrays st (s_stats st) = Some ps"
    and "length (live_stats st) \<le> n"
  shows "takeWhile (\<lambda>p. p \<noteq> 0) (take n ps) = live_stats st"
proof -
  let ?k = "unat (s_statsCount st)"
  have l: "live_stats st = take ?k ps" "?k \<le> length ps" "0 \<notin> set (live_stats st)"
    using assms(2-4) by (auto simp: stats_ok_def live_stats_def)
  have "set (take (n - ?k) (drop ?k ps)) \<subseteq> {0}"
    using assms(1,3,4) set_take_subset [of "n - ?k" "drop ?k ps"] by (auto simp: report_frame_def)
  then have "takeWhile (\<lambda>p. p \<noteq> 0) (take (n - ?k) (drop ?k ps)) = []"
    by (cases "take (n - ?k) (drop ?k ps)") auto
  moreover have "take n ps = live_stats st @ take (n - ?k) (drop ?k ps)"
    using l assms(5) take_add [of ?k "n - ?k" ps] by simp
  ultimately show ?thesis
    using l(3) by (auto simp: takeWhile_append)
qed


lemma frame_shared:
  assumes "report_frame sh st"
  shows "seg_context (stat_shared st) = seg_context sh" "seg_info (stat_shared st) = seg_info sh"
    "info_heap (stat_shared st) = info_heap sh"
  using assms unfolding report_frame_def by (metis shared_state.select_convs shared_state.update_convs(1) shared_state.surjective)+

lemma frame_fresh: "report_frame sh (fresh_stats sh)"
  by (simp add: report_frame_def fresh_stats_def)

lemma record_eta:
  "\<lparr>totalDiffTime = totalDiffTime s, totalCallsNumber = totalCallsNumber s, realFuncAddr = realFuncAddr s\<rparr> = s"
  by (cases s) simp

lemma live_records:
  assumes "table_of st = stat_rows es"
  shows "map (\<lambda>p. f (the (stat_heap st p))) (live_stats st) =
      map (\<lambda>(a, n, t). f \<lparr>totalDiffTime = t, totalCallsNumber = n, realFuncAddr = a\<rparr>) (stat_rows es)"
  unfolding assms(1) [symmetric] by (simp add: table_of_def stat_row_def record_eta)


text \<open>The statistics after a run, as the report reads them.\<close>

lemma profiled_stats:
  assumes "stats_os_ok os" "\<forall>n p m. os_array os n = Some (p, m) \<longrightarrow> p \<noteq> 0"
    and "getenv A env ELFPERF_PROFILE_FUNCTION_ENV_VARIABLE = Some v" "c_string v" "v \<noteq> []"
    and "es \<noteq> []" "card (fst ` set es) \<le> length (fn_words v)" "length (fn_words v) \<le> 10000000"
  obtains st ps where "upds (updateStat A env os) es (fresh_stats sh) = Inr st" "report_frame sh st" "stats_ok st"
    "table_of st = stat_rows es" "isSharedMemoryInited st" "stat_arrays st (s_stats st) = Some ps"
    "length (fn_words v) \<le> length ps"
    "takeWhile (\<lambda>p. p \<noteq> 0) (take (length (fn_words v)) ps) = live_stats st"
proof -
  note fresh = fresh_room [OF assms(1,3-5), of sh]
  have "card (fst ` set es) \<le> store_room A env os (fresh_stats sh)"
    using assms(7,8) fresh(2) by (simp add: store_room_def STATS_LIMIT_def)
  then obtain st where st: "upds (updateStat A env os) es (fresh_stats sh) = Inr st"
      "store_inv A env os st" "table_of st = stat_rows es" "store_room A env os st = store_room A env os (fresh_stats sh)"
    using gs.upds_rows [OF fresh(1) fresh_stats_ok(2)] by blast
  have ok: "stats_ok st" and os: "\<exists>p m. os_array os (unat (snd (get_fn_list A env ELFPERF_PROFILE_FUNCTION_ENV_VARIABLE))) = Some (p, m)"
    using st(2) unfolding store_inv_def stats_os_ok_def by blast+
  then have frame: "report_frame sh st"
    using frame_upds [OF _ _ frame_fresh st(1)] assms(2) by blast
  have ne: "live_stats st \<noteq> []"
    using st(3) assms(6) length_table [of st] by (auto simp: stat_rows_def)
  then have inited: "isSharedMemoryInited st" using stats_ok_fresh [OF ok] by blast
  then obtain ps where ps: "stat_arrays st (s_stats st) = Some ps"
    using ok by (auto simp: stats_ok_def)
  have len: "length (fn_words v) \<le> length ps"
    using st(4) fresh(2) assms(8) inited ps by (auto simp: store_room_def capacity_def STATS_LIMIT_def min_def split: if_splits)
  have "length (live_stats st) \<le> length (fn_words v)"
    using assms(7) st(3) length_table [of st] by (simp add: stat_rows_def length_remdups_card_conv image_image)
  then show thesis
    using that [OF st(1) frame ok st(3) inited ps len] frame_live [OF frame ok inited ps] by blast
qed

lemma live_addresses:
  assumes "table_of st = stat_rows es" "stats_ok st" "fst ` set es \<subseteq> fi_addr ` set tab" "p \<in> set (live_stats st)"
  shows "\<exists>s. stat_heap st p = Some s \<and> realFuncAddr s \<in> fi_addr ` set tab"
proof -
  obtain s where s: "stat_heap st p = Some s" using assms(2,4) by (force simp: stats_ok_def)
  then have "realFuncAddr s \<in> fst ` set (stat_rows es)"
    unfolding assms(1) [symmetric] using assms(4) by (force simp: table_of_def stat_row_def image_iff)
  then show ?thesis using s assms(3) by (auto simp: stat_rows_def)
qed

text \<open>C4. From the measured calls to the report: after any sequence of measured calls of at most as many
  functions as are configured, all of them in the table of names, the report that the loader writes at exit
  has the process id, the configured function list and one line per called function, in the order of the
  first calls, with the function's name and the number and total duration of its calls.\<close>

theorem profiled_report:
  assumes "stats_os_ok os" "\<forall>n p m. os_array os n = Some (p, m) \<longrightarrow> p \<noteq> 0"
    and "isElfPerfEnabled A env" "getenv A env ELFPERF_PROFILE_FUNCTION_ENV_VARIABLE = Some v" "c_string v" "v \<noteq> []"
    and "getElfperfContextStorage (os_ipc os) sh = Some c" "unat (RedirectorContext.count (rcontext c)) = length (fn_words v)"
    and "table_ok A env (getFunctionInfoStorage (os_ipc os) sh) cnt sh"
    and "info_heap sh (getFunctionInfoStorage (os_ipc os) sh) = Some tab"
    and "es \<noteq> []" "fst ` set es \<subseteq> fi_addr ` set tab"
    and "card (fst ` set es) \<le> length (fn_words v)" "length (fn_words v) \<le> 10000000"
    and "pFile \<noteq> 0" "pFile \<noteq> - 1"
  shows "\<exists>st. upds (updateStat A env os) es (fresh_stats sh) = Inr st \<and>
     printElfperfResults A env (os_ipc os) pid pFile st =
       Inr (''Profiling results for pid='' @ itoa_word (ucast pid) 10 False @ [CHR 0x0A]
          @ ''Functions: '' @ v @ [CHR 0x0A]
          @ concat (map (\<lambda>(a, n, t). record_line A tab
              \<lparr>totalDiffTime = t, totalCallsNumber = n, realFuncAddr = a\<rparr>) (stat_rows es)))"
proof -
  obtain st ps where st: "upds (updateStat A env os) es (fresh_stats sh) = Inr st" "report_frame sh st" "stats_ok st"
    "table_of st = stat_rows es" "isSharedMemoryInited st" "stat_arrays st (s_stats st) = Some ps"
    "length (fn_words v) \<le> length ps"
    "takeWhile (\<lambda>p. p \<noteq> 0) (take (length (fn_words v)) ps) = live_stats st"
    using profiled_stats [OF assms(1,2,4-6,11,13,14)] by blast
  note sh = frame_shared [OF st(2)]
  obtain shm where shm: "getFunctionStatisticsStorage (os_ipc os) = Some shm"
    using assms(1) by (auto simp: stats_os_ok_def)
  have seg: "seg_stat (stat_shared st) = s_stats st" "s_stats st \<noteq> 0"
    using st(2,3,5) by (auto simp: stats_ok_def report_frame_def)
  have list: "getFunctionInfoStorage (os_ipc os) sh = getFunctionInfoStorage (os_ipc os) (stat_shared st)"
    by (simp add: getFunctionInfoStorage_def sh split: option.split)
  have "getElfperfContextStorage (os_ipc os) (stat_shared st) = Some c"
    "table_ok A env (getFunctionInfoStorage (os_ipc os) sh) cnt (stat_shared st)"
    "info_heap (stat_shared st) (getFunctionInfoStorage (os_ipc os) sh) = Some tab"
    using assms(7,9,10) by (simp_all add: getElfperfContextStorage_def table_ok_def sh split: option.splits)
  then have "printElfperfResults A env (os_ipc os) pid pFile st =
       Inr (''Profiling results for pid='' @ itoa_word (ucast pid) 10 False @ [CHR 0x0A]
          @ ''Functions: '' @ v @ [CHR 0x0A]
          @ concat (map (\<lambda>p. record_line A tab (the (stat_heap st p))) (live_stats st)))"
    using st seg assms(8) live_addresses [OF st(4,3) assms(12)]
    by (intro report_text [OF assms(3,4) shm _ list _ _ _ _ _ assms(15,16), where c = c and ps = ps]) simp_all
  then show ?thesis
    unfolding live_records [OF st(4), of "record_line A tab"] using st(1) by blast
qed

definition report_environ :: environ where
  "report_environ = [''ELFPERF_ENABLE=1'', ''ELFPERF_PROFILE_FUNCTION=puts'']"

definition report_context :: ElfperfContext where
  "report_context = \<lparr>addresses = \<lparr>f_wrapper = 0, f_initWrapperRedirectors = 0, f_addNewFunction = 0,
      f_isFunctionRedirectorRegistered = 0, f_isFunctionInFunctionList = 0, f_getRedirectorAddressForName = 0\<rparr>,
     rcontext = \<lparr>names = [''puts''], RedirectorContext.count = 1, redirectors = 0x4000\<rparr>, infos = 0x3000\<rparr>"

definition report_shared :: shared_state where
  "report_shared = \<lparr>seg_stat = 0, seg_info = 0x3000, seg_context = Some report_context,
       info_heap = [0x3000 \<mapsto> [\<lparr>fi_name = ''puts'', fi_addr = 0x7777\<rparr>]]\<rparr>"

theorem profiled_report_witness:
  "\<exists>st. upds (updateStat ARCH_32 report_environ example_stats_os) [(0x7777, 600), (0x7777, 400)] (fresh_stats report_shared) = Inr st \<and>
    printElfperfResults ARCH_32 report_environ (os_ipc example_stats_os) 42 5 st =
      Inr (''Profiling results for pid=42'' @ [CHR 0x0A] @ ''Functions: puts'' @ [CHR 0x0A]
        @ ''Statistic for puts(7777) : total calls number = 2, total ticks number = 0 1000'' @ [CHR 0x0A])"
proof -
  have g: "getenv ARCH_32 report_environ ELFPERF_PROFILE_FUNCTION_ENV_VARIABLE = Some ''puts''" "c_string ''puts''"
    by (simp_all add: report_environ_def getenv_def ELFPERF_PROFILE_FUNCTION_ENV_VARIABLE_def c_string_def)
  have n: "itoa_word 42 10 False = ''42''" "itoa_word 2 10 False = ''2''" "itoa_word 0 10 False = ''0''"
      "itoa_word 1000 10 False = ''1000''" "itoa_word 0x7777 16 False = ''7777''"
    by (simp_all add: itoa_word_def itoa_loop.simps itoa_lower_digits_def)
  have info: "getFunctionInfoStorage (os_ipc example_stats_os) report_shared = 0x3000"
    "getElfperfContextStorage (os_ipc example_stats_os) report_shared = Some report_context"
    by (simp_all add: getFunctionInfoStorage_def getElfperfContextStorage_def attach_def example_stats_os_def report_shared_def)
  have t: "table_ok ARCH_32 report_environ (getFunctionInfoStorage (os_ipc example_stats_os) report_shared) 1 report_shared"
    using get_fn_list_words [OF g] by (simp add: table_ok_def info) (simp add: report_shared_def)
  have e: "isElfPerfEnabled ARCH_32 report_environ"
    by (simp add: isElfPerfEnabled_def g) (simp add: report_environ_def getenv_def ELFPERF_ENABLE_VARIABLE_def)
  have a: "\<forall>n p m. os_array example_stats_os n = Some (p, m) \<longrightarrow> p \<noteq> 0" by (simp add: example_stats_os_def)
  have r: "stat_rows [(0x7777, 600), (0x7777, 400)] = [(0x7777, 2, 1000)]" by (simp add: stat_rows_def)
  let ?tab = "[\<lparr>fi_name = ''puts'', fi_addr = 0x7777\<rparr>]"
  have l: "record_line ARCH_32 ?tab \<lparr>totalDiffTime = 1000, totalCallsNumber = 2, realFuncAddr = 0x7777\<rparr> =
      ''Statistic for puts(7777) : total calls number = 2, total ticks number = 0 1000'' @ [CHR 0x0A]"
    by (simp add: record_line_def low32_def n)
  show ?thesis
    using profiled_report [OF example_stats_os_ok a e g(1,2) _ info(2) _ t, of ?tab "[(0x7777, 600), (0x7777, 400)]" 5 42]
    unfolding info(1) r by (simp add: l n) (simp add: report_shared_def report_context_def)
qed

end
